(* ===== verification/Prelude.thy ===== *)
theory Prelude
  imports Main "HOL-Library.Word"
begin

text \<open>
  Shared vocabulary of the development: Rust's \<^verbatim>\<open>Result\<close> as a sum with the failure on the
  left, its combinators (\<^verbatim>\<open>?\<close>, \<^verbatim>\<open>ok_or_else\<close>, \<^verbatim>\<open>map_err\<close>, collecting an iterator of results),
  the ranges of the fixed-width integers and their \<^verbatim>\<open>try_from\<close> conversions, decimal printing and
  parsing of integers, and the string splitting the sources use. Strings are lists of
  characters; a Rust \<^verbatim>\<open>&str\<close> is the list of the bytes of its UTF-8 encoding, and every separator
  the code searches for is an ASCII byte, which never occurs inside a longer encoding.
\<close>

named_theorems result_simps
named_theorems width_simps

type_synonym bytes = "8 word list"
type_synonym u64 = "64 word"
type_synonym usize = "64 word"
type_synonym atom = string

section \<open>Results\<close>

abbreviation Ok :: "'a \<Rightarrow> 'e + 'a" where "Ok \<equiv> Inr"
abbreviation Err :: "'e \<Rightarrow> 'e + 'a" where "Err \<equiv> Inl"

definition and_then :: "'e + 'a \<Rightarrow> ('a \<Rightarrow> 'e + 'b) \<Rightarrow> 'e + 'b" where
  "and_then r f = (case r of Inl e \<Rightarrow> Inl e | Inr x \<Rightarrow> f x)"

lemma and_then_simps [simp]:
  "and_then (Ok x) f = f x" "and_then (Err e) f = Err e"
  by (simp_all add: and_then_def)

lemma and_then_Ok_iff [result_simps]:
  "and_then r f = Ok y \<longleftrightarrow> (\<exists>x. r = Ok x \<and> f x = Ok y)"
  by (cases r) simp_all

lemma and_then_Err_iff [result_simps]:
  "and_then r f = Err e \<longleftrightarrow> r = Err e \<or> (\<exists>x. r = Ok x \<and> f x = Err e)"
  by (cases r) auto

lemma and_then_cong [fundef_cong]:
  "r = r' \<Longrightarrow> (\<And>x. r' = Ok x \<Longrightarrow> f x = g x) \<Longrightarrow> and_then r f = and_then r' g"
  by (cases r') simp_all

definition ok_or :: "'a option \<Rightarrow> 'e \<Rightarrow> 'e + 'a" where
  "ok_or x e = (case x of None \<Rightarrow> Err e | Some v \<Rightarrow> Ok v)"

lemma ok_or_simps [simp]: "ok_or None e = Err e" "ok_or (Some v) e = Ok v"
  by (simp_all add: ok_or_def)

lemma ok_or_Ok_iff [result_simps]: "ok_or x e = Ok v \<longleftrightarrow> x = Some v"
  by (cases x) simp_all

definition map_err :: "('e \<Rightarrow> 'f) \<Rightarrow> 'e + 'a \<Rightarrow> 'f + 'a" where
  "map_err f r = (case r of Inl e \<Rightarrow> Inl (f e) | Inr x \<Rightarrow> Inr x)"

lemma map_err_simps [simp]: "map_err f (Ok x) = Ok x" "map_err f (Err e) = Err (f e)"
  by (simp_all add: map_err_def)

lemma map_err_Ok_iff [result_simps]: "map_err f r = Ok x \<longleftrightarrow> r = Ok x"
  by (cases r) simp_all

text \<open>\<^verbatim>\<open>iter().collect::<Result<Vec<_>, _>>()\<close>: the first failure, or all the values.\<close>

fun collect_results :: "('e + 'a) list \<Rightarrow> 'e + 'a list" where
  "collect_results [] = Ok []"
| "collect_results (r # rs) =
     and_then r (\<lambda>x. and_then (collect_results rs) (\<lambda>xs. Ok (x # xs)))"

lemma collect_results_Ok_iff:
  "collect_results rs = Ok xs \<longleftrightarrow> rs = map Ok xs"
proof (induction rs arbitrary: xs)
  case Nil
  then show ?case by auto
next
  case (Cons r rs)
  then show ?case by (cases xs) (auto simp: result_simps)
qed

lemma collect_results_map_Ok:
  "(\<And>x. x \<in> set xs \<Longrightarrow> f x = Ok (g x)) \<Longrightarrow> collect_results (map f xs) = Ok (map g xs)"
  by (simp add: collect_results_Ok_iff)

lemma collect_results_length:
  "collect_results (map f xs) = Ok ys \<Longrightarrow> length ys = length xs"
  unfolding collect_results_Ok_iff using map_eq_imp_length_eq by metis

lemma collect_results_nth:
  assumes "collect_results (map f xs) = Ok ys" and "i < length xs"
  shows "f (xs ! i) = Ok (ys ! i)"
proof -
  have len: "length ys = length xs" using assms(1) by (rule collect_results_length)
  have "map f xs ! i = map Ok ys ! i"
    using assms(1) by (simp add: collect_results_Ok_iff)
  with assms(2) len show ?thesis by simp
qed

section \<open>Fixed-width integers\<close>

text \<open>
  The values of Rust's integer types are integers in a range. A conversion (\<^verbatim>\<open>try_from\<close>) or a
  \<^verbatim>\<open>checked_\<close> operation is \<^const>\<open>None\<close> outside the range of its type.
\<close>

definition fits_signed :: "nat \<Rightarrow> int \<Rightarrow> bool" where
  "fits_signed w x \<longleftrightarrow> - (2 ^ (w - 1)) \<le> x \<and> x < 2 ^ (w - 1)"

definition fits_unsigned :: "nat \<Rightarrow> int \<Rightarrow> bool" where
  "fits_unsigned w x \<longleftrightarrow> 0 \<le> x \<and> x < 2 ^ w"

definition try_signed :: "nat \<Rightarrow> int \<Rightarrow> int option" where
  "try_signed w x = (if fits_signed w x then Some x else None)"

definition try_unsigned :: "nat \<Rightarrow> int \<Rightarrow> int option" where
  "try_unsigned w x = (if fits_unsigned w x then Some x else None)"

lemma try_signed_Some_iff [width_simps]: "try_signed w x = Some y \<longleftrightarrow> y = x \<and> fits_signed w x"
  by (auto simp: try_signed_def)

lemma try_unsigned_Some_iff [width_simps]:
  "try_unsigned w x = Some y \<longleftrightarrow> y = x \<and> fits_unsigned w x"
  by (auto simp: try_unsigned_def)

lemma fits_signed_mono:
  assumes "fits_signed v x" and "v \<le> w"
  shows "fits_signed w x"
proof -
  have "(2::int) ^ (v - 1) \<le> 2 ^ (w - 1)"
    using assms(2) by (intro power_increasing) auto
  with assms(1) show ?thesis unfolding fits_signed_def by linarith
qed

lemma fits_unsigned_signed:
  assumes "fits_unsigned v x" and "v < w"
  shows "fits_signed w x"
proof -
  have "(2::int) ^ v \<le> 2 ^ (w - 1)"
    using assms(2) by (intro power_increasing) auto
  moreover have "- (2 ^ (w - 1)) \<le> (0::int)" by simp
  ultimately show ?thesis using assms(1) unfolding fits_signed_def fits_unsigned_def by linarith
qed

definition checked_add_u64 :: "u64 \<Rightarrow> u64 \<Rightarrow> u64 option" where
  "checked_add_u64 a b = (if unat a + unat b < 2 ^ 64 then Some (a + b) else None)"

lemma checked_add_u64_Some:
  "checked_add_u64 a b = Some c \<longleftrightarrow> unat a + unat b < 2 ^ 64 \<and> c = a + b"
  by (auto simp: checked_add_u64_def)

definition usize_max :: usize where
  "usize_max = 18446744073709551615"

definition saturating_add_usize :: "usize \<Rightarrow> usize \<Rightarrow> usize" where
  "saturating_add_usize a b = (if unat a + unat b < 2 ^ 64 then a + b else usize_max)"

definition saturating_sub_usize :: "usize \<Rightarrow> usize \<Rightarrow> usize" where
  "saturating_sub_usize a b = (if b \<le> a then a - b else 0)"

definition saturating_mul_usize :: "usize \<Rightarrow> usize \<Rightarrow> usize" where
  "saturating_mul_usize a b = (if unat a * unat b < 2 ^ 64 then a * b else usize_max)"

lemma unat_add_u64: "unat a + unat b < 2 ^ 64 \<Longrightarrow> unat (a + b :: u64) = unat a + unat b"
  by (simp add: unat_word_ariths)

lemma unat_usize_max: "unat usize_max = 2 ^ 64 - 1"
  by (simp add: usize_max_def)

lemma unat_saturating_add:
  "unat (saturating_add_usize a b) = min (unat a + unat b) (2 ^ 64 - 1)"
  by (simp add: saturating_add_usize_def unat_word_ariths unat_usize_max)

lemma unat_saturating_sub: "unat (saturating_sub_usize a b) = unat a - unat b"
  by (simp add: saturating_sub_usize_def unat_sub word_le_nat_alt)

lemma unat_saturating_mul:
  "unat (saturating_mul_usize a b) = min (unat a * unat b) (2 ^ 64 - 1)"
  by (simp add: saturating_mul_usize_def unat_word_ariths unat_usize_max)

section \<open>Counting\<close>

lemma sum_list_update_nat:
  "i < length xs \<Longrightarrow> sum_list (map (f :: 'a \<Rightarrow> nat) (xs[i := x])) + f (xs ! i) =
     sum_list (map f xs) + f x"
  by (induction xs arbitrary: i) (auto simp: nth_Cons split: nat.splits)

end
