(* ===== verification/Text_Codec.thy ===== *)
theory Text_Codec
  imports Prelude
begin

text \<open>
  The parts of Rust's string library the sources use: \<^verbatim>\<open>to_string\<close> and \<^verbatim>\<open>parse\<close> on integers,
  \<^verbatim>\<open>split\<close> and \<^verbatim>\<open>split_once\<close> on a character, \<^verbatim>\<open>trim_matches\<close>, \<^verbatim>\<open>strip_prefix\<close> and
  \<^verbatim>\<open>starts_with\<close>. The lemmas are the round trips the path codecs rest on.
\<close>

section \<open>Decimal integers\<close>

definition digit_char :: "nat \<Rightarrow> char" where
  "digit_char d = char_of (48 + d)"

definition digit_value :: "char \<Rightarrow> nat option" where
  "digit_value c =
     (let v = (of_char c :: nat) in if 48 \<le> v \<and> v \<le> 57 then Some (v - 48) else None)"

lemma digit_value_char: "d < 10 \<Longrightarrow> digit_value (digit_char d) = Some d"
  by (simp add: digit_value_def digit_char_def of_char_of Let_def)

fun nat_to_string :: "nat \<Rightarrow> string" where
  "nat_to_string n =
     (if n < 10 then [digit_char n] else nat_to_string (n div 10) @ [digit_char (n mod 10)])"

declare nat_to_string.simps [simp del]

definition int_to_string :: "int \<Rightarrow> string" where
  "int_to_string i =
     (if i < 0 then CHR ''-'' # nat_to_string (nat (- i)) else nat_to_string (nat i))"

fun parse_digits :: "nat \<Rightarrow> string \<Rightarrow> nat option" where
  "parse_digits acc [] = Some acc"
| "parse_digits acc (c # cs) =
     (case digit_value c of None \<Rightarrow> None | Some d \<Rightarrow> parse_digits (acc * 10 + d) cs)"

text \<open>
  \<^verbatim>\<open>str::parse\<close> for a signed type of \<open>w\<close> bits: the empty string and a lone sign are
  refused, one leading sign is accepted, every other character is a digit, and a value outside
  the type is refused.
\<close>

definition parse_int :: "nat \<Rightarrow> string \<Rightarrow> int option" where
  "parse_int w s =
     (case s of
        [] \<Rightarrow> None
      | c # cs \<Rightarrow>
          if (c = CHR ''-'' \<or> c = CHR ''+'') \<and> cs = [] then None
          else
            (case parse_digits 0 (if c = CHR ''-'' \<or> c = CHR ''+'' then cs else s) of
               None \<Rightarrow> None
             | Some n \<Rightarrow> try_signed w (if c = CHR ''-'' then - int n else int n)))"

lemma nat_to_string_nonempty: "nat_to_string n \<noteq> []"
  by (subst nat_to_string.simps) simp

lemma nat_to_string_digits: "c \<in> set (nat_to_string n) \<Longrightarrow> \<exists>d < 10. c = digit_char d"
proof (induction n rule: nat_to_string.induct)
  case (1 n)
  show ?case
  proof (cases "n < 10")
    case True
    with "1.prems" have "c = digit_char n" by (subst (asm) nat_to_string.simps) simp
    with True show ?thesis by blast
  next
    case False
    with "1.prems" consider "c \<in> set (nat_to_string (n div 10))" | "c = digit_char (n mod 10)"
      by (subst (asm) nat_to_string.simps) auto
    then show ?thesis
    proof cases
      case 1
      with "1.IH" False show ?thesis by blast
    next
      case 2
      have "n mod 10 < 10" by simp
      with 2 show ?thesis by blast
    qed
  qed
qed

lemma parse_digits_append:
  "parse_digits acc (xs @ ys) =
     (case parse_digits acc xs of None \<Rightarrow> None | Some a \<Rightarrow> parse_digits a ys)"
  by (induction xs arbitrary: acc) (auto split: option.splits)

lemma parse_digits_nat_to_string:
  "parse_digits 0 (nat_to_string n) = Some n"
proof (induction n rule: nat_to_string.induct)
  case (1 n)
  show ?case
  proof (cases "n < 10")
    case True
    then show ?thesis by (subst nat_to_string.simps) (simp add: digit_value_char)
  next
    case False
    with 1 have "parse_digits 0 (nat_to_string (n div 10)) = Some (n div 10)" by simp
    with False show ?thesis
      by (subst nat_to_string.simps) (simp add: parse_digits_append digit_value_char)
  qed
qed

lemma digit_char_not:
  assumes "d < 10" and "of_char c < (48::nat) \<or> 57 < (of_char c :: nat)"
  shows "digit_char d \<noteq> c"
proof
  assume "digit_char d = c"
  then have "of_char c = 48 + d"
    using assms(1) by (auto simp: digit_char_def of_char_of)
  with assms show False by simp
qed

lemma nat_to_string_avoids:
  assumes "of_char c < (48::nat) \<or> 57 < (of_char c :: nat)"
  shows "c \<notin> set (nat_to_string n)"
  using nat_to_string_digits digit_char_not assms by metis

lemma int_to_string_avoids:
  assumes "of_char c < (48::nat) \<or> 57 < (of_char c :: nat)" and "c \<noteq> CHR ''-''"
  shows "c \<notin> set (int_to_string i)"
  using assms by (simp add: int_to_string_def nat_to_string_avoids)

lemma int_to_string_no_separator:
  "CHR ''/'' \<notin> set (int_to_string i)" "CHR ''='' \<notin> set (int_to_string i)"
  by (rule int_to_string_avoids, simp_all)+

lemma parse_int_to_string:
  assumes "fits_signed w i"
  shows "parse_int w (int_to_string i) = Some i"
proof (cases "i < 0")
  case True
  then have "int_to_string i = CHR ''-'' # nat_to_string (nat (- i))"
    by (simp add: int_to_string_def)
  with assms True show ?thesis
    by (simp add: parse_int_def nat_to_string_nonempty parse_digits_nat_to_string try_signed_def)
next
  case False
  obtain c cs where s: "nat_to_string (nat i) = c # cs"
    by (cases "nat_to_string (nat i)") (simp_all add: nat_to_string_nonempty)
  then have "c \<in> set (nat_to_string (nat i))" by simp
  then have signs: "c \<noteq> CHR ''-''" "c \<noteq> CHR ''+''"
    using nat_to_string_avoids [of "CHR ''-''" "nat i"]
      nat_to_string_avoids [of "CHR ''+''" "nat i"]
    by auto
  have "parse_digits 0 (c # cs) = Some (nat i)"
    using parse_digits_nat_to_string [of "nat i"] s by simp
  with signs assms False s show ?thesis
    by (simp add: parse_int_def int_to_string_def try_signed_def del: parse_digits.simps)
qed

lemma int_to_string_inj:
  assumes "int_to_string i = int_to_string j"
  shows "i = j"
proof -
  let ?w = "Suc (nat (\<bar>i\<bar> + \<bar>j\<bar>))"
  have pow: "\<bar>i\<bar> + \<bar>j\<bar> < 2 ^ nat (\<bar>i\<bar> + \<bar>j\<bar>)"
    using of_nat_less_iff [where 'a = int, of "nat (\<bar>i\<bar> + \<bar>j\<bar>)" "2 ^ nat (\<bar>i\<bar> + \<bar>j\<bar>)"]
      less_exp [of "nat (\<bar>i\<bar> + \<bar>j\<bar>)"] by simp
  then have "fits_signed ?w i" "fits_signed ?w j"
    unfolding fits_signed_def diff_Suc_1 by linarith+
  then have "Some i = parse_int ?w (int_to_string i)" "Some j = parse_int ?w (int_to_string j)"
    by (simp_all only: parse_int_to_string)
  then have "Some i = Some j" by (simp only: assms)
  then show ?thesis by (simp only: option.inject)
qed

section \<open>Splitting\<close>

fun split_on :: "char \<Rightarrow> string \<Rightarrow> string list" where
  "split_on c [] = [[]]"
| "split_on c (x # xs) =
     (if x = c then [] # split_on c xs
      else case split_on c xs of [] \<Rightarrow> [[x]] | y # ys \<Rightarrow> (x # y) # ys)"

fun split_once :: "char \<Rightarrow> string \<Rightarrow> (string \<times> string) option" where
  "split_once c [] = None"
| "split_once c (x # xs) =
     (if x = c then Some ([], xs)
      else map_option (\<lambda>(a, b). (x # a, b)) (split_once c xs))"

fun join_with :: "char \<Rightarrow> string list \<Rightarrow> string" where
  "join_with c [] = []"
| "join_with c [x] = x"
| "join_with c (x # y # ys) = x @ c # join_with c (y # ys)"

lemma split_on_nonempty [simp]: "split_on c s \<noteq> []"
  by (induction s) (auto split: list.splits)

lemma split_on_absent: "c \<notin> set s \<Longrightarrow> split_on c s = [s]"
  by (induction s) auto

lemma split_on_append: "c \<notin> set s \<Longrightarrow> split_on c (s @ c # t) = s # split_on c t"
  by (induction s) auto

lemma split_on_join:
  "xs \<noteq> [] \<Longrightarrow> (\<And>x. x \<in> set xs \<Longrightarrow> c \<notin> set x) \<Longrightarrow> split_on c (join_with c xs) = xs"
  by (induction c xs rule: join_with.induct) (simp_all add: split_on_absent split_on_append)

lemma join_split_on: "join_with c (split_on c s) = s"
proof (induction s)
  case Nil
  then show ?case by simp
next
  case (Cons x xs)
  obtain y ys where ys: "split_on c xs = y # ys"
    by (cases "split_on c xs") simp_all
  with Cons show ?case by (cases ys) auto
qed

lemma split_on_parts: "x \<in> set (split_on c s) \<Longrightarrow> c \<notin> set x"
proof (induction s arbitrary: x)
  case Nil
  then show ?case by simp
next
  case (Cons a s)
  obtain y ys where ys: "split_on c s = y # ys"
    by (cases "split_on c s") simp_all
  with Cons show ?case by (auto split: if_splits)
qed

lemma split_once_append: "c \<notin> set s \<Longrightarrow> split_once c (s @ c # t) = Some (s, t)"
  by (induction s) auto

lemma split_once_Some: "split_once c s = Some (a, b) \<Longrightarrow> s = a @ c # b \<and> c \<notin> set a"
  by (induction s arbitrary: a) (auto split: if_splits)

section \<open>Prefixes and trimming\<close>

fun strip_prefix :: "string \<Rightarrow> string \<Rightarrow> string option" where
  "strip_prefix [] s = Some s"
| "strip_prefix (p # ps) [] = None"
| "strip_prefix (p # ps) (x # xs) = (if p = x then strip_prefix ps xs else None)"

definition starts_with :: "string \<Rightarrow> string \<Rightarrow> bool" where
  "starts_with s p \<longleftrightarrow> strip_prefix p s \<noteq> None"

lemma strip_prefix_Some_iff: "strip_prefix p s = Some t \<longleftrightarrow> s = p @ t"
  by (induction p s rule: strip_prefix.induct) auto

lemma starts_with_iff: "starts_with s p \<longleftrightarrow> (\<exists>t. s = p @ t)"
  by (auto simp: starts_with_def strip_prefix_Some_iff)

definition trim_matches :: "char \<Rightarrow> string \<Rightarrow> string" where
  "trim_matches c s = rev (dropWhile (\<lambda>x. x = c) (rev (dropWhile (\<lambda>x. x = c) s)))"

end
