(* ===== verification/Errors.thy ===== *)
theory Errors
  imports Prelude
begin

text \<open>
  The failure values of the native layer: \<^verbatim>\<open>error.rs\<close> (categories, failures, the mapping from
  the operating system's error kinds, the payload handed to Elixir), the operation names of
  \<^verbatim>\<open>lib.rs\<close>, and the panic boundary \<^verbatim>\<open>guarded\<close> around every exported function. An Erlang atom is
  its name.
\<close>

section \<open>Operations\<close>

datatype operation =
    OpSmoke
  | OpSmokeError
  | OpHead
  | OpReadRange
  | OpList
  | OpDelete
  | OpWriterOpen
  | OpWriterWrite
  | OpWriterPublish
  | OpWriterAbort
  | OpResourceSnapshot
  | OpReaderOpen
  | OpReaderNext
  | OpReaderClose
  | OpReaderStats
  | OpParquetWriterOpen
  | OpParquetWriterWrite
  | OpParquetWriterClose
  | OpParquetWriterAbort
  | OpParquetWriterStats
  | OpZstdCompress
  | OpZstdDecompress
  | OpS3Head
  | OpS3List
  | OpS3Delete
  | OpS3WriterOpen
  | OpS3WriterWrite
  | OpS3WriterPublish
  | OpS3WriterAbort
  | OpStoreOpen
  | OpStoreIdentity
  | OpStoreHead
  | OpStoreReadRange
  | OpStoreList
  | OpStoreDelete
  | OpStoreWriterOpen
  | OpStoreWriterWrite
  | OpStoreWriterPublish
  | OpStoreWriterAbort
  | OpTimePartition

primrec operation_atom :: "operation \<Rightarrow> atom" where
  "operation_atom OpSmoke = ''native_smoke''"
| "operation_atom OpSmokeError = ''native_smoke_error''"
| "operation_atom OpHead = ''local_head''"
| "operation_atom OpReadRange = ''local_read_range''"
| "operation_atom OpList = ''local_list''"
| "operation_atom OpDelete = ''local_delete''"
| "operation_atom OpWriterOpen = ''local_writer_open''"
| "operation_atom OpWriterWrite = ''local_writer_write''"
| "operation_atom OpWriterPublish = ''local_writer_publish''"
| "operation_atom OpWriterAbort = ''local_writer_abort''"
| "operation_atom OpResourceSnapshot = ''resource_snapshot''"
| "operation_atom OpReaderOpen = ''reader_open''"
| "operation_atom OpReaderNext = ''reader_next''"
| "operation_atom OpReaderClose = ''reader_close''"
| "operation_atom OpReaderStats = ''reader_stats''"
| "operation_atom OpParquetWriterOpen = ''parquet_writer_open''"
| "operation_atom OpParquetWriterWrite = ''parquet_writer_write''"
| "operation_atom OpParquetWriterClose = ''parquet_writer_close''"
| "operation_atom OpParquetWriterAbort = ''parquet_writer_abort''"
| "operation_atom OpParquetWriterStats = ''parquet_writer_stats''"
| "operation_atom OpZstdCompress = ''zstd_compress''"
| "operation_atom OpZstdDecompress = ''zstd_decompress''"
| "operation_atom OpS3Head = ''s3_head''"
| "operation_atom OpS3List = ''s3_list''"
| "operation_atom OpS3Delete = ''s3_delete''"
| "operation_atom OpS3WriterOpen = ''s3_writer_open''"
| "operation_atom OpS3WriterWrite = ''s3_writer_write''"
| "operation_atom OpS3WriterPublish = ''s3_writer_publish''"
| "operation_atom OpS3WriterAbort = ''s3_writer_abort''"
| "operation_atom OpStoreOpen = ''store_open''"
| "operation_atom OpStoreIdentity = ''store_identity''"
| "operation_atom OpStoreHead = ''store_head''"
| "operation_atom OpStoreReadRange = ''store_read_range''"
| "operation_atom OpStoreList = ''store_list''"
| "operation_atom OpStoreDelete = ''store_delete''"
| "operation_atom OpStoreWriterOpen = ''store_writer_open''"
| "operation_atom OpStoreWriterWrite = ''store_writer_write''"
| "operation_atom OpStoreWriterPublish = ''store_writer_publish''"
| "operation_atom OpStoreWriterAbort = ''store_writer_abort''"
| "operation_atom OpTimePartition = ''time_partition''"

section \<open>Failures\<close>

datatype category =
    Cancelled
  | Conflict
  | InvalidArgument
  | MalformedData
  | NativeFailure
  | NotFound
  | PermissionDenied
  | Timeout
  | Unsupported

primrec category_atom :: "category \<Rightarrow> atom" where
  "category_atom Cancelled = ''cancelled''"
| "category_atom Conflict = ''conflict''"
| "category_atom InvalidArgument = ''invalid_argument''"
| "category_atom MalformedData = ''malformed_data''"
| "category_atom NativeFailure = ''native_failure''"
| "category_atom NotFound = ''not_found''"
| "category_atom PermissionDenied = ''permission_denied''"
| "category_atom Timeout = ''timeout''"
| "category_atom Unsupported = ''unsupported''"

record native_failure =
  failure_category :: category
  failure_operation :: operation
  failure_message :: string
  failure_retryable :: bool

type_synonym 'a native_result = "native_failure + 'a"

definition failure_new :: "category \<Rightarrow> operation \<Rightarrow> string \<Rightarrow> native_failure" where
  "failure_new category operation message =
     \<lparr>failure_category = category, failure_operation = operation,
      failure_message = message, failure_retryable = False\<rparr>"

definition failure_expected :: "operation \<Rightarrow> string \<Rightarrow> native_failure" where
  "failure_expected operation message = failure_new NativeFailure operation message"

definition failure_invalid :: "operation \<Rightarrow> string \<Rightarrow> native_failure" where
  "failure_invalid operation message = failure_new InvalidArgument operation message"

definition failure_cancelled :: "operation \<Rightarrow> native_failure" where
  "failure_cancelled operation = failure_new Cancelled operation ''operation was cancelled''"

definition failure_panic :: "operation \<Rightarrow> native_failure" where
  "failure_panic operation =
     failure_new NativeFailure operation ''native operation failed safely''"

text \<open>
  The kinds of \<^verbatim>\<open>std::io::ErrorKind\<close> the code distinguishes; \<open>IoOther\<close> stands for every other
  kind.
\<close>

datatype io_kind =
    IoNotFound
  | IoPermissionDenied
  | IoAlreadyExists
  | IoInvalidInput
  | IoInvalidData
  | IoTimedOut
  | IoUnsupported
  | IoOther

definition from_io :: "operation \<Rightarrow> io_kind \<Rightarrow> native_failure" where
  "from_io operation kind =
     (let (category, message, retryable) =
        (case kind of
           IoNotFound \<Rightarrow> (NotFound, ''object not found'', False)
         | IoPermissionDenied \<Rightarrow> (PermissionDenied, ''object access was denied'', False)
         | IoAlreadyExists \<Rightarrow> (Conflict, ''destination already exists'', False)
         | IoInvalidInput \<Rightarrow> (InvalidArgument, ''object request is invalid'', False)
         | IoInvalidData \<Rightarrow> (InvalidArgument, ''object request is invalid'', False)
         | IoTimedOut \<Rightarrow> (Timeout, ''object operation timed out'', True)
         | IoUnsupported \<Rightarrow> (Unsupported, ''object operation is unsupported'', False)
         | IoOther \<Rightarrow> (NativeFailure, ''local object operation failed'', False))
      in \<lparr>failure_category = category, failure_operation = operation,
          failure_message = message, failure_retryable = retryable\<rparr>)"

record native_error_payload =
  payload_category :: atom
  payload_operation :: atom
  payload_message :: string
  payload_retryable :: bool

definition failure_payload :: "native_failure \<Rightarrow> native_error_payload" where
  "failure_payload f =
     \<lparr>payload_category = category_atom (failure_category f),
      payload_operation = operation_atom (failure_operation f),
      payload_message = failure_message f,
      payload_retryable = failure_retryable f\<rparr>"

lemmas failure_defs =
  failure_new_def failure_expected_def failure_invalid_def failure_cancelled_def
  failure_panic_def

lemma failure_fields [simp]:
  "failure_category (failure_new c p m) = c"
  "failure_operation (failure_new c p m) = p"
  "failure_message (failure_new c p m) = m"
  "failure_retryable (failure_new c p m) = False"
  "failure_category (failure_invalid p m) = InvalidArgument"
  "failure_operation (failure_invalid p m) = p"
  "failure_message (failure_invalid p m) = m"
  "failure_category (failure_expected p m) = NativeFailure"
  "failure_operation (failure_expected p m) = p"
  "failure_category (failure_cancelled p) = Cancelled"
  "failure_operation (failure_cancelled p) = p"
  "failure_category (failure_panic p) = NativeFailure"
  "failure_operation (failure_panic p) = p"
  by (simp_all add: failure_defs)

lemma from_io_fields [simp]:
  "failure_operation (from_io p k) = p"
  "failure_retryable (from_io p k) = (k = IoTimedOut)"
  by (cases k; simp add: from_io_def)+

section \<open>The panic boundary\<close>

text \<open>
  The work of an exported function ends in a result or in a panic; \<^verbatim>\<open>catch_unwind\<close> turns the
  panic into a value.
\<close>

datatype 'a unwind = Returned 'a | Panicked

definition guarded :: "operation \<Rightarrow> 'a native_result unwind \<Rightarrow> 'a native_result" where
  "guarded operation work =
     (case work of Returned result \<Rightarrow> result | Panicked \<Rightarrow> Err (failure_panic operation))"

text \<open>The tagged tuple an exported function returns to Elixir.\<close>

datatype 'a nif_reply = ReplyOk 'a | ReplyError native_error_payload

definition encode_guarded :: "operation \<Rightarrow> 'a native_result unwind \<Rightarrow> 'a nif_reply" where
  "encode_guarded operation work =
     (case guarded operation work of
        Inr value \<Rightarrow> ReplyOk value
      | Inl failure \<Rightarrow> ReplyError (failure_payload failure))"

text \<open>
  \<open>alloc\<close> says whether the Erlang runtime grants a binary of the given length.
\<close>

definition encode_binary_guarded ::
  "(nat \<Rightarrow> bool) \<Rightarrow> operation \<Rightarrow> bytes native_result unwind \<Rightarrow> bytes nif_reply" where
  "encode_binary_guarded alloc operation work =
     (case guarded operation work of
        Inr bytes \<Rightarrow>
          if alloc (length bytes) then ReplyOk bytes
          else ReplyError (failure_payload (failure_expected operation ''binary allocation failed''))
      | Inl failure \<Rightarrow> ReplyError (failure_payload failure))"

text \<open>The atoms name the operations uniquely: a table maps each one back.\<close>

definition operations :: "operation list" where
  "operations =
     [OpSmoke, OpSmokeError, OpHead, OpReadRange, OpList, OpDelete,
      OpWriterOpen, OpWriterWrite, OpWriterPublish, OpWriterAbort, OpResourceSnapshot, OpReaderOpen,
      OpReaderNext, OpReaderClose, OpReaderStats, OpParquetWriterOpen, OpParquetWriterWrite, OpParquetWriterClose,
      OpParquetWriterAbort, OpParquetWriterStats, OpZstdCompress, OpZstdDecompress, OpS3Head, OpS3List,
      OpS3Delete, OpS3WriterOpen, OpS3WriterWrite, OpS3WriterPublish, OpS3WriterAbort, OpStoreOpen,
      OpStoreIdentity, OpStoreHead, OpStoreReadRange, OpStoreList, OpStoreDelete, OpStoreWriterOpen,
      OpStoreWriterWrite, OpStoreWriterPublish, OpStoreWriterAbort, OpTimePartition]"

lemma operations_table:
  "map_of (map (\<lambda>p. (operation_atom p, p)) operations) (operation_atom q) = Some q"
  by (cases q) (simp_all add: operations_def)

lemma operation_atom_inj:
  assumes "operation_atom a = operation_atom b"
  shows "a = b"
proof -
  have "Some a = Some b"
    using operations_table [of a] operations_table [of b] by (simp only: assms)
  then show ?thesis by simp
qed

lemma category_atom_inj: "category_atom a = category_atom b \<Longrightarrow> a = b"
  by (cases a; cases b; simp)

lemma failure_payload_inj: "failure_payload f = failure_payload g \<Longrightarrow> f = g"
  by (cases f; cases g)
    (auto simp: failure_payload_def dest: operation_atom_inj category_atom_inj)

lemma guarded_Ok_iff: "guarded p w = Ok x \<longleftrightarrow> w = Returned (Ok x)"
  by (cases w) (simp_all add: guarded_def)

end
