(* ===== verification/Time_Partition.thy ===== *)
theory Time_Partition
  imports Text_Codec Errors
begin

text \<open>
  \<^verbatim>\<open>time_partition.rs\<close>: the canonical UTC partition of an instant, the strict parser of
  partition paths and the range planner. The calendar is the third-party crate \<^verbatim>\<open>chrono\<close>; its
  operations are the fields of the record \<open>chrono\<close>, which every definition takes as its first
  argument. What the code relies on is stated in the theory \<open>Chrono_Laws\<close>.
\<close>

section \<open>The calendar the code calls\<close>

text \<open>
  \<open>'d\<close> is \<^verbatim>\<open>NaiveDate\<close> and \<open>'t\<close> is \<^verbatim>\<open>DateTime<Utc>\<close>. Every \<^verbatim>\<open>Option\<close> of the crate is an option
  here. \<open>add_seconds\<close> is \<^verbatim>\<open>checked_add_signed\<close> of a duration of whole seconds, \<open>add_months\<close> is
  \<^verbatim>\<open>checked_add_months\<close>, \<open>from_isoywd_monday\<close> is \<^verbatim>\<open>from_isoywd_opt\<close> with \<^verbatim>\<open>Weekday::Mon\<close>,
  \<open>and_hms\<close> is \<^verbatim>\<open>and_hms_opt\<close> followed by \<^verbatim>\<open>Utc.from_utc_datetime\<close>, \<open>before\<close> is \<^verbatim>\<open><\<close>.
\<close>

record ('d, 't) chrono =
  from_timestamp :: "int \<Rightarrow> int \<Rightarrow> 't option"
  timestamp :: "'t \<Rightarrow> int"
  subsec_nanos :: "'t \<Rightarrow> int"
  before :: "'t \<Rightarrow> 't \<Rightarrow> bool"
  date_naive :: "'t \<Rightarrow> 'd"
  hour :: "'t \<Rightarrow> int"
  minute :: "'t \<Rightarrow> int"
  year :: "'d \<Rightarrow> int"
  month :: "'d \<Rightarrow> int"
  day :: "'d \<Rightarrow> int"
  num_days_from_monday :: "'d \<Rightarrow> int"
  iso_year :: "'d \<Rightarrow> int"
  iso_week :: "'d \<Rightarrow> int"
  checked_sub_days :: "'d \<Rightarrow> int \<Rightarrow> 'd option"
  from_ymd :: "int \<Rightarrow> int \<Rightarrow> int \<Rightarrow> 'd option"
  from_isoywd_monday :: "int \<Rightarrow> int \<Rightarrow> 'd option"
  and_hms :: "'d \<Rightarrow> int \<Rightarrow> int \<Rightarrow> int \<Rightarrow> 't option"
  add_seconds :: "'t \<Rightarrow> int \<Rightarrow> 't option"
  add_months :: "'t \<Rightarrow> int \<Rightarrow> 't option"

section \<open>Data\<close>

record native_partition =
  partition_path :: string
  start_seconds :: int
  start_nanosecond :: int
  until_seconds :: int
  until_nanosecond :: int

datatype granularity = Minute | Hour | Day | Week | Month

definition tp_invalid :: "string \<Rightarrow> native_failure" where
  "tp_invalid message = failure_invalid OpTimePartition message"

definition parse_granularity :: "atom \<Rightarrow> granularity native_result" where
  "parse_granularity value =
     (if value = ''minute'' then Ok Minute
      else if value = ''hour'' then Ok Hour
      else if value = ''day'' then Ok Day
      else if value = ''week'' then Ok Week
      else if value = ''month'' then Ok Month
      else Err (tp_invalid ''partition granularity is invalid''))"

definition canonical_integer :: "string \<Rightarrow> int option" where
  "canonical_integer value =
     (case parse_int 64 value of
        None \<Rightarrow> None
      | Some parsed \<Rightarrow> if int_to_string parsed = value then Some parsed else None)"

definition u32_value :: "int \<Rightarrow> string \<Rightarrow> int native_result" where
  "u32_value value name =
     ok_or (try_unsigned 32 value) (tp_invalid (name @ '' is out of range''))"

section \<open>Instants\<close>

definition unit_factor :: "atom \<Rightarrow> int native_result" where
  "unit_factor unit =
     (if unit = ''second'' then Ok 1000000000
      else if unit = ''millisecond'' then Ok 1000000
      else if unit = ''microsecond'' then Ok 1000
      else if unit = ''nanosecond'' then Ok 1
      else Err (tp_invalid ''timestamp unit is invalid''))"

text \<open>
  The \<^verbatim>\<open>i128\<close> product is checked; \<^verbatim>\<open>div_euclid\<close> and \<^verbatim>\<open>rem_euclid\<close> by a positive divisor are
  Isabelle's \<open>div\<close> and \<open>mod\<close>.
\<close>

definition instant :: "('d, 't) chrono \<Rightarrow> int \<Rightarrow> atom \<Rightarrow> 't native_result" where
  "instant C ts unit =
     and_then (unit_factor unit) (\<lambda>factor.
     and_then (ok_or (try_signed 128 (ts * factor)) (tp_invalid ''timestamp is out of range''))
       (\<lambda>nanos.
     and_then (ok_or (try_signed 64 (nanos div 1000000000))
                 (tp_invalid ''timestamp is out of range''))
       (\<lambda>seconds.
     ok_or (from_timestamp C seconds (nanos mod 1000000000))
       (tp_invalid ''timestamp is out of range''))))"

definition partition_start ::
  "('d, 't) chrono \<Rightarrow> native_partition \<Rightarrow> 't native_result" where
  "partition_start C p =
     ok_or (from_timestamp C (start_seconds p) (start_nanosecond p))
       (tp_invalid ''partition start is invalid'')"

definition partition_until ::
  "('d, 't) chrono \<Rightarrow> native_partition \<Rightarrow> 't native_result" where
  "partition_until C p =
     ok_or (from_timestamp C (until_seconds p) (until_nanosecond p))
       (tp_invalid ''partition end is invalid'')"

section \<open>Building the partition of an instant\<close>

definition build_start_date ::
  "('d, 't) chrono \<Rightarrow> 't \<Rightarrow> granularity \<Rightarrow> 'd native_result" where
  "build_start_date C t g =
     (let date = date_naive C t in
      case g of
        Week \<Rightarrow>
          ok_or (checked_sub_days C date (num_days_from_monday C date))
            (tp_invalid ''partition date is out of range'')
      | Month \<Rightarrow>
          ok_or (from_ymd C (year C date) (month C date) 1)
            (tp_invalid ''partition date is out of range'')
      | _ \<Rightarrow> Ok date)"

definition build_hour_minute :: "('d, 't) chrono \<Rightarrow> 't \<Rightarrow> granularity \<Rightarrow> int \<times> int" where
  "build_hour_minute C t g =
     (case g of
        Minute \<Rightarrow> (hour C t, minute C t)
      | Hour \<Rightarrow> (hour C t, 0)
      | _ \<Rightarrow> (0, 0))"

definition build_until :: "('d, 't) chrono \<Rightarrow> 't \<Rightarrow> granularity \<Rightarrow> 't option" where
  "build_until C start g =
     (case g of
        Minute \<Rightarrow> add_seconds C start 60
      | Hour \<Rightarrow> add_seconds C start 3600
      | Day \<Rightarrow> add_seconds C start 86400
      | Week \<Rightarrow> add_seconds C start 604800
      | Month \<Rightarrow> add_months C start 1)"

definition segment :: "string \<Rightarrow> int \<Rightarrow> string" where
  "segment name value = name @ ''='' @ int_to_string value"

text \<open>The \<^verbatim>\<open>format!\<close> strings: each segment is a name, an equals sign and an integer.\<close>

definition path_segments :: "('d, 't) chrono \<Rightarrow> 't \<Rightarrow> granularity \<Rightarrow> string list" where
  "path_segments C start g =
     (let date = date_naive C start in
      case g of
        Minute \<Rightarrow>
          [segment ''year'' (year C date), segment ''month'' (month C date),
           segment ''day'' (day C date), segment ''hour'' (hour C start),
           segment ''minute'' (minute C start)]
      | Hour \<Rightarrow>
          [segment ''year'' (year C date), segment ''month'' (month C date),
           segment ''day'' (day C date), segment ''hour'' (hour C start)]
      | Day \<Rightarrow>
          [segment ''year'' (year C date), segment ''month'' (month C date),
           segment ''day'' (day C date)]
      | Week \<Rightarrow>
          [segment ''iso_year'' (iso_year C date), segment ''week'' (iso_week C date)]
      | Month \<Rightarrow> [segment ''year'' (year C date), segment ''month'' (month C date)])"

definition build_path :: "('d, 't) chrono \<Rightarrow> 't \<Rightarrow> granularity \<Rightarrow> string" where
  "build_path C start g = join_with (CHR ''/'') (path_segments C start g)"

definition build_partition ::
  "('d, 't) chrono \<Rightarrow> 't \<Rightarrow> granularity \<Rightarrow> native_partition native_result" where
  "build_partition C t g =
     and_then (build_start_date C t g) (\<lambda>start_date.
     and_then
       (case build_hour_minute C t g of (h, m) \<Rightarrow>
          ok_or (and_hms C start_date h m 0) (tp_invalid ''partition start is out of range''))
       (\<lambda>start.
     and_then (ok_or (build_until C start g) (tp_invalid ''partition end is out of range''))
       (\<lambda>until.
     Ok \<lparr>partition_path = build_path C start g,
         start_seconds = timestamp C start,
         start_nanosecond = subsec_nanos C start,
         until_seconds = timestamp C until,
         until_nanosecond = subsec_nanos C until\<rparr>)))"

definition partition_for ::
  "('d, 't) chrono \<Rightarrow> int \<Rightarrow> atom \<Rightarrow> atom \<Rightarrow> native_partition native_result" where
  "partition_for C ts unit gran =
     and_then (instant C ts unit) (\<lambda>t.
     and_then (parse_granularity gran) (\<lambda>g. build_partition C t g))"

section \<open>Parsing a path\<close>

definition expected_names :: "granularity \<Rightarrow> string list" where
  "expected_names g =
     (case g of
        Minute \<Rightarrow> [''year'', ''month'', ''day'', ''hour'', ''minute'']
      | Hour \<Rightarrow> [''year'', ''month'', ''day'', ''hour'']
      | Day \<Rightarrow> [''year'', ''month'', ''day'']
      | Week \<Rightarrow> [''iso_year'', ''week'']
      | Month \<Rightarrow> [''year'', ''month''])"

text \<open>The loop over the segments zipped with the expected names.\<close>

fun parse_values :: "(string \<times> string) list \<Rightarrow> int list native_result" where
  "parse_values [] = Ok []"
| "parse_values ((part, expected_name) # rest) =
     (case split_once (CHR ''='') part of
        None \<Rightarrow> Err (tp_invalid ''partition path segment is invalid'')
      | Some (name, value) \<Rightarrow>
          (case canonical_integer value of
             None \<Rightarrow> Err (tp_invalid ''partition path is not canonical'')
           | Some v \<Rightarrow>
               if name \<noteq> expected_name
               then Err (tp_invalid ''partition path is not canonical'')
               else and_then (parse_values rest) (\<lambda>vs. Ok (v # vs))))"

definition parse_date ::
  "('d, 't) chrono \<Rightarrow> granularity \<Rightarrow> int list \<Rightarrow> 'd native_result" where
  "parse_date C g values =
     and_then
       (case g of
          Week \<Rightarrow>
            and_then (ok_or (try_signed 32 (values ! 0)) (tp_invalid ''ISO year is out of range''))
              (\<lambda>y.
            and_then (ok_or (try_unsigned 32 (values ! 1))
                        (tp_invalid ''ISO week is out of range''))
              (\<lambda>w. Ok (from_isoywd_monday C y w)))
        | _ \<Rightarrow>
            and_then (ok_or (try_signed 32 (values ! 0)) (tp_invalid ''year is out of range''))
              (\<lambda>y.
            and_then (ok_or (try_unsigned 32 (values ! 1)) (tp_invalid ''month is out of range''))
              (\<lambda>m.
            and_then
              (if 2 < length values
               then ok_or (try_unsigned 32 (values ! 2)) (tp_invalid ''day is out of range'')
               else Ok 1)
              (\<lambda>d. Ok (from_ymd C y m d)))))
       (\<lambda>date. ok_or date (tp_invalid ''partition date is invalid''))"

definition parse_hour_minute :: "granularity \<Rightarrow> int list \<Rightarrow> (int \<times> int) native_result" where
  "parse_hour_minute g values =
     (case g of
        Hour \<Rightarrow> and_then (u32_value (values ! 3) ''hour'') (\<lambda>h. Ok (h, 0))
      | Minute \<Rightarrow>
          and_then (u32_value (values ! 3) ''hour'') (\<lambda>h.
          and_then (u32_value (values ! 4) ''minute'') (\<lambda>m. Ok (h, m)))
      | _ \<Rightarrow> Ok (0, 0))"

definition parse ::
  "('d, 't) chrono \<Rightarrow> string \<Rightarrow> atom \<Rightarrow> native_partition native_result" where
  "parse C path gran =
     and_then (parse_granularity gran) (\<lambda>g.
     let parts = split_on (CHR ''/'') path; expected = expected_names g in
     if length parts \<noteq> length expected
     then Err (tp_invalid ''partition path has the wrong number of segments'')
     else
       and_then (parse_values (zip parts expected)) (\<lambda>values.
       and_then (parse_date C g values) (\<lambda>date.
       and_then (parse_hour_minute g values) (\<lambda>(h, m).
       and_then (ok_or (and_hms C date h m 0) (tp_invalid ''partition time is invalid''))
         (\<lambda>start.
       and_then (build_partition C start g) (\<lambda>p.
       if partition_path p = path then Ok p
       else Err (tp_invalid ''partition path is not canonical'')))))))"

section \<open>Planning a range\<close>

text \<open>
  The \<^verbatim>\<open>while\<close> loop pushes one partition per turn and refuses to push more than \<open>limit\<close>, so the
  number of pushes still allowed decreases: \<open>room\<close> is \<^verbatim>\<open>limit - output.len()\<close>.
\<close>

fun plan_loop ::
  "('d, 't) chrono \<Rightarrow> granularity \<Rightarrow> 't \<Rightarrow> nat \<Rightarrow> native_partition \<Rightarrow> native_partition list
   \<Rightarrow> native_partition list native_result" where
  "plan_loop C g until room current output =
     and_then (partition_start C current) (\<lambda>start.
     if \<not> before C start until then Ok output
     else
       (case room of
          0 \<Rightarrow> Err (tp_invalid ''partition range exceeds the planning limit'')
        | Suc room' \<Rightarrow>
            and_then (partition_until C current) (\<lambda>next_start.
            and_then (build_partition C next_start g) (\<lambda>next_partition.
            plan_loop C g until room' next_partition (output @ [current])))))"

declare plan_loop.simps [simp del]

definition plan ::
  "('d, 't) chrono \<Rightarrow> int \<Rightarrow> int \<Rightarrow> atom \<Rightarrow> atom \<Rightarrow> nat \<Rightarrow> native_partition list native_result"
where
  "plan C from_ts until_ts unit gran limit =
     (if limit = 0 then Err (tp_invalid ''partition planning limit must be positive'')
      else
        and_then (instant C from_ts unit) (\<lambda>from_t.
        and_then (instant C until_ts unit) (\<lambda>until_t.
        if before C until_t from_t
        then Err (tp_invalid ''partition range must satisfy from <= until'')
        else if from_t = until_t then Ok []
        else
          and_then (parse_granularity gran) (\<lambda>g.
          and_then (build_partition C from_t g) (\<lambda>current.
          plan_loop C g until_t limit current [])))))"

end
