(* ===== verification/Chrono_Laws.thy ===== *)
theory Chrono_Laws
  imports Time_Partition
begin

text \<open>
  The interface of the calendar: what \<^verbatim>\<open>time_partition.rs\<close> relies on in the crate \<^verbatim>\<open>chrono\<close>, each
  law a sentence of the crate's documentation. \<open>epoch_day\<close> counts the days of a date since
  1970-01-01, \<open>valid_date\<close> and \<open>valid_instant\<close> are the values the crate can represent (leap
  seconds aside). The lemmas of the locale are about the program's own functions; the theory
  \<open>Gregorian\<close> provides the calendar that satisfies the laws.
\<close>

definition nanos_of :: "('d, 't) chrono \<Rightarrow> 't \<Rightarrow> int" where
  "nanos_of C t = timestamp C t * 1000000000 + subsec_nanos C t"

definition start_nanos :: "native_partition \<Rightarrow> int" where
  "start_nanos p = start_seconds p * 1000000000 + start_nanosecond p"

definition until_nanos :: "native_partition \<Rightarrow> int" where
  "until_nanos p = until_seconds p * 1000000000 + until_nanosecond p"

lemma nanos_split:
  assumes "0 \<le> n" and "n < 1000000000"
  shows "(s * 1000000000 + n) div 1000000000 = (s :: int)"
    and "(s * 1000000000 + n) mod 1000000000 = n"
  using assms by simp_all

locale chrono_laws =
  fixes C :: "('d, 't) chrono"
    and epoch_day :: "'d \<Rightarrow> int"
    and valid_date :: "'d \<Rightarrow> bool"
    and valid_instant :: "'t \<Rightarrow> bool"
  assumes from_timestamp_Some:
    "0 \<le> n \<Longrightarrow> n < 1000000000 \<Longrightarrow> from_timestamp C s n = Some t \<Longrightarrow>
       valid_instant t \<and> timestamp C t = s \<and> subsec_nanos C t = n"
  and from_timestamp_valid:
    "valid_instant t \<Longrightarrow> from_timestamp C (timestamp C t) (subsec_nanos C t) = Some t"
  and instant_range:
    "valid_instant t \<Longrightarrow>
       fits_signed 64 (timestamp C t) \<and> 0 \<le> subsec_nanos C t \<and> subsec_nanos C t < 1000000000"
  and before_law:
    "valid_instant t \<Longrightarrow> valid_instant u \<Longrightarrow> before C t u \<longleftrightarrow> nanos_of C t < nanos_of C u"
  and date_of_instant: "valid_instant t \<Longrightarrow> valid_date (date_naive C t)"
  and clock:
    "valid_instant t \<Longrightarrow>
       (\<exists>s. 0 \<le> s \<and> s < 60 \<and>
          timestamp C t = epoch_day (date_naive C t) * 86400 + hour C t * 3600 + minute C t * 60 + s)
       \<and> 0 \<le> hour C t \<and> hour C t < 24 \<and> 0 \<le> minute C t \<and> minute C t < 60"
  and and_hms_total:
    "valid_date d \<Longrightarrow> 0 \<le> h \<Longrightarrow> h < 24 \<Longrightarrow> 0 \<le> m \<Longrightarrow> m < 60 \<Longrightarrow> \<exists>t. and_hms C d h m 0 = Some t"
  and and_hms_Some:
    "valid_date d \<Longrightarrow> and_hms C d h m 0 = Some t \<Longrightarrow>
       valid_instant t \<and> date_naive C t = d \<and> hour C t = h \<and> minute C t = m \<and>
       timestamp C t = epoch_day d * 86400 + h * 3600 + m * 60 \<and> subsec_nanos C t = 0"
  and epoch_day_less:
    "valid_date d \<Longrightarrow> valid_date e \<Longrightarrow>
       epoch_day d < epoch_day e \<longleftrightarrow>
         year C d < year C e \<or>
         (year C d = year C e \<and>
           (month C d < month C e \<or> (month C d = month C e \<and> day C d < day C e)))"
  and date_range:
    "valid_date d \<Longrightarrow>
       fits_signed 32 (year C d) \<and> 1 \<le> month C d \<and> month C d \<le> 12 \<and>
       1 \<le> day C d \<and> day C d \<le> 31"
  and from_ymd_valid: "valid_date d \<Longrightarrow> from_ymd C (year C d) (month C d) (day C d) = Some d"
  and from_ymd_Some:
    "from_ymd C y m n = Some d \<Longrightarrow> valid_date d \<and> year C d = y \<and> month C d = m \<and> day C d = n"
  and weekday_law: "valid_date d \<Longrightarrow> num_days_from_monday C d = (epoch_day d + 3) mod 7"
  and sub_days_Some:
    "valid_date d \<Longrightarrow> 0 \<le> n \<Longrightarrow> checked_sub_days C d n = Some e \<Longrightarrow>
       valid_date e \<and> epoch_day e = epoch_day d - n"
  and sub_days_total:
    "valid_date d \<Longrightarrow> valid_date e \<Longrightarrow> 0 \<le> n \<Longrightarrow> epoch_day e = epoch_day d - n \<Longrightarrow>
       checked_sub_days C d n = Some e"
  and iso_range:
    "valid_date d \<Longrightarrow> fits_signed 32 (iso_year C d) \<and> 1 \<le> iso_week C d \<and> iso_week C d \<le> 53"
  and iso_monday:
    "valid_date d \<Longrightarrow> num_days_from_monday C d = 0 \<Longrightarrow>
       from_isoywd_monday C (iso_year C d) (iso_week C d) = Some d"
  and from_isoywd_Some:
    "from_isoywd_monday C y w = Some d \<Longrightarrow>
       valid_date d \<and> num_days_from_monday C d = 0"
  and add_seconds_Some:
    "valid_instant t \<Longrightarrow> add_seconds C t n = Some u \<Longrightarrow>
       valid_instant u \<and> timestamp C u = timestamp C t + n \<and> subsec_nanos C u = subsec_nanos C t"
  and add_months_Some:
    "valid_instant t \<Longrightarrow> day C (date_naive C t) = 1 \<Longrightarrow> add_months C t 1 = Some u \<Longrightarrow>
       valid_instant u \<and> subsec_nanos C u = subsec_nanos C t \<and>
       timestamp C u - epoch_day (date_naive C u) * 86400
         = timestamp C t - epoch_day (date_naive C t) * 86400 \<and>
       day C (date_naive C u) = 1 \<and>
       (if month C (date_naive C t) = 12
        then year C (date_naive C u) = year C (date_naive C t) + 1 \<and> month C (date_naive C u) = 1
        else year C (date_naive C u) = year C (date_naive C t) \<and>
             month C (date_naive C u) = month C (date_naive C t) + 1)"
begin

lemma date_eqI:
  assumes "valid_date d" and "valid_date e" and "epoch_day d = epoch_day e"
  shows "d = e"
proof -
  have "year C d = year C e \<and> month C d = month C e \<and> day C d = day C e"
    using epoch_day_less [OF assms(1,2)] epoch_day_less [OF assms(2,1)] assms(3) by auto
  then have "from_ymd C (year C d) (month C d) (day C d) = from_ymd C (year C e) (month C e) (day C e)"
    by simp
  then show ?thesis
    by (simp only: from_ymd_valid [OF assms(1)] from_ymd_valid [OF assms(2)] option.inject)
qed

lemma instant_eqI:
  assumes "valid_instant t" and "valid_instant u" and "nanos_of C t = nanos_of C u"
  shows "t = u"
proof -
  note split = nanos_split [of "subsec_nanos C _"]
  have "timestamp C t = timestamp C u \<and> subsec_nanos C t = subsec_nanos C u"
    using split [of t "timestamp C t"] split [of u "timestamp C u"]
      instant_range [OF assms(1)] instant_range [OF assms(2)] assms(3)
    by (simp only: nanos_of_def)
  then have "from_timestamp C (timestamp C t) (subsec_nanos C t)
      = from_timestamp C (timestamp C u) (subsec_nanos C u)"
    by simp
  then show ?thesis
    by (simp only: from_timestamp_valid [OF assms(1)] from_timestamp_valid [OF assms(2)]
        option.inject)
qed

text \<open>The instant read back from its seconds and nanoseconds.\<close>

lemma instant_Ok:
  assumes "instant C ts unit = Ok t" and "unit_factor unit = Ok f"
  shows "valid_instant t \<and> nanos_of C t = ts * f"
proof -
  have t: "from_timestamp C (ts * f div 1000000000) (ts * f mod 1000000000) = Some t"
    using assms by (auto simp: instant_def result_simps width_simps)
  have "valid_instant t \<and> timestamp C t = ts * f div 1000000000
      \<and> subsec_nanos C t = ts * f mod 1000000000"
    by (rule from_timestamp_Some [OF _ _ t]) simp_all
  then show ?thesis by (simp add: nanos_of_def)
qed

section \<open>Where a partition starts\<close>

text \<open>
  The start the code computes, as one fact: midnight of the start date, the full hour or the
  full minute of the instant.
\<close>

definition start_at :: "'t \<Rightarrow> granularity \<Rightarrow> 't \<Rightarrow> bool" where
  "start_at t g start \<longleftrightarrow>
     (\<exists>d. build_start_date C t g = Ok d \<and>
        and_hms C d (fst (build_hour_minute C t g)) (snd (build_hour_minute C t g)) 0 = Some start)"

lemma build_partition_Ok:
  "build_partition C t g = Ok p \<longleftrightarrow>
     (\<exists>start until. start_at t g start \<and> build_until C start g = Some until \<and>
        p = \<lparr>partition_path = build_path C start g,
             start_seconds = timestamp C start, start_nanosecond = subsec_nanos C start,
             until_seconds = timestamp C until, until_nanosecond = subsec_nanos C until\<rparr>)"
proof (cases "build_hour_minute C t g")
  case (Pair h m)
  have eq: "Ok (p' :: native_partition) = Ok p \<longleftrightarrow> p = p'" for p' by auto
  show ?thesis
    unfolding build_partition_def start_at_def and_then_Ok_iff ok_or_Ok_iff Pair prod.case
      fst_conv snd_conv eq
    by blast
qed

lemma build_start_date_valid:
  assumes "valid_instant t" and "build_start_date C t g = Ok d"
  shows "valid_date d"
  using assms date_of_instant [OF assms(1)] weekday_law [OF date_of_instant [OF assms(1)]]
  by (auto simp: build_start_date_def Let_def result_simps dest: from_ymd_Some
      dest!: sub_days_Some [rotated 2] split: granularity.splits)

lemma start_at_valid:
  assumes "valid_instant t" and "start_at t g start"
  shows "valid_instant start" "subsec_nanos C start = 0"
  using assms build_start_date_valid [OF assms(1)] and_hms_Some
  unfolding start_at_def by blast+

lemma start_at_fields:
  assumes "valid_instant t" and "start_at t g start"
  shows "build_start_date C t g = Ok (date_naive C start)"
    and "(hour C start, minute C start) = build_hour_minute C t g"
    and "timestamp C start =
      epoch_day (date_naive C start) * 86400 + hour C start * 3600 + minute C start * 60"
  using assms build_start_date_valid [OF assms(1)] and_hms_Some
  unfolding start_at_def by (fastforce simp: prod_eq_iff)+

text \<open>Starting from the start of a partition gives the same start.\<close>

lemma start_at_idem:
  assumes t: "valid_instant t" and s: "start_at t g start"
  shows "start_at start g start"
proof -
  note date = start_at_fields(1) [OF t s] and hm = start_at_fields(2) [OF t s]
  note vd = build_start_date_valid [OF t date] and vs = start_at_valid(1) [OF t s]
  have date': "build_start_date C start g = Ok (date_naive C start)"
  proof (cases g)
    case Week
    let ?d = "date_naive C t"
    have dt: "valid_date ?d" using t by (rule date_of_instant)
    have wd: "num_days_from_monday C ?d = (epoch_day ?d + 3) mod 7"
      using dt by (rule weekday_law)
    have "checked_sub_days C ?d ((epoch_day ?d + 3) mod 7) = Some (date_naive C start)"
      using date Week wd by (simp add: build_start_date_def Let_def result_simps)
    then have "epoch_day (date_naive C start) = epoch_day ?d - (epoch_day ?d + 3) mod 7"
      using sub_days_Some [OF dt] by simp
    then have "(epoch_day (date_naive C start) + 3) mod 7 = 0" by presburger
    then show ?thesis
      using Week weekday_law [OF vd] sub_days_total [OF vd vd, of 0] by (simp add: build_start_date_def)
  next
    case Month
    then have "from_ymd C (year C (date_naive C t)) (month C (date_naive C t)) 1
        = Some (date_naive C start)"
      using date by (simp add: build_start_date_def Let_def result_simps)
    then show ?thesis
      using Month from_ymd_Some by (fastforce simp: build_start_date_def)
  qed (simp_all add: build_start_date_def)
  have hm': "build_hour_minute C start g = (hour C start, minute C start)"
    using hm by (cases g) (simp_all add: build_hour_minute_def)
  from s date have "and_hms C (date_naive C start) (hour C start) (minute C start) 0 = Some start"
    using hm [symmetric] by (auto simp: start_at_def)
  with date' hm' show ?thesis by (simp add: start_at_def)
qed

lemma start_at_unique: "start_at t g s \<Longrightarrow> start_at t g s' \<Longrightarrow> s = s'"
  by (auto simp: start_at_def)

end

end
