(* ===== verification/Partition_Proofs.thy ===== *)
theory Partition_Proofs
  imports Chrono_Laws
begin

text \<open>
  The correctness of the partition functions over any calendar that satisfies the laws: a
  partition contains its instant, every instant of a partition has that partition, paths
  parse back, and a plan is the gapless chain of the partitions that meet a range.
\<close>

section \<open>Segments\<close>

lemma canonical_integer_to_string:
  "fits_signed 64 v \<Longrightarrow> canonical_integer (int_to_string v) = Some v"
  by (simp add: canonical_integer_def parse_int_to_string)

lemma parse_values_segment:
  assumes "CHR ''='' \<notin> set name" and "fits_signed 64 v"
  shows "parse_values ((segment name v, name) # rest) =
    and_then (parse_values rest) (\<lambda>vs. Ok (v # vs))"
  using assms by (simp add: segment_def split_once_append canonical_integer_to_string)

lemma segment_no_slash: "CHR ''/'' \<notin> set name \<Longrightarrow> CHR ''/'' \<notin> set (segment name v)"
  by (simp add: segment_def int_to_string_no_separator)

lemma path_segments_no_slash:
  "s \<in> set (path_segments C start g) \<Longrightarrow> CHR ''/'' \<notin> set s"
  by (cases g) (auto simp: path_segments_def Let_def segment_def int_to_string_no_separator)

lemma path_segments_length: "length (path_segments C start g) = length (expected_names g)"
  by (cases g) (simp_all add: path_segments_def expected_names_def Let_def)

lemma split_build_path: "split_on (CHR ''/'') (build_path C start g) = path_segments C start g"
proof -
  have "path_segments C start g \<noteq> []"
    by (cases g) (simp_all add: path_segments_def Let_def)
  then show ?thesis
    unfolding build_path_def using split_on_join path_segments_no_slash by metis
qed

definition granularity_name :: "granularity \<Rightarrow> atom" where
  "granularity_name g =
     (case g of Minute \<Rightarrow> ''minute'' | Hour \<Rightarrow> ''hour'' | Day \<Rightarrow> ''day'' | Week \<Rightarrow> ''week''
      | Month \<Rightarrow> ''month'')"

lemma granularity_name_inj: "granularity_name g = granularity_name h \<longleftrightarrow> g = h"
  by (cases g; cases h) (simp_all add: granularity_name_def)

lemma parse_granularity_Ok: "parse_granularity a = Ok g \<longleftrightarrow> a = granularity_name g"
  by (cases g) (auto simp: parse_granularity_def granularity_name_def split: if_splits)

section \<open>Clock arithmetic\<close>

lemma euclid_unique:
  fixes q r q' r' n :: int
  assumes "q * n + r = q' * n + r'" and "0 \<le> r" "r < n" "0 \<le> r'" "r' < n"
  shows "q = q' \<and> r = r'"
proof -
  have "(q * n + r) div n = q" "(q' * n + r') div n = q'"
    using assms(2-5) by simp_all
  then have "q = q'" by (simp only: assms(1))
  with assms(1) show ?thesis by simp
qed

lemma same_slot:
  fixes x y r n :: int
  assumes "0 \<le> r" "r < n" and "x * n \<le> y * n + r" and "y * n + r < x * n + n"
  shows "x = y"
proof -
  have "x * n + (y * n + r - x * n) = y * n + r" by simp
  moreover have "0 \<le> y * n + r - x * n" "y * n + r - x * n < n" using assms(3,4) by linarith+
  ultimately show ?thesis using euclid_unique assms(1,2) by blast
qed

lemma hour_unique:
  fixes a h a' h' r' :: int
  assumes "0 \<le> h" "h < 24" "0 \<le> h'" "h' < 24" "0 \<le> r'" "r' < 3600"
    and "a * 86400 + h * 3600 \<le> a' * 86400 + h' * 3600 + r'"
    and "a' * 86400 + h' * 3600 + r' < a * 86400 + h * 3600 + 3600"
  shows "a = a' \<and> h = h'"
proof -
  have "a * 24 + h = a' * 24 + h'"
    by (rule same_slot [of r' 3600]) (use assms in \<open>simp_all add: algebra_simps\<close>)
  then show ?thesis using euclid_unique assms(1-4) by blast
qed

lemma minute_unique:
  fixes a h m a' h' m' r' :: int
  assumes "0 \<le> h" "h < 24" "0 \<le> m" "m < 60" "0 \<le> h'" "h' < 24" "0 \<le> m'" "m' < 60"
    and "0 \<le> r'" "r' < 60"
    and lo: "a * 86400 + h * 3600 + m * 60 \<le> a' * 86400 + h' * 3600 + m' * 60 + r'"
    and hi: "a' * 86400 + h' * 3600 + m' * 60 + r' < a * 86400 + h * 3600 + m * 60 + 60"
  shows "a = a' \<and> h = h' \<and> m = m'"
proof -
  have "(a * 24 + h) * 60 + m = (a' * 24 + h') * 60 + m'"
    using same_slot [of r' 60 "(a * 24 + h) * 60 + m"
        "(a' * 24 + h') * 60 + m'"] assms(9-) by (simp add: algebra_simps)
  then have *: "a * 24 + h = a' * 24 + h' \<and> m = m'"
    using euclid_unique assms(3,4,7,8) by blast
  then have "a = a' \<and> h = h'" using euclid_unique assms(1,2,5,6) by blast
  with * show ?thesis by simp
qed

section \<open>Gapless chains\<close>

text \<open>
  \<open>tiles lo hi ps\<close>: the partitions follow each other without gap or overlap from \<open>lo\<close> on, each
  starts before \<open>hi\<close>, and the last one reaches \<open>hi\<close>.
\<close>

fun tiles :: "int \<Rightarrow> int \<Rightarrow> native_partition list \<Rightarrow> bool" where
  "tiles lo hi [] \<longleftrightarrow> hi \<le> lo"
| "tiles lo hi (p # ps) \<longleftrightarrow>
     start_nanos p = lo \<and> lo < hi \<and> lo < until_nanos p \<and> tiles (until_nanos p) hi ps"

lemma tiles_cover:
  "tiles lo hi ps \<Longrightarrow> lo \<le> x \<Longrightarrow> x < hi \<Longrightarrow> \<exists>p \<in> set ps. start_nanos p \<le> x \<and> x < until_nanos p"
proof (induction lo hi ps rule: tiles.induct)
  case (2 lo hi p ps)
  then show ?case by (cases "x < until_nanos p") auto
qed simp

lemma tiles_bounds:
  "tiles lo hi ps \<Longrightarrow> p \<in> set ps \<Longrightarrow>
     lo \<le> start_nanos p \<and> start_nanos p < hi \<and> start_nanos p < until_nanos p"
proof (induction lo hi ps rule: tiles.induct)
  case (2 lo hi q ps)
  then show ?case by (cases "p = q") fastforce+
qed simp

lemma tiles_separated:
  "tiles lo hi ps \<Longrightarrow> i < j \<Longrightarrow> j < length ps \<Longrightarrow> until_nanos (ps ! i) \<le> start_nanos (ps ! j)"
proof (induction lo hi ps arbitrary: i j rule: tiles.induct)
  case (2 lo hi p ps)
  then obtain j' where j: "j = Suc j'" by (cases j) auto
  show ?case
  proof (cases i)
    case 0
    with 2 j show ?thesis using tiles_bounds nth_mem by force
  next
    case (Suc i')
    with 2 j show ?thesis by simp
  qed
qed simp

section \<open>The planning loop\<close>

lemma plan_loop_stop:
  "partition_start C current = Ok start \<Longrightarrow> \<not> before C start until \<Longrightarrow>
     plan_loop C g until room current out = Ok out"
  by (simp add: plan_loop.simps [of _ _ _ room])

lemma plan_loop_push:
  "partition_start C current = Ok start \<Longrightarrow> before C start until \<Longrightarrow>
     partition_until C current = Ok v \<Longrightarrow> build_partition C v g = Ok q \<Longrightarrow>
     plan_loop C g until (Suc room) current out = plan_loop C g until room q (out @ [current])"
  by (simp add: plan_loop.simps [of _ _ _ "Suc room"])

lemma plan_loop_extends:
  "plan_loop C g until room current out = Ok res \<Longrightarrow> \<exists>ps. res = out @ ps"
proof (induction room arbitrary: current out)
  case 0
  then show ?case by (auto simp: plan_loop.simps [of _ _ _ 0] result_simps split: if_splits)
next
  case (Suc room)
  then show ?case
    by (fastforce simp: plan_loop.simps [of _ _ _ "Suc room"] result_simps split: if_splits)
qed

text \<open>The limit only decides between the plan and the limit error.\<close>

lemma plan_loop_limit:
  assumes "plan_loop C g until room current out = Ok (out @ ps)"
  shows "plan_loop C g until room' current out =
    (if length ps \<le> room' then Ok (out @ ps)
     else Err (tp_invalid ''partition range exceeds the planning limit''))"
  using assms
proof (induction room arbitrary: room' current out ps)
  case 0
  then show ?case
    by (auto simp: plan_loop.simps [of _ _ _ 0] plan_loop.simps [of _ _ _ room'] result_simps
        split: if_splits)
next
  case (Suc room)
  obtain start where s: "partition_start C current = Ok start"
    using Suc.prems by (auto simp: plan_loop.simps [of _ _ _ "Suc room"] result_simps)
  show ?case
  proof (cases "before C start until")
    case False
    then show ?thesis
      using Suc.prems s
      by (simp add: plan_loop.simps [of _ _ _ "Suc room"] plan_loop.simps [of _ _ _ room'])
  next
    case True
    with Suc.prems s obtain v q where v: "partition_until C current = Ok v"
      and q: "build_partition C v g = Ok q"
      and rec: "plan_loop C g until room q (out @ [current]) = Ok (out @ ps)"
      by (auto simp: plan_loop.simps [of _ _ _ "Suc room"] result_simps)
    from plan_loop_extends [OF rec] obtain rest where ps: "ps = current # rest" by auto
    show ?thesis
    proof (cases room')
      case 0
      with True s ps show ?thesis by (simp add: plan_loop.simps [of _ _ _ 0])
    next
      case (Suc room'')
      with True s v q ps Suc.IH [of q "out @ [current]" rest room''] rec show ?thesis
        by (simp add: plan_loop.simps [of _ _ _ "Suc room''"])
    qed
  qed
qed

lemma plan_loop_head:
  assumes "plan_loop C g until room current [] = Ok (p # ps)"
  shows "p = current"
proof (cases room)
  case 0
  then show ?thesis
    using assms by (auto simp: plan_loop.simps [of _ _ _ 0] result_simps split: if_splits)
next
  case (Suc room')
  then show ?thesis
    using assms plan_loop_extends
    by (fastforce simp: plan_loop.simps [of _ _ _ "Suc room'"] result_simps split: if_splits)
qed

context chrono_laws
begin

lemma start_at_hms:
  assumes "valid_instant t" and "start_at t g start"
  shows "and_hms C (date_naive C start) (hour C start) (minute C start) 0 = Some start"
  using assms(2) start_at_fields(1) [OF assms] start_at_fields(2) [OF assms, symmetric]
  by (simp add: start_at_def)

section \<open>A partition contains its instant\<close>

lemma month_span:
  assumes t: "valid_instant t" and s: "start_at t Month start"
    and u: "add_months C start 1 = Some until"
  shows "timestamp C start = epoch_day (date_naive C start) * 86400"
    and "timestamp C until = epoch_day (date_naive C until) * 86400"
    and "valid_instant until" "subsec_nanos C until = 0"
    and "valid_date e \<Longrightarrow>
      epoch_day (date_naive C start) \<le> epoch_day e \<and> epoch_day e < epoch_day (date_naive C until)
      \<longleftrightarrow> year C e = year C (date_naive C t) \<and> month C e = month C (date_naive C t)"
proof -
  let ?a = "date_naive C start" and ?b = "date_naive C until"
  note vs = start_at_valid [OF t s]
  note fields = start_at_fields [OF t s]
  have ymd: "from_ymd C (year C (date_naive C t)) (month C (date_naive C t)) 1 = Some ?a"
    using fields(1) by (simp add: build_start_date_def Let_def result_simps)
  note a = from_ymd_Some [OF ymd]
  have da: "day C ?a = 1" using a by simp
  note add = add_months_Some [OF vs(1) da u]
  show ts: "timestamp C start = epoch_day ?a * 86400"
    using fields(2,3) by (simp add: build_hour_minute_def)
  then show "timestamp C until = epoch_day ?b * 86400" using add by simp
  show "valid_instant until" "subsec_nanos C until = 0" using add vs(2) by auto
  then have vb: "valid_date ?b" by (intro date_of_instant)
  show "epoch_day ?a \<le> epoch_day e \<and> epoch_day e < epoch_day ?b
      \<longleftrightarrow> year C e = year C (date_naive C t) \<and> month C e = month C (date_naive C t)"
    if e: "valid_date e"
    using epoch_day_less [OF e] a vb add date_range [OF e] date_range [OF vb]
    by (smt (verit, ccfv_threshold))
qed

lemma partition_bounds:
  assumes t: "valid_instant t" and s: "start_at t g start"
    and u: "build_until C start g = Some until"
  shows "valid_instant until \<and> subsec_nanos C until = 0 \<and>
    nanos_of C start \<le> nanos_of C t \<and> nanos_of C t < nanos_of C until"
proof -
  note vs = start_at_valid [OF t s]
  note fields = start_at_fields [OF t s]
  obtain r where r: "0 \<le> r" "r < 60"
    and ts: "timestamp C t =
      epoch_day (date_naive C t) * 86400 + hour C t * 3600 + minute C t * 60 + r"
    and hm: "0 \<le> hour C t" "hour C t < 24" "0 \<le> minute C t" "minute C t < 60"
    using clock [OF t] by blast
  note sub = instant_range [OF t]
  have vd: "valid_date (date_naive C t)" using t by (rule date_of_instant)
  have main: "valid_instant until \<and> subsec_nanos C until = 0 \<and>
      timestamp C start \<le> timestamp C t \<and> timestamp C t < timestamp C until"
  proof (cases g)
    case Month
    note span = month_span [OF t s [unfolded Month]] 
    have u': "add_months C start 1 = Some until" using u Month by (simp add: build_until_def)
    show ?thesis
      using span(1-4) [OF u'] span(5) [OF u' vd] ts r hm by auto
  next
    case Week
    have "add_seconds C start 604800 = Some until" using u Week by (simp add: build_until_def)
    note add = add_seconds_Some [OF vs(1) this]
    have "checked_sub_days C (date_naive C t) ((epoch_day (date_naive C t) + 3) mod 7)
        = Some (date_naive C start)"
      using fields(1) Week weekday_law [OF vd] by (simp add: build_start_date_def Let_def result_simps)
    then have "epoch_day (date_naive C start)
        = epoch_day (date_naive C t) - (epoch_day (date_naive C t) + 3) mod 7"
      using sub_days_Some [OF vd] by simp
    then have "epoch_day (date_naive C start) \<le> epoch_day (date_naive C t)"
      "epoch_day (date_naive C t) < epoch_day (date_naive C start) + 7"
      by simp_all
    then show ?thesis
      using add vs(2) fields(2,3) Week ts r hm by (simp add: build_hour_minute_def)
  next
    case Minute
    then have "add_seconds C start 60 = Some until" using u by (simp add: build_until_def)
    from add_seconds_Some [OF vs(1) this] show ?thesis
      using vs(2) fields ts r hm Minute
      by (simp add: build_hour_minute_def build_start_date_def)
  next
    case Hour
    then have "add_seconds C start 3600 = Some until" using u by (simp add: build_until_def)
    from add_seconds_Some [OF vs(1) this] show ?thesis
      using vs(2) fields ts r hm Hour
      by (simp add: build_hour_minute_def build_start_date_def)
  next
    case Day
    then have "add_seconds C start 86400 = Some until" using u by (simp add: build_until_def)
    from add_seconds_Some [OF vs(1) this] show ?thesis
      using vs(2) fields ts r hm Day
      by (simp add: build_hour_minute_def build_start_date_def)
  qed
  then show ?thesis using vs(2) sub by (simp add: nanos_of_def)
qed

section \<open>Every instant of a partition has that partition\<close>

lemma partition_class:
  assumes t: "valid_instant t" and s: "start_at t g start"
    and u: "build_until C start g = Some until"
    and t': "valid_instant t'" and lo: "nanos_of C start \<le> nanos_of C t'"
    and hi: "nanos_of C t' < nanos_of C until"
  shows "start_at t' g start"
proof -
  note vs = start_at_valid [OF t s]
  note fields = start_at_fields [OF t s]
  note bounds = partition_bounds [OF t s u]
  have vd: "valid_date (date_naive C t)" using t by (rule date_of_instant)
  have vd': "valid_date (date_naive C t')" using t' by (rule date_of_instant)
  have vds: "valid_date (date_naive C start)" using vs(1) by (rule date_of_instant)
  obtain r where r: "0 \<le> r" "r < 60"
    and ts: "timestamp C t' =
      epoch_day (date_naive C t') * 86400 + hour C t' * 3600 + minute C t' * 60 + r"
    and hm: "0 \<le> hour C t'" "hour C t' < 24" "0 \<le> minute C t'" "minute C t' < 60"
    using clock [OF t'] by blast
  have hms: "0 \<le> hour C start" "hour C start < 24" "0 \<le> minute C start" "minute C start < 60"
    using clock [OF vs(1)] by auto
  have lo': "timestamp C start \<le> timestamp C t'" and hi': "timestamp C t' < timestamp C until"
    using lo hi vs(2) bounds instant_range [OF t'] by (simp_all add: nanos_of_def)
  have same_date: "epoch_day (date_naive C start) = epoch_day (date_naive C t') \<Longrightarrow>
      date_naive C start = date_naive C t'"
    using date_eqI [OF vds vd'] .
  have sum: "n = 60 \<or> n = 3600 \<or> n = 86400 \<or> n = 604800 \<Longrightarrow> add_seconds C start n = Some until \<Longrightarrow>
      timestamp C until = timestamp C start + n" for n
    using add_seconds_Some [OF vs(1)] by blast
  have goal: "build_start_date C t' g = Ok (date_naive C start) \<and>
      build_hour_minute C t' g = (hour C start, minute C start)"
  proof (cases g)
    case Minute
    have "epoch_day (date_naive C start) = epoch_day (date_naive C t') \<and>
        hour C start = hour C t' \<and> minute C start = minute C t'"
      using minute_unique [OF hms hm r] lo' hi' fields(3) ts sum [of 60] u Minute
      by (simp add: build_until_def)
    then show ?thesis
      using same_date Minute by (simp add: build_start_date_def build_hour_minute_def)
  next
    case Hour
    then have "minute C start = 0" using fields(2) by (simp add: build_hour_minute_def)
    then have "epoch_day (date_naive C start) = epoch_day (date_naive C t') \<and>
        hour C start = hour C t'"
      using lo' hi' fields(3) ts sum [of 3600] u Hour hm(3,4) r
      by (intro hour_unique [OF hms(1,2) hm(1,2), of "minute C t' * 60 + r"])
        (simp_all add: build_until_def)
    then show ?thesis
      using same_date Hour fields(2) by (simp add: build_start_date_def build_hour_minute_def)
  next
    case Day
    then have "minute C start = 0" "hour C start = 0"
      using fields(2) by (simp_all add: build_hour_minute_def)
    then have "epoch_day (date_naive C start) = epoch_day (date_naive C t') \<and>
        hour C start = 0 \<and> minute C start = 0"
      using lo' hi' fields(3) ts sum [of 86400] u Day hm r by (simp add: build_until_def)
    then show ?thesis
      using same_date Day by (simp add: build_start_date_def build_hour_minute_def)
  next
    case Week
    have z: "minute C start = 0" "hour C start = 0"
      using fields(2) Week by (simp_all add: build_hour_minute_def)
    have "checked_sub_days C (date_naive C t) ((epoch_day (date_naive C t) + 3) mod 7)
        = Some (date_naive C start)"
      using fields(1) Week weekday_law [OF vd] by (simp add: build_start_date_def Let_def result_simps)
    then have "epoch_day (date_naive C start)
        = epoch_day (date_naive C t) - (epoch_day (date_naive C t) + 3) mod 7"
      using sub_days_Some [OF vd] by simp
    then have monday: "(epoch_day (date_naive C start) + 3) mod 7 = 0" by presburger
    have "epoch_day (date_naive C start) \<le> epoch_day (date_naive C t')"
      "epoch_day (date_naive C t') < epoch_day (date_naive C start) + 7"
      using lo' hi' fields(3) ts sum [of 604800] u Week hm r z by (simp_all add: build_until_def)
    with monday have "epoch_day (date_naive C t') - (epoch_day (date_naive C t') + 3) mod 7
        = epoch_day (date_naive C start)"
      by presburger
    then have "checked_sub_days C (date_naive C t') (num_days_from_monday C (date_naive C t'))
        = Some (date_naive C start)"
      using weekday_law [OF vd'] sub_days_total [OF vd' vds] by simp
    then show ?thesis
      using Week z by (simp add: build_start_date_def build_hour_minute_def)
  next
    case Month
    have u': "add_months C start 1 = Some until" using u Month by (simp add: build_until_def)
    note span = month_span [OF t s [unfolded Month] u']
    have "epoch_day (date_naive C start) \<le> epoch_day (date_naive C t') \<and>
        epoch_day (date_naive C t') < epoch_day (date_naive C until)"
      using lo' hi' span(1,2) ts hm r by simp
    then have "year C (date_naive C t') = year C (date_naive C t)"
      "month C (date_naive C t') = month C (date_naive C t)"
      using span(5) [OF vd'] by auto
    then show ?thesis
      using fields(1,2) Month by (simp add: build_start_date_def build_hour_minute_def Let_def)
  qed
  with goal start_at_hms [OF t s] show ?thesis by (simp add: start_at_def)
qed

section \<open>Paths parse back\<close>

definition segment_values :: "'t \<Rightarrow> granularity \<Rightarrow> int list" where
  "segment_values start g =
     (let d = date_naive C start in
      case g of
        Minute \<Rightarrow> [year C d, month C d, day C d, hour C start, minute C start]
      | Hour \<Rightarrow> [year C d, month C d, day C d, hour C start]
      | Day \<Rightarrow> [year C d, month C d, day C d]
      | Week \<Rightarrow> [iso_year C d, iso_week C d]
      | Month \<Rightarrow> [year C d, month C d])"

lemma field_widths:
  assumes "valid_instant t"
  defines "d \<equiv> date_naive C t"
  shows "fits_signed 64 (year C d)" "fits_signed 64 (month C d)" "fits_signed 64 (day C d)"
    and "fits_signed 64 (hour C t)" "fits_signed 64 (minute C t)"
    and "fits_signed 64 (iso_year C d)" "fits_signed 64 (iso_week C d)"
    and "fits_unsigned 32 (month C d)" "fits_unsigned 32 (day C d)"
    and "fits_unsigned 32 (hour C t)" "fits_unsigned 32 (minute C t)"
    and "fits_unsigned 32 (iso_week C d)"
proof -
  have d: "valid_date d" using assms date_of_instant by simp
  show "fits_signed 64 (year C d)" "fits_signed 64 (iso_year C d)"
    using date_range [OF d] iso_range [OF d] fits_signed_mono [of 32 _ 64] by auto
qed (use assms(1) date_range [of d] iso_range [of d] clock [of t] date_of_instant [of t] in
    \<open>auto simp: fits_signed_def fits_unsigned_def d_def\<close>)

lemma parse_values_segments:
  assumes "valid_instant start"
  shows "parse_values (zip (path_segments C start g) (expected_names g))
    = Ok (segment_values start g)"
  using field_widths [OF assms]
  by (cases g) (simp_all add: path_segments_def expected_names_def segment_values_def Let_def
      parse_values_segment del: parse_values.simps(2))

lemma parse_date_segments:
  assumes s: "valid_instant start" and aligned: "start_at start g start"
  shows "parse_date C g (segment_values start g) = Ok (date_naive C start)"
proof -
  let ?d = "date_naive C start"
  have d: "valid_date ?d" using s by (rule date_of_instant)
  note widths = field_widths [OF s] date_range [OF d] iso_range [OF d]
  note date = start_at_fields(1) [OF s aligned]
  have ymd: "from_ymd C (year C ?d) (month C ?d) (day C ?d) = Some ?d"
    using d by (rule from_ymd_valid)
  show ?thesis
  proof (cases g)
    case Week
    have "checked_sub_days C ?d ((epoch_day ?d + 3) mod 7) = Some ?d"
      using date Week weekday_law [OF d] by (simp add: build_start_date_def Let_def result_simps)
    from sub_days_Some [OF d _ this] have "(epoch_day ?d + 3) mod 7 = 0" by linarith
    then have "num_days_from_monday C ?d = 0" using weekday_law [OF d] by simp
    then show ?thesis
      using iso_monday [OF d] widths Week
      by (simp add: parse_date_def segment_values_def Let_def try_signed_def try_unsigned_def)
  next
    case Month
    have "from_ymd C (year C ?d) (month C ?d) 1 = Some ?d"
      using date Month by (simp add: build_start_date_def Let_def result_simps)
    then show ?thesis
      using widths Month
      by (simp add: parse_date_def segment_values_def Let_def try_signed_def try_unsigned_def)
  qed (use ymd widths in
      \<open>simp_all add: parse_date_def segment_values_def Let_def try_signed_def try_unsigned_def\<close>)
qed

lemma parse_hour_minute_segments:
  assumes s: "valid_instant start" and aligned: "start_at start g start"
  shows "parse_hour_minute g (segment_values start g) = Ok (hour C start, minute C start)"
  using field_widths [OF s] start_at_fields(2) [OF s aligned]
  by (cases g) (simp_all add: parse_hour_minute_def segment_values_def Let_def u32_value_def
      try_unsigned_def build_hour_minute_def)

lemma parse_aligned:
  assumes s: "valid_instant start" and aligned: "start_at start g start"
    and p: "build_partition C start g = Ok p"
  shows "parse C (partition_path p) (granularity_name g) = Ok p"
proof -
  have path: "partition_path p = build_path C start g"
    using p by (auto simp: build_partition_Ok dest!: start_at_unique [OF aligned])
  have gran: "parse_granularity (granularity_name g) = Ok g"
    by (simp add: parse_granularity_Ok)
  from start_at_hms [OF s aligned] show ?thesis
    unfolding parse_def gran path
    by (simp add: Let_def split_build_path path_segments_length parse_values_segments [OF s]
        parse_date_segments [OF s aligned] parse_hour_minute_segments [OF s aligned] p path)
qed

lemma build_partition_start:
  assumes t: "valid_instant t" and p: "build_partition C t g = Ok p"
  obtains start where "start_at t g start" "valid_instant start" "start_at start g start"
    "build_partition C start g = Ok p" "start_seconds p = timestamp C start"
    "start_nanosecond p = 0" "nanos_of C start = start_nanos p"
proof -
  from p obtain start until where s: "start_at t g start" and u: "build_until C start g = Some until"
    and eq: "p = \<lparr>partition_path = build_path C start g,
             start_seconds = timestamp C start, start_nanosecond = subsec_nanos C start,
             until_seconds = timestamp C until, until_nanosecond = subsec_nanos C until\<rparr>"
    by (auto simp: build_partition_Ok)
  note idem = start_at_idem [OF t s]
  have "build_partition C start g = Ok p"
    using idem u eq by (auto simp: build_partition_Ok)
  with that s idem start_at_valid [OF t s] eq show ?thesis
    by (simp add: nanos_of_def start_nanos_def)
qed

lemma parse_build:
  assumes "valid_instant t" and "build_partition C t g = Ok p"
  shows "parse C (partition_path p) (granularity_name g) = Ok p"
  using assms build_partition_start parse_aligned by metis

text \<open>A path that parses is the path of the partition that starts there.\<close>

lemma parse_Ok:
  assumes "parse C path (granularity_name g) = Ok p"
  obtains start where "valid_instant start" "build_partition C start g = Ok p"
    "partition_path p = path"
proof -
  have gran: "parse_granularity (granularity_name g) = Ok g"
    by (simp add: parse_granularity_Ok)
  from assms obtain vs date h m start where
      date: "parse_date C g vs = Ok date"
    and start: "and_hms C date h m 0 = Some start"
    and p: "build_partition C start g = Ok p" and path: "partition_path p = path"
    unfolding parse_def gran by (auto simp: Let_def result_simps split: if_splits)
  have "valid_date date"
    using date
    by (cases g) (auto simp: parse_date_def result_simps dest: from_ymd_Some from_isoywd_Some)
  then have "valid_instant start" using and_hms_Some start by blast
  with that p path show ?thesis by blast
qed

section \<open>Plans\<close>

lemma build_partition_parts:
  assumes t: "valid_instant t" and p: "build_partition C t g = Ok p"
  obtains start until where "start_at t g start" "build_until C start g = Some until"
    "valid_instant until" "until_seconds p = timestamp C until" "until_nanosecond p = 0"
    "start_nanos p = nanos_of C start" "until_nanos p = nanos_of C until"
    "nanos_of C start \<le> nanos_of C t" "nanos_of C t < nanos_of C until"
proof -
  from p obtain start until where su: "start_at t g start" "build_until C start g = Some until"
    and eq: "p = \<lparr>partition_path = build_path C start g,
             start_seconds = timestamp C start, start_nanosecond = subsec_nanos C start,
             until_seconds = timestamp C until, until_nanosecond = subsec_nanos C until\<rparr>"
    by (auto simp: build_partition_Ok)
  from partition_bounds [OF t su] su eq that [of start until] show ?thesis
    by (simp add: start_nanos_def until_nanos_def nanos_of_def)
qed

lemma build_partition_bounds:
  assumes t: "valid_instant t" and p: "build_partition C t g = Ok p"
  shows "start_nanos p \<le> nanos_of C t" "nanos_of C t < until_nanos p"
  by (rule build_partition_parts [OF t p]; simp)+

lemma build_partition_same:
  assumes t: "valid_instant t" and p: "build_partition C t g = Ok p" and t': "valid_instant t'"
    and lo: "start_nanos p \<le> nanos_of C t'" and hi: "nanos_of C t' < until_nanos p"
  shows "build_partition C t' g = Ok p"
proof -
  from p obtain start until where s: "start_at t g start" and u: "build_until C start g = Some until"
    and eq: "p = \<lparr>partition_path = build_path C start g,
             start_seconds = timestamp C start, start_nanosecond = subsec_nanos C start,
             until_seconds = timestamp C until, until_nanosecond = subsec_nanos C until\<rparr>"
    by (auto simp: build_partition_Ok)
  have "start_at t' g start"
    using partition_class [OF t s u t'] lo hi eq
    by (simp add: start_nanos_def until_nanos_def nanos_of_def)
  then show ?thesis using u eq by (auto simp: build_partition_Ok)
qed

lemma partition_start_Ok:
  assumes t: "valid_instant t" and p: "build_partition C t g = Ok p"
    and s: "partition_start C p = Ok start"
  shows "valid_instant start" "nanos_of C start = start_nanos p" "build_partition C start g = Ok p"
proof -
  obtain st where st: "valid_instant st" "build_partition C st g = Ok p"
    "start_seconds p = timestamp C st" "start_nanosecond p = 0"
    using build_partition_start [OF t p] by metis
  have ts: "from_timestamp C (start_seconds p) (start_nanosecond p) = Some start"
    using s by (simp add: partition_start_def result_simps)
  have "valid_instant start \<and> timestamp C start = start_seconds p \<and> subsec_nanos C start = 0"
    using from_timestamp_Some [OF _ _ ts] st(4) by simp
  then show "valid_instant start" "nanos_of C start = start_nanos p"
    using st(4) by (simp_all add: nanos_of_def start_nanos_def)
  then show "build_partition C start g = Ok p"
    using build_partition_same [OF t p] build_partition_bounds [OF t p] by simp
qed

lemma partition_until_Ok:
  assumes t: "valid_instant t" and p: "build_partition C t g = Ok p"
    and s: "partition_until C p = Ok next_start"
  shows "valid_instant next_start" "nanos_of C next_start = until_nanos p"
proof -
  obtain u where "valid_instant u" "until_seconds p = timestamp C u" "until_nanosecond p = 0"
    by (rule build_partition_parts [OF t p]) blast
  moreover have ts: "from_timestamp C (until_seconds p) (until_nanosecond p) = Some next_start"
    using s by (simp add: partition_until_def result_simps)
  ultimately have "valid_instant next_start \<and> timestamp C next_start = until_seconds p \<and>
      subsec_nanos C next_start = 0"
    using from_timestamp_Some [OF _ _ ts] by simp
  then show "valid_instant next_start" "nanos_of C next_start = until_nanos p"
    using \<open>until_nanosecond p = 0\<close> by (simp_all add: nanos_of_def until_nanos_def)
qed

text \<open>The partition after one ends starts where that one ends.\<close>

lemma next_partition_start:
  assumes t: "valid_instant t" and p: "build_partition C t g = Ok p"
    and u: "partition_until C p = Ok v" and q: "build_partition C v g = Ok q"
  shows "start_nanos q = until_nanos p"
proof -
  note v = partition_until_Ok [OF t p u]
  note bq = build_partition_bounds [OF v(1) q]
  obtain sp where sp: "valid_instant sp" "build_partition C sp g = Ok p"
    "nanos_of C sp = start_nanos p"
    using build_partition_start [OF t p] by metis
  obtain sq where sq: "valid_instant sq" "build_partition C sq g = Ok q"
    "nanos_of C sq = start_nanos q"
    using build_partition_start [OF v(1) q] by metis
  have differ: "p \<noteq> q" using bq(2) v(2) by auto
  have "\<not> (start_nanos q \<le> start_nanos p \<and> start_nanos p < until_nanos q)"
    using build_partition_same [OF v(1) q sp(1)] sp differ by auto
  moreover have "\<not> (start_nanos p \<le> start_nanos q \<and> start_nanos q < until_nanos p)"
    using build_partition_same [OF t p sq(1)] sq differ by auto
  moreover have "start_nanos p < until_nanos p"
    using build_partition_bounds [OF t p] by simp
  ultimately show ?thesis using bq v(2) by linarith
qed

lemma plan_loop_tiles:
  assumes "valid_instant t" and "build_partition C t g = Ok current"
    and "valid_instant until" and "plan_loop C g until room current out = Ok res"
  shows "\<exists>ps. res = out @ ps \<and> length ps \<le> room \<and>
    tiles (start_nanos current) (nanos_of C until) ps \<and>
    (\<forall>p \<in> set ps. \<exists>v. valid_instant v \<and> build_partition C v g = Ok p)"
  using assms
proof (induction room arbitrary: t current out)
  case 0
  then show ?case
    using partition_start_Ok [OF 0(1,2)] before_law
    by (auto simp: plan_loop.simps [of _ _ _ 0] result_simps split: if_splits)
next
  case (Suc room)
  obtain start where s: "partition_start C current = Ok start"
    using Suc.prems(4) by (auto simp: plan_loop.simps [of _ _ _ "Suc room"] result_simps)
  note st = partition_start_Ok [OF Suc.prems(1,2) s]
  show ?case
  proof (cases "before C start until")
    case False
    then have "res = out" using Suc.prems(4) s by (simp add: plan_loop.simps [of _ _ _ "Suc room"])
    then show ?thesis using False st before_law [OF st(1) Suc.prems(3)] by simp
  next
    case True
    with Suc.prems(4) s obtain v q where v: "partition_until C current = Ok v"
      and q: "build_partition C v g = Ok q"
      and rec: "plan_loop C g until room q (out @ [current]) = Ok res"
      by (auto simp: plan_loop.simps [of _ _ _ "Suc room"] result_simps)
    note vv = partition_until_Ok [OF Suc.prems(1,2) v]
    from Suc.IH [OF vv(1) q Suc.prems(3) rec] obtain ps where
        ps: "res = (out @ [current]) @ ps" "length ps \<le> room"
      "tiles (start_nanos q) (nanos_of C until) ps"
      "\<forall>p \<in> set ps. \<exists>v. valid_instant v \<and> build_partition C v g = Ok p"
      by blast
    have "tiles (start_nanos current) (nanos_of C until) (current # ps)"
      using ps(3) next_partition_start [OF Suc.prems(1,2) v q] st before_law [OF st(1) Suc.prems(3)]
        True build_partition_bounds [OF Suc.prems(1,2)] by simp
    with ps Suc.prems(1,2) show ?thesis by (intro exI [of _ "current # ps"]) auto
  qed
qed

end

end
