(* ===== verification/Gregorian.thy ===== *)
theory Gregorian
  imports Partition_Proofs
begin

text \<open>
  A calendar that satisfies the laws of \<open>chrono_laws\<close>: the proleptic Gregorian calendar on days
  counted from 1970-01-01, with the year range of the crate (-262143 to 262142), and instants
  as seconds and nanoseconds. It shows that the hypotheses on the calendar hold of a concrete
  executable one, and it is the calendar the witnesses compute with.
\<close>

section \<open>Years\<close>

definition leap :: "int \<Rightarrow> bool" where
  "leap y \<longleftrightarrow> y mod 4 = 0 \<and> (y mod 100 \<noteq> 0 \<or> y mod 400 = 0)"

definition year_start :: "int \<Rightarrow> int" where
  "year_start y =
     365 * (y - 1) + (y - 1) div 4 - (y - 1) div 100 + (y - 1) div 400 - 719162"

definition year_of :: "int \<Rightarrow> int" where
  "year_of n =
     (let g = 400 * (n + 719162) div 146097 + 1 in
      if year_start (g + 1) \<le> n then g + 1 else if n < year_start g then g - 1 else g)"

lemma div_bounds:
  assumes "0 < (k::int)"
  shows "k * (x div k) \<le> x" "x < k * (x div k) + k"
  using assms pos_mod_bound [OF assms, of x] pos_mod_sign [OF assms, of x]
    mult_div_mod_eq [of k x] by linarith+

lemma div_pred:
  assumes "0 < (k::int)"
  shows "y div k = (y - 1) div k + (if y mod k = 0 then 1 else 0)"
proof (cases "y mod k = 0")
  case True
  then have "y - 1 = k * (y div k - 1) + (k - 1)"
    using mult_div_mod_eq [of k y] by (simp add: algebra_simps)
  then have "(y - 1) div k = y div k - 1"
    by (rule int_div_pos_eq) (use assms in auto)
  with True show ?thesis by simp
next
  case False
  then have "y - 1 = k * (y div k) + (y mod k - 1)"
    using mult_div_mod_eq [of k y] by simp
  moreover have "0 < y mod k"
    using False pos_mod_sign [OF assms, of y] by simp
  ultimately have "(y - 1) div k = y div k"
    using pos_mod_bound [OF assms, of y] by (intro int_div_pos_eq [of _ _ _ "y mod k - 1"]) auto
  with False show ?thesis by simp
qed

lemma year_step_linear:
  fixes k a b c a' b' c' :: int
  assumes "a = a' + (if l4 then 1 else 0)" "b = b' + (if l100 then 1 else 0)"
    "c = c' + (if l400 then 1 else 0)" and "l400 \<Longrightarrow> l100" "l100 \<Longrightarrow> l4"
  shows "365 * k + a - b + c - 719162 =
    365 * (k - 1) + a' - b' + c' - 719162 + (if l4 \<and> (\<not> l100 \<or> l400) then 366 else 365)"
  using assms by (cases l4; cases l100; cases l400) (simp_all add: algebra_simps)

lemma year_start_step: "year_start (y + 1) = year_start y + (if leap y then 366 else 365)"
proof -
  have multiples: "y mod 400 = 0 \<Longrightarrow> y mod 100 = 0" "y mod 100 = 0 \<Longrightarrow> y mod 4 = 0"
    using dvd_trans [of 100 400 y] dvd_trans [of 4 100 y] by (simp_all add: mod_eq_0_iff_dvd)
  show ?thesis
    unfolding year_start_def leap_def add_diff_cancel_right'
    by (rule year_step_linear; (rule div_pred, simp | erule multiples))
qed

lemma year_start_less: "y < y' \<Longrightarrow> year_start (y + 1) \<le> year_start y'"
proof (induction y' rule: int_gr_induct)
  case base
  show ?case by simp
next
  case (step i)
  then show ?case using year_start_step [of i] by (auto split: if_splits)
qed

text \<open>Linear facts over the quotients, taken as variables.\<close>

lemma year_linear:
  fixes k a b c :: int
  assumes "4 * a \<le> k" "k < 4 * a + 4" "100 * b \<le> k" "k < 100 * b + 100"
    "400 * c \<le> k" "k < 400 * c + 400"
  shows "146097 * k - 700 \<le> 400 * (365 * k + a - b + c)"
    "400 * (365 * k + a - b + c) \<le> 146097 * k + 400"
  using assms by (simp_all add: algebra_simps)

lemma year_start_bounds:
  "146097 * (y - 1) - 700 \<le> 400 * (year_start y + 719162)"
  "400 * (year_start y + 719162) \<le> 146097 * (y - 1) + 400"
proof -
  have eq: "year_start y + 719162 =
      365 * (y - 1) + (y - 1) div 4 - (y - 1) div 100 + (y - 1) div 400"
    unfolding year_start_def by (rule diff_add_cancel)
  show "146097 * (y - 1) - 700 \<le> 400 * (year_start y + 719162)"
    "400 * (year_start y + 719162) \<le> 146097 * (y - 1) + 400"
    unfolding eq by (rule year_linear; rule div_bounds, simp)+
qed

lemma year_guess:
  fixes n g :: int
  assumes "146097 * (g - 1) \<le> 400 * (n + 719162)" and "400 * (n + 719162) < 146097 * g"
  shows "year_start (g - 1) \<le> n" "n < year_start (g + 1 + 1)"
  using assms year_start_bounds(2) [of "g - 1"] year_start_bounds(1) [of "g + 1 + 1"]
  by (simp_all add: algebra_simps)

lemma year_of_bounds: "year_start (year_of n) \<le> n" "n < year_start (year_of n + 1)"
proof -
  define g where "g = 400 * (n + 719162) div 146097 + 1"
  have "146097 * (g - 1) \<le> 400 * (n + 719162)" "400 * (n + 719162) < 146097 * g"
    using div_bounds [of 146097 "400 * (n + 719162)"] unfolding g_def by (simp_all add: algebra_simps)
  note guess = year_guess [OF this]
  show "year_start (year_of n) \<le> n" "n < year_start (year_of n + 1)"
    unfolding year_of_def g_def [symmetric] Let_def using guess by auto
qed

lemma year_of_eq_iff: "year_of n = y \<longleftrightarrow> year_start y \<le> n \<and> n < year_start (y + 1)"
proof
  assume "year_start y \<le> n \<and> n < year_start (y + 1)"
  then show "year_of n = y"
    using year_of_bounds [of n] year_start_less [of y "year_of n"] year_start_less [of "year_of n" y]
    by linarith
qed (use year_of_bounds in auto)

section \<open>Months\<close>

definition days_before :: "bool \<Rightarrow> int \<Rightarrow> int" where
  "days_before l m =
     (let x = (if l then 1 else 0) in
      if m \<le> 1 then 0 else if m \<le> 2 then 31 else if m \<le> 3 then 59 + x
      else if m \<le> 4 then 90 + x else if m \<le> 5 then 120 + x else if m \<le> 6 then 151 + x
      else if m \<le> 7 then 181 + x else if m \<le> 8 then 212 + x else if m \<le> 9 then 243 + x
      else if m \<le> 10 then 273 + x else if m \<le> 11 then 304 + x else if m \<le> 12 then 334 + x
      else 365 + x)"

definition month_days :: "bool \<Rightarrow> int \<Rightarrow> int" where
  "month_days l m = days_before l (m + 1) - days_before l m"

definition month_of_ordinal :: "bool \<Rightarrow> int \<Rightarrow> int" where
  "month_of_ordinal l n =
     (let x = (if l then 1 else 0) in
      if n < 31 then 1 else if n < 59 + x then 2 else if n < 90 + x then 3
      else if n < 120 + x then 4 else if n < 151 + x then 5 else if n < 181 + x then 6
      else if n < 212 + x then 7 else if n < 243 + x then 8 else if n < 273 + x then 9
      else if n < 304 + x then 10 else if n < 334 + x then 11 else 12)"

lemma month_of_ordinal_bounds:
  assumes "0 \<le> n" and "n < (if l then 366 else 365)"
  shows "1 \<le> month_of_ordinal l n" "month_of_ordinal l n \<le> 12"
    "days_before l (month_of_ordinal l n) \<le> n" "n < days_before l (month_of_ordinal l n + 1)"
  using assms by (cases l; simp add: month_of_ordinal_def days_before_def Let_def)+

lemma days_before_mono: "m \<le> m' \<Longrightarrow> days_before l m \<le> days_before l m'"
  by (cases l) (auto simp: days_before_def Let_def)

lemma days_before_ends: "days_before l 1 = 0" "days_before l 13 = (if l then 366 else 365)"
  by (simp_all add: days_before_def)

lemma month_of_ordinal_eq:
  assumes "1 \<le> m" "m \<le> 12" and "days_before l m \<le> n" "n < days_before l (m + 1)"
  shows "month_of_ordinal l n = m"
proof -
  have n: "0 \<le> n" "n < (if l then 366 else 365)"
    using assms days_before_mono [of 1 m l] days_before_mono [of "m + 1" 13 l]
    by (auto simp: days_before_ends)
  note b = month_of_ordinal_bounds [OF n]
  have "\<not> month_of_ordinal l n < m" "\<not> m < month_of_ordinal l n"
    using b assms days_before_mono [of "month_of_ordinal l n + 1" m l]
      days_before_mono [of "m + 1" "month_of_ordinal l n" l] by linarith+
  then show ?thesis by simp
qed

lemma month_days_le: "1 \<le> m \<Longrightarrow> m \<le> 12 \<Longrightarrow> 28 \<le> month_days l m \<and> month_days l m \<le> 31"
  by (cases l) (auto simp: month_days_def days_before_def Let_def)

section \<open>Civil dates\<close>

definition ordinal_of :: "int \<Rightarrow> int" where
  "ordinal_of n = n - year_start (year_of n)"

definition month_of :: "int \<Rightarrow> int" where
  "month_of n = month_of_ordinal (leap (year_of n)) (ordinal_of n)"

definition day_of :: "int \<Rightarrow> int" where
  "day_of n = ordinal_of n - days_before (leap (year_of n)) (month_of n) + 1"

definition year_ok :: "int \<Rightarrow> bool" where
  "year_ok y \<longleftrightarrow> - 262143 \<le> y \<and> y \<le> 262142"

definition civil_day :: "int \<Rightarrow> int \<Rightarrow> int \<Rightarrow> int" where
  "civil_day y m d = year_start y + days_before (leap y) m + d - 1"

definition civil :: "int \<Rightarrow> int \<Rightarrow> int \<Rightarrow> int option" where
  "civil y m d =
     (if year_ok y \<and> 1 \<le> m \<and> m \<le> 12 \<and> 1 \<le> d \<and> d \<le> month_days (leap y) m
      then Some (civil_day y m d) else None)"

lemma ordinal_range: "0 \<le> ordinal_of n" "ordinal_of n < (if leap (year_of n) then 366 else 365)"
  using year_of_bounds [of n] year_start_step [of "year_of n"] by (auto simp: ordinal_of_def)

lemmas month_of_bounds =
  month_of_ordinal_bounds [OF ordinal_range, folded month_of_def]

lemma day_of_range: "1 \<le> day_of n" "day_of n \<le> month_days (leap (year_of n)) (month_of n)"
  using month_of_bounds [of n] by (auto simp: day_of_def month_days_def)

lemma civil_day_of: "civil_day (year_of n) (month_of n) (day_of n) = n"
  by (simp add: civil_day_def day_of_def ordinal_of_def)

lemma civil_of_civil_day:
  assumes "1 \<le> m" "m \<le> 12" "1 \<le> d" "d \<le> month_days (leap y) m"
  shows "year_of (civil_day y m d) = y" "month_of (civil_day y m d) = m"
    "day_of (civil_day y m d) = d"
proof -
  let ?n = "civil_day y m d"
  have lo: "0 \<le> days_before (leap y) m"
    using assms days_before_mono [of 1 m "leap y"] by (simp add: days_before_ends)
  have hi: "days_before (leap y) (m + 1) \<le> (if leap y then 366 else 365)"
    using assms days_before_mono [of "m + 1" 13 "leap y"] by (simp add: days_before_ends)
  show y: "year_of ?n = y"
    using assms lo hi year_start_step [of y]
    by (auto simp: year_of_eq_iff civil_day_def month_days_def)
  have o: "ordinal_of ?n = days_before (leap y) m + d - 1"
    by (simp add: ordinal_of_def y) (simp add: civil_day_def)
  show m: "month_of ?n = m"
    unfolding month_of_def y o
    using assms by (intro month_of_ordinal_eq) (auto simp: month_days_def)
  show "day_of ?n = d" by (simp add: day_of_def y o m)
qed

lemma civil_less:
  assumes "year_of n < year_of n' \<or> (year_of n = year_of n' \<and>
    (month_of n < month_of n' \<or> (month_of n = month_of n' \<and> day_of n < day_of n')))"
  shows "n < n'"
  using assms
proof (elim disjE conjE)
  assume "year_of n < year_of n'"
  then show ?thesis
    using year_start_less year_of_bounds [of n] year_of_bounds [of n'] by fastforce
next
  assume y: "year_of n = year_of n'" and m: "month_of n < month_of n'"
  have "days_before (leap (year_of n)) (month_of n + 1) \<le> days_before (leap (year_of n)) (month_of n')"
    using m by (intro days_before_mono) simp
  then have "ordinal_of n < ordinal_of n'"
    using month_of_bounds(4) [of n] month_of_bounds(3) [of n'] y by simp
  then show ?thesis using y by (simp add: ordinal_of_def)
next
  assume "year_of n = year_of n'" "month_of n = month_of n'" "day_of n < day_of n'"
  then show ?thesis by (simp add: day_of_def ordinal_of_def)
qed

lemma civil_less_iff:
  "n < n' \<longleftrightarrow> year_of n < year_of n' \<or> (year_of n = year_of n' \<and>
    (month_of n < month_of n' \<or> (month_of n = month_of n' \<and> day_of n < day_of n')))"
  using civil_less [of n n'] civil_less [of n' n] civil_day_of [of n] civil_day_of [of n']
  by (metis less_irrefl not_less_iff_gr_or_eq order.asym)

section \<open>ISO weeks\<close>

definition weekday_of :: "int \<Rightarrow> int" where
  "weekday_of n = (n + 3) mod 7"

definition iso_year_of :: "int \<Rightarrow> int" where
  "iso_year_of n = year_of (n - weekday_of n + 3)"

definition iso_week_of :: "int \<Rightarrow> int" where
  "iso_week_of n = (n - weekday_of n + 3 - year_start (iso_year_of n)) div 7 + 1"

definition valid_day :: "int \<Rightarrow> bool" where
  "valid_day n \<longleftrightarrow> year_ok (year_of n)"

definition first_monday :: "int \<Rightarrow> int" where
  "first_monday y = year_start y + 3 - weekday_of (year_start y + 3)"

definition iso_monday_day :: "int \<Rightarrow> int \<Rightarrow> int option" where
  "iso_monday_day y w =
     (let n = first_monday y + 7 * (w - 1) in
      if 1 \<le> w \<and> year_of (n + 3) = y \<and> valid_day n then Some n else None)"

lemma first_monday_law: "weekday_of (first_monday y + 7 * k) = 0"
  unfolding first_monday_def weekday_of_def by presburger

lemma thursday_arith:
  fixes d s :: int
  assumes "(d + 3) mod 7 = 0"
  shows "s + 3 - (s + 3 + 3) mod 7 + 7 * ((d + 3 - s) div 7) = d"
proof -
  define r where "r = (s + 3 + 3) mod 7"
  obtain k where d: "d + 3 = 7 * k" using assms by (auto elim: dvdE)
  obtain q where s: "s + 6 = 7 * q + r"
    using mult_div_mod_eq [of 7 "s + 3 + 3"] that [of "(s + 3 + 3) div 7"] by (simp add: r_def)
  have "0 \<le> 6 - r" "6 - r < 7" by (simp_all add: r_def)
  moreover have "d + 3 - s = 7 * (k - q) + (6 - r)" using d s by (simp add: algebra_simps)
  ultimately have "(d + 3 - s) div 7 = k - q" by simp
  then show ?thesis using d s by (fold r_def) simp
qed

lemma iso_week_monday:
  assumes "weekday_of n = 0"
  shows "first_monday (iso_year_of n) + 7 * (iso_week_of n - 1) = n"
  using thursday_arith [of n "year_start (iso_year_of n)"] assms
  by (simp add: first_monday_def weekday_of_def iso_week_of_def)

lemma iso_week_range: "1 \<le> iso_week_of n" "iso_week_of n \<le> 53"
proof -
  define th where "th = n - weekday_of n + 3"
  have "year_start (iso_year_of n) \<le> th" "th < year_start (iso_year_of n) + 366"
    using year_of_bounds [of th] year_start_step [of "year_of th"]
    by (auto simp: iso_year_of_def th_def split: if_splits)
  then have "0 \<le> th - year_start (iso_year_of n)" "th - year_start (iso_year_of n) < 366"
    by simp_all
  then show "1 \<le> iso_week_of n" "iso_week_of n \<le> 53"
    unfolding iso_week_of_def th_def [symmetric] by (simp, linarith)
qed

section \<open>The calendar record\<close>

type_synonym civil_instant = "int \<times> int"

definition valid_civil_instant :: "civil_instant \<Rightarrow> bool" where
  "valid_civil_instant t \<longleftrightarrow> valid_day (fst t div 86400) \<and> 0 \<le> snd t \<and> snd t < 1000000000"

definition instant_at :: "int \<Rightarrow> int \<Rightarrow> civil_instant option" where
  "instant_at s n = (if valid_civil_instant (s, n) then Some (s, n) else None)"

definition add_month_count :: "civil_instant \<Rightarrow> int \<Rightarrow> civil_instant option" where
  "add_month_count t k =
     (let n = fst t div 86400;
          total = year_of n * 12 + (month_of n - 1) + k;
          y = total div 12; m = total mod 12 + 1
      in case civil y m (min (day_of n) (month_days (leap y) m)) of
           None \<Rightarrow> None
         | Some n' \<Rightarrow> Some (n' * 86400 + fst t mod 86400, snd t))"

definition gregorian :: "(int, civil_instant) chrono" where
  "gregorian =
     \<lparr>from_timestamp = instant_at,
      timestamp = fst,
      subsec_nanos = snd,
      before = (\<lambda>t u. fst t < fst u \<or> (fst t = fst u \<and> snd t < snd u)),
      date_naive = (\<lambda>t. fst t div 86400),
      hour = (\<lambda>t. fst t mod 86400 div 3600),
      minute = (\<lambda>t. fst t mod 3600 div 60),
      year = year_of,
      month = month_of,
      day = day_of,
      num_days_from_monday = weekday_of,
      iso_year = iso_year_of,
      iso_week = iso_week_of,
      checked_sub_days = (\<lambda>n k. if valid_day (n - k) then Some (n - k) else None),
      from_ymd = civil,
      from_isoywd_monday = iso_monday_day,
      and_hms = (\<lambda>n h m s.
        if 0 \<le> h \<and> h < 24 \<and> 0 \<le> m \<and> m < 60 \<and> 0 \<le> s \<and> s < 60
        then Some (n * 86400 + h * 3600 + m * 60 + s, 0) else None),
      add_seconds = (\<lambda>t k. instant_at (fst t + k) (snd t)),
      add_months = add_month_count\<rparr>"

lemma gregorian_simps [simp]:
  "from_timestamp gregorian = instant_at"
  "timestamp gregorian = fst"
  "subsec_nanos gregorian = snd"
  "before gregorian t u \<longleftrightarrow> fst t < fst u \<or> (fst t = fst u \<and> snd t < snd u)"
  "date_naive gregorian t = fst t div 86400"
  "hour gregorian t = fst t mod 86400 div 3600"
  "minute gregorian t = fst t mod 3600 div 60"
  "year gregorian = year_of"
  "month gregorian = month_of"
  "day gregorian = day_of"
  "num_days_from_monday gregorian = weekday_of"
  "iso_year gregorian = iso_year_of"
  "iso_week gregorian = iso_week_of"
  "checked_sub_days gregorian n k = (if valid_day (n - k) then Some (n - k) else None)"
  "from_ymd gregorian = civil"
  "from_isoywd_monday gregorian = iso_monday_day"
  "and_hms gregorian n h m s =
     (if 0 \<le> h \<and> h < 24 \<and> 0 \<le> m \<and> m < 60 \<and> 0 \<le> s \<and> s < 60
      then Some (n * 86400 + h * 3600 + m * 60 + s, 0) else None)"
  "add_seconds gregorian t k = instant_at (fst t + k) (snd t)"
  "add_months gregorian = add_month_count"
  by (simp_all add: gregorian_def)

lemma civil_Some_iff:
  "civil y m d = Some n \<longleftrightarrow>
     year_of n = y \<and> month_of n = m \<and> day_of n = d \<and> valid_day n"
proof
  assume "civil y m d = Some n"
  then have "year_ok y" "1 \<le> m" "m \<le> 12" "1 \<le> d" "d \<le> month_days (leap y) m"
    "n = civil_day y m d"
    by (auto simp: civil_def split: if_splits)
  then show "year_of n = y \<and> month_of n = m \<and> day_of n = d \<and> valid_day n"
    using civil_of_civil_day by (simp add: valid_day_def)
next
  assume "year_of n = y \<and> month_of n = m \<and> day_of n = d \<and> valid_day n"
  then show "civil y m d = Some n"
    using day_of_range [of n] month_of_bounds [of n] civil_day_of [of n]
    by (auto simp: civil_def valid_day_def)
qed

lemma valid_day_range:
  assumes "valid_day n"
  shows "- 100000000 < n" "n < 100000000"
proof -
  have y: "- 262143 \<le> year_of n" "year_of n \<le> 262142"
    using assms by (auto simp: valid_day_def year_ok_def)
  show "- 100000000 < n"
    using y year_of_bounds(1) [of n] year_start_bounds(1) [of "year_of n"] by simp
  show "n < 100000000"
    using y year_of_bounds(2) [of n] year_start_bounds(2) [of "year_of n + 1"] by simp
qed

lemma time_of_day:
  fixes n r :: int
  assumes "0 \<le> r" "r < 86400"
  shows "(n * 86400 + r) div 86400 = n" "(n * 86400 + r) mod 86400 = r"
  using assms by simp_all

lemma hms_fields:
  fixes n h m s :: int
  assumes "0 \<le> h" "h < 24" "0 \<le> m" "m < 60" "0 \<le> s" "s < 60"
  defines "t \<equiv> n * 86400 + h * 3600 + m * 60 + s"
  shows "t div 86400 = n" "t mod 86400 div 3600 = h" "t mod 3600 div 60 = m"
proof -
  have t: "t = n * 86400 + (h * 3600 + m * 60 + s)" "0 \<le> h * 3600 + m * 60 + s"
    "h * 3600 + m * 60 + s < 86400"
    using assms by simp_all
  show "t div 86400 = n" unfolding t(1) by (rule time_of_day(1) [OF t(2,3)])
  have "t mod 86400 = h * 3600 + (m * 60 + s)"
    unfolding t(1) using time_of_day(2) [OF t(2,3), of n] by simp
  then have "t mod 86400 = 3600 * h + (m * 60 + s)" by simp
  then show "t mod 86400 div 3600 = h"
    by (rule int_div_pos_eq) (use assms(1-6) in auto)
  have "t = 3600 * (n * 24 + h) + (m * 60 + s)" using t(1) by simp
  then have "t mod 3600 = m * 60 + s"
    using assms(1-6) by (intro int_mod_pos_eq [of _ _ "n * 24 + h"]) auto
  then have "t mod 3600 = 60 * m + s" by simp
  then show "t mod 3600 div 60 = m"
    by (rule int_div_pos_eq) (use assms(1-6) in auto)
qed

lemma clock_fields:
  fixes t :: int
  shows "t = t div 86400 * 86400 + t mod 86400 div 3600 * 3600 + t mod 3600 div 60 * 60 + t mod 60"
    "0 \<le> t mod 86400 div 3600" "t mod 86400 div 3600 < 24"
    "0 \<le> t mod 3600 div 60" "t mod 3600 div 60 < 60"
proof -
  have "t mod 86400 mod 3600 = t mod 3600" "t mod 3600 mod 60 = t mod 60"
    by (simp_all add: mod_mod_cancel)
  then show "t = t div 86400 * 86400 + t mod 86400 div 3600 * 3600 + t mod 3600 div 60 * 60 + t mod 60"
    using div_mult_mod_eq [of t 86400] div_mult_mod_eq [of "t mod 86400" 3600]
      div_mult_mod_eq [of "t mod 3600" 60] by linarith
  show "0 \<le> t mod 86400 div 3600" "0 \<le> t mod 3600 div 60"
    by (simp_all add: pos_imp_zdiv_nonneg_iff)
  show "t mod 86400 div 3600 < 24" "t mod 3600 div 60 < 60"
    by (simp_all add: div_less_iff_less_mult)
qed

section \<open>The laws hold\<close>

lemma year_of_near:
  assumes "n - 4 < k" "k < n + 4"
  shows "year_of k \<le> year_of n + 1" "year_of n - 1 \<le> year_of k"
proof -
  have long: "year_start (y + 1) \<ge> year_start y + 365" for y
    using year_start_step [of y] by simp
  show "year_of k \<le> year_of n + 1"
  proof (rule ccontr)
    assume "\<not> year_of k \<le> year_of n + 1"
    then have "year_start (year_of n + 1 + 1) \<le> year_start (year_of k)"
      by (intro year_start_less) simp
    then show False
      using assms year_of_bounds [of k] year_of_bounds [of n] long [of "year_of n + 1"] by linarith
  qed
  show "year_of n - 1 \<le> year_of k"
  proof (rule ccontr)
    assume "\<not> year_of n - 1 \<le> year_of k"
    then have "year_start (year_of k + 1) \<le> year_start (year_of n - 1)"
      by (intro year_start_less) simp
    then show False
      using assms year_of_bounds [of k] year_of_bounds [of n] long [of "year_of n - 1"] by simp
  qed
qed

lemma instant_at_Some:
  "instant_at s n = Some t \<longleftrightarrow> t = (s, n) \<and> valid_civil_instant (s, n)"
  by (auto simp: instant_at_def)

lemma gregorian_add_month:
  assumes t: "valid_civil_instant t" and d: "day_of (fst t div 86400) = 1"
    and u: "add_month_count t 1 = Some u"
  shows "valid_civil_instant u" "snd u = snd t"
    "fst u - fst u div 86400 * 86400 = fst t - fst t div 86400 * 86400"
    "day_of (fst u div 86400) = 1"
    "if month_of (fst t div 86400) = 12
     then year_of (fst u div 86400) = year_of (fst t div 86400) + 1 \<and> month_of (fst u div 86400) = 1
     else year_of (fst u div 86400) = year_of (fst t div 86400) \<and>
          month_of (fst u div 86400) = month_of (fst t div 86400) + 1"
proof -
  let ?n = "fst t div 86400"
  define m where "m = month_of ?n"
  define total where "total = year_of ?n * 12 + m"
  have m: "1 \<le> m" "m \<le> 12" using month_of_bounds [of ?n] by (simp_all add: m_def)
  have ym: "if m = 12 then total div 12 = year_of ?n + 1 \<and> total mod 12 = 0
      else total div 12 = year_of ?n \<and> total mod 12 = m"
    using m unfolding total_def by auto
  have len: "1 \<le> month_days l (total mod 12 + 1)" for l
  proof -
    have "0 \<le> total mod 12" "total mod 12 < 12" by simp_all
    then show ?thesis using month_days_le [of "total mod 12 + 1" l] by linarith
  qed
  have "min 1 (month_days (leap (total div 12)) (total mod 12 + 1)) = 1"
    using len by simp
  then obtain n' where n': "civil (total div 12) (total mod 12 + 1) 1 = Some n'"
    and ueq: "u = (n' * 86400 + fst t mod 86400, snd t)"
    using u d by (auto simp: add_month_count_def Let_def total_def m_def split: option.splits)
  have day': "fst u div 86400 = n'" unfolding ueq fst_conv by (rule time_of_day) simp_all
  note facts = n' [unfolded civil_Some_iff]
  show "snd u = snd t" "day_of (fst u div 86400) = 1" using ueq facts day' by simp_all
  show "valid_civil_instant u" using t facts day' ueq by (simp add: valid_civil_instant_def)
  show "fst u - fst u div 86400 * 86400 = fst t - fst t div 86400 * 86400"
    unfolding day' using ueq by (simp add: minus_div_mult_eq_mod)
  show "if month_of ?n = 12
     then year_of (fst u div 86400) = year_of ?n + 1 \<and> month_of (fst u div 86400) = 1
     else year_of (fst u div 86400) = year_of ?n \<and> month_of (fst u div 86400) = month_of ?n + 1"
    unfolding day' using facts ym by (auto simp: m_def split: if_splits)
qed

lemma valid_instant_width:
  assumes "valid_civil_instant t"
  shows "fits_signed 64 (fst t)"
  using valid_day_range [of "fst t div 86400"] div_bounds [of 86400 "fst t"] assms
  by (simp add: valid_civil_instant_def fits_signed_def)

interpretation greg: chrono_laws gregorian "\<lambda>n. n" valid_day valid_civil_instant
proof (unfold_locales, goal_cases)
  case (1 n s t)
  then show ?case by (auto simp: instant_at_Some)
next
  case (2 t)
  then show ?case by (simp add: instant_at_Some)
next
  case (3 t)
  then show ?case using valid_instant_width by (auto simp: valid_civil_instant_def)
next
  case (4 t u)
  then show ?case by (auto simp: valid_civil_instant_def nanos_of_def)
next
  case (5 t)
  then show ?case by (simp add: valid_civil_instant_def)
next
  case (6 t)
  have r: "0 \<le> fst t mod 60" "fst t mod 60 < 60" by simp_all
  note c = clock_fields [of "fst t"]
  show ?case
    unfolding gregorian_simps using r c(1) c(2-5) by blast
next
  case (7 d h m)
  then show ?case by simp
next
  case (8 d h m t)
  then have hm: "0 \<le> h" "h < 24" "0 \<le> m" "m < 60"
    and t: "t = (d * 86400 + h * 3600 + m * 60 + 0, 0)"
    by (auto split: if_splits)
  note fields = hms_fields [OF hm order_refl zero_less_numeral, of d]
  show ?case
    unfolding gregorian_simps t fst_conv snd_conv fields valid_civil_instant_def
    using 8(1) by simp
next
  case (9 d e)
  show ?case unfolding gregorian_simps by (rule civil_less_iff)
next
  case (10 d)
  then show ?case
    using month_of_bounds [of d] day_of_range [of d]
      month_days_le [of "month_of d" "leap (year_of d)"]
    by (auto simp: valid_day_def year_ok_def fits_signed_def)
next
  case (11 d)
  then show ?case by (simp add: civil_Some_iff)
next
  case (12 y m n d)
  then show ?case by (simp add: civil_Some_iff)
next
  case (13 d)
  show ?case by (simp add: weekday_of_def)
next
  case (14 d n e)
  then show ?case by (auto split: if_splits)
next
  case (15 d e n)
  then show ?case by auto
next
  case (16 d)
  have near: "d - 4 < d - weekday_of d + 3" "d - weekday_of d + 3 < d + 4"
    by (simp_all add: weekday_of_def)
  have "year_of (d - weekday_of d + 3) \<le> year_of d + 1" "year_of d - 1 \<le> year_of (d - weekday_of d + 3)"
    using near year_of_near by blast+
  with 16 iso_week_range [of d] show ?case
    by (auto simp: valid_day_def year_ok_def fits_signed_def iso_year_of_def)
next
  case (17 d)
  then show ?case
    using iso_week_monday [of d] iso_week_range [of d]
    by (simp add: iso_monday_day_def iso_year_of_def)
next
  case (18 y w d)
  then show ?case
    using first_monday_law [of y "w - 1"] by (auto simp: iso_monday_day_def Let_def split: if_splits)
next
  case (19 t n u)
  then show ?case by (auto simp: instant_at_Some)
next
  case (20 t u)
  then show ?case using gregorian_add_month [of t u] by simp
qed

end
