(* ===== verification/Partition_Properties.thy ===== *)
theory Partition_Properties
  imports Gregorian
begin

text \<open>
  The properties of \<^verbatim>\<open>time_partition.rs\<close>, stated over every calendar that satisfies the laws
  and applied, as witnesses, to the Gregorian calendar.
\<close>

section \<open>Helper facts\<close>

lemma unit_factor_range:
  "unit_factor unit = Ok f \<Longrightarrow> f = 1 \<or> f = 1000 \<or> f = 1000000 \<or> f = 1000000000"
  by (auto simp: unit_factor_def split: if_splits)

lemma unit_factor_pos: "unit_factor unit = Ok f \<Longrightarrow> 0 < f"
  using unit_factor_range by fastforce

lemma scaled_range:
  fixes ts f :: int
  assumes ts: "fits_signed 64 ts" and f: "1 \<le> f" "f \<le> 1000000000"
  shows "fits_signed 128 (ts * f)" "fits_signed 64 (ts * f div 1000000000)"
proof -
  have b: "- 9223372036854775808 \<le> ts" "ts < 9223372036854775808"
    using ts by (simp_all add: fits_signed_def)
  have abs_ts: "\<bar>ts\<bar> \<le> 9223372036854775808" using b by simp
  have "\<bar>ts * f\<bar> \<le> 9223372036854775808 * 1000000000"
    unfolding abs_mult using abs_ts f by (intro mult_mono) auto
  then show "fits_signed 128 (ts * f)" unfolding fits_signed_def by (auto simp: abs_le_iff)
  have lo: "- 9223372036854775808 * 1000000000 \<le> ts * f"
  proof (cases "0 \<le> ts")
    case True
    then have "0 \<le> ts * f" using f by simp
    then show ?thesis by simp
  next
    case False
    then have "ts * 1000000000 \<le> ts * f" using f by (intro mult_left_mono_neg) auto
    then show ?thesis using b by simp
  qed
  have hi: "ts * f < 9223372036854775808 * 1000000000"
  proof (cases "0 \<le> ts")
    case True
    then have "ts * f \<le> ts * 1000000000" using f by (intro mult_left_mono) auto
    then show ?thesis using b by simp
  next
    case False
    then have "ts * f \<le> 0" using f by (intro mult_nonpos_nonneg) auto
    then show ?thesis by simp
  qed
  have "- 9223372036854775808 \<le> ts * f div 1000000000"
    using zdiv_mono1 [OF lo, of 1000000000] by simp
  moreover have "ts * f div 1000000000 < 9223372036854775808"
    using hi by (simp add: div_less_iff_less_mult)
  ultimately show "fits_signed 64 (ts * f div 1000000000)" by (simp add: fits_signed_def)
qed

lemma partition_for_Ok:
  "partition_for C ts unit gran = Ok p \<longleftrightarrow>
     (\<exists>t g. instant C ts unit = Ok t \<and> gran = granularity_name g \<and> build_partition C t g = Ok p)"
  by (auto simp: partition_for_def result_simps parse_granularity_Ok)

lemma instant_factor:
  "instant C ts unit = Ok t \<Longrightarrow> \<exists>f. unit_factor unit = Ok f"
  by (auto simp: instant_def result_simps)

context chrono_laws
begin

lemma instant_second:
  assumes "valid_instant t" and "subsec_nanos C t = 0"
  shows "instant C (timestamp C t) ''second'' = Ok t"
proof -
  note ts = instant_range [OF assms(1)]
  have "fits_signed 128 (timestamp C t * 1000000000)"
    using scaled_range(1) [of "timestamp C t" 1000000000] ts by simp
  then show ?thesis
    using ts from_timestamp_valid [OF assms(1)] assms(2)
    by (simp add: instant_def unit_factor_def try_signed_def)
qed

lemma plan_unfold:
  assumes plan: "plan C from_ts until_ts unit gran limit = Ok ps" and f: "unit_factor unit = Ok f"
    and less: "from_ts \<noteq> until_ts"
  obtains from_t until_t g current where "valid_instant from_t" "valid_instant until_t"
    "nanos_of C from_t = from_ts * f" "nanos_of C until_t = until_ts * f"
    "from_ts < until_ts" "gran = granularity_name g" "build_partition C from_t g = Ok current"
    "plan_loop C g until_t limit current [] = Ok ps"
proof -
  obtain from_t until_t where ft: "instant C from_ts unit = Ok from_t"
    and ut: "instant C until_ts unit = Ok until_t" and le: "\<not> before C until_t from_t"
    using plan by (auto simp: plan_def result_simps split: if_splits)
  note vf = instant_Ok [OF ft f] and vu = instant_Ok [OF ut f]
  have "from_ts * f \<le> until_ts * f"
    using le before_law [of until_t from_t] vf vu by auto
  then have less': "from_ts < until_ts" using less unit_factor_pos [OF f] by auto
  then have "from_t \<noteq> until_t" using vf vu unit_factor_pos [OF f] by auto
  then have "\<exists>g current. parse_granularity gran = Ok g \<and> build_partition C from_t g = Ok current \<and>
      plan_loop C g until_t limit current [] = Ok ps"
    using plan ft ut le by (auto simp: plan_def result_simps split: if_splits)
  with that vf vu less' show ?thesis by (auto simp: parse_granularity_Ok)
qed

end

section \<open>Properties\<close>

text \<open>A partition evaluated step by step, for the examples.\<close>

lemma build_partition_eval:
  assumes "build_start_date C t g = Ok d" and "build_hour_minute C t g = (h, m)"
    and "and_hms C d h m 0 = Some start" and "build_until C start g = Some u"
    and "build_path C start g = path"
    and "(timestamp C start, subsec_nanos C start, timestamp C u, subsec_nanos C u) =
      (s, n, s', n')"
  shows "build_partition C t g =
    Ok \<lparr>partition_path = path, start_seconds = s, start_nanosecond = n,
        until_seconds = s', until_nanosecond = n'\<rparr>"
  using assms by (simp add: build_partition_def)

section \<open>A plan of the Gregorian calendar\<close>

text \<open>From 31 January 2024 to one second into March, by months.\<close>

abbreviation month_2024 :: "string \<Rightarrow> int \<Rightarrow> int \<Rightarrow> native_partition" where
  "month_2024 path from_s until_s \<equiv>
     \<lparr>partition_path = path, start_seconds = from_s, start_nanosecond = 0,
      until_seconds = until_s, until_nanosecond = 0\<rparr>"

abbreviation january :: native_partition where
  "january \<equiv> month_2024 ''year=2024/month=1'' 1704067200 1706745600"

abbreviation february :: native_partition where
  "february \<equiv> month_2024 ''year=2024/month=2'' 1706745600 1709251200"

abbreviation march :: native_partition where
  "march \<equiv> month_2024 ''year=2024/month=3'' 1709251200 1711929600"

lemma plan_example:
  "plan gregorian 1706659200 1709251201 ''second'' ''month'' 5 = Ok [january, february, march]"
proof -
  let ?u = "(1709251201, 0)"
  have i: "instant gregorian 1706659200 ''second'' = Ok (1706659200, 0)"
    "instant gregorian 1709251201 ''second'' = Ok ?u" by code_simp+
  have o: "\<not> before gregorian ?u (1706659200, 0)" by code_simp
  have g: "parse_granularity ''month'' = Ok Month" by code_simp
  have b1: "build_partition gregorian (1706659200, 0) Month =
      Ok january"
    by (rule build_partition_eval [where d = "19723" and h = 0 and m = 0 and start = "(1704067200, 0)"
          and u = "(1706745600, 0)"]; code_simp)
  have b2: "build_partition gregorian (1706745600, 0) Month =
      Ok february"
    by (rule build_partition_eval [where d = "19754" and h = 0 and m = 0 and start = "(1706745600, 0)"
          and u = "(1709251200, 0)"]; code_simp)
  have b3: "build_partition gregorian (1709251200, 0) Month =
      Ok march"
    by (rule build_partition_eval [where d = "19783" and h = 0 and m = 0 and start = "(1709251200, 0)"
          and u = "(1711929600, 0)"]; code_simp)
  have b4: "build_partition gregorian (1711929600, 0) Month =
      Ok (month_2024 ''year=2024/month=4'' 1711929600 1714521600)"
    by (rule build_partition_eval [where d = "19814" and h = 0 and m = 0 and start = "(1711929600, 0)"
          and u = "(1714521600, 0)"]; code_simp)
  have s: "partition_start gregorian january = Ok (1704067200, 0)"
    "partition_start gregorian february = Ok (1706745600, 0)"
    "partition_start gregorian march = Ok (1709251200, 0)"
    "partition_start gregorian (month_2024 ''year=2024/month=4'' 1711929600 1714521600)
       = Ok (1711929600, 0)" by code_simp+
  have e: "partition_until gregorian january = Ok (1706745600, 0)"
    "partition_until gregorian february = Ok (1709251200, 0)"
    "partition_until gregorian march = Ok (1711929600, 0)" by code_simp+
  have l: "before gregorian (1704067200, 0) ?u" "before gregorian (1706745600, 0) ?u"
    "before gregorian (1709251200, 0) ?u" "\<not> before gregorian (1711929600, 0) ?u" by code_simp+
  have "plan_loop gregorian Month ?u 5 january [] = Ok [january, february, march]"
    unfolding numeral_eq_Suc pred_numeral_simps
    by (simp only: plan_loop_push [OF s(1) l(1) e(1) b2] plan_loop_push [OF s(2) l(2) e(2) b3]
        plan_loop_push [OF s(3) l(3) e(3) b4] plan_loop_stop [OF s(4) l(4)]
        append.simps eval_nat_numeral BitM.simps)
  then show ?thesis by (simp add: plan_def i o g b1 result_simps)
qed

text \<open>C21: the partition computed for a timestamp contains it: its start is at or before the
  instant and its end is after it.\<close>

theorem partition_for_contains:
  assumes "chrono_laws C epoch_day valid_date valid_instant"
    and "unit_factor unit = Ok f" and "partition_for C ts unit gran = Ok p"
  shows "start_nanos p \<le> ts * f \<and> ts * f < until_nanos p"
proof -
  obtain t g where t: "instant C ts unit = Ok t" and p: "build_partition C t g = Ok p"
    using assms(3) by (auto simp: partition_for_Ok)
  note vt = chrono_laws.instant_Ok [OF assms(1) t assms(2)]
  with chrono_laws.build_partition_bounds [OF assms(1) _ p] show ?thesis by simp
qed

theorem partition_for_contains_witness:
  "\<exists>p. partition_for gregorian 1785760305 ''second'' ''week'' = Ok p \<and>
     partition_path p = ''iso_year=2026/week=32'' \<and>
     start_nanos p \<le> 1785760305 * 1000000000 \<and> 1785760305 * 1000000000 < until_nanos p"
proof -
  have p: "partition_for gregorian 1785760305 ''second'' ''week'' =
    Ok \<lparr>partition_path = ''iso_year=2026/week=32'', start_seconds = 1785715200,
        start_nanosecond = 0, until_seconds = 1786320000, until_nanosecond = 0\<rparr>"
    by code_simp
  have f: "unit_factor ''second'' = Ok 1000000000" by code_simp
  show ?thesis
    using partition_for_contains [OF greg.chrono_laws_axioms f p] p by simp
qed

text \<open>C22: a partition is a class of timestamps: every timestamp of the calendar between the start and
  the end of a partition is given that same partition, path included.\<close>

theorem partition_for_class:
  assumes "chrono_laws C epoch_day valid_date valid_instant"
    and "unit_factor unit = Ok f" and "partition_for C ts unit gran = Ok p"
    and "instant C ts' unit = Ok t'" and "start_nanos p \<le> ts' * f" and "ts' * f < until_nanos p"
  shows "partition_for C ts' unit gran = Ok p"
proof -
  obtain t g where t: "instant C ts unit = Ok t" and g: "gran = granularity_name g"
    and p: "build_partition C t g = Ok p"
    using assms(3) by (auto simp: partition_for_Ok)
  note vt = chrono_laws.instant_Ok [OF assms(1) t assms(2)]
    and vt' = chrono_laws.instant_Ok [OF assms(1,4,2)]
  have "build_partition C t' g = Ok p"
    using chrono_laws.build_partition_same [OF assms(1) _ p] vt vt' assms(5,6) by simp
  then show ?thesis using assms(4) g by (auto simp: partition_for_Ok)
qed

theorem partition_for_class_witness:
  "partition_for gregorian 1786319999 ''second'' ''week'' =
     partition_for gregorian 1785760305 ''second'' ''week''"
proof -
  let ?p = "\<lparr>partition_path = ''iso_year=2026/week=32'', start_seconds = 1785715200,
        start_nanosecond = 0, until_seconds = 1786320000, until_nanosecond = 0\<rparr>"
  have p: "partition_for gregorian 1785760305 ''second'' ''week'' = Ok ?p" by code_simp
  have f: "unit_factor ''second'' = Ok 1000000000" by code_simp
  have t: "instant gregorian 1786319999 ''second'' = Ok (1786319999, 0)" by code_simp
  have "partition_for gregorian 1786319999 ''second'' ''week'' = Ok ?p"
    by (rule partition_for_class [OF greg.chrono_laws_axioms f p t])
      (simp_all add: start_nanos_def until_nanos_def)
  then show ?thesis by (simp only: p)
qed

text \<open>C18: the path of a computed partition parses back to the same partition, for every
  granularity.\<close>

theorem parse_partition_for:
  assumes "chrono_laws C epoch_day valid_date valid_instant"
    and "partition_for C ts unit gran = Ok p"
  shows "parse C (partition_path p) gran = Ok p"
proof -
  obtain t g where t: "instant C ts unit = Ok t" and g: "gran = granularity_name g"
    and p: "build_partition C t g = Ok p"
    using assms(2) by (auto simp: partition_for_Ok)
  obtain f where f: "unit_factor unit = Ok f" using instant_factor [OF t] by blast
  note vt = chrono_laws.instant_Ok [OF assms(1) t f]
  then show ?thesis using chrono_laws.parse_build [OF assms(1) _ p] g by simp
qed

theorem parse_partition_for_witness:
  "parse gregorian ''year=1969/month=12/day=31/hour=23/minute=59'' ''minute'' =
     partition_for gregorian (- 1) ''nanosecond'' ''minute''"
proof -
  let ?p = "\<lparr>partition_path = ''year=1969/month=12/day=31/hour=23/minute=59'',
        start_seconds = - 60, start_nanosecond = 0, until_seconds = 0, until_nanosecond = 0\<rparr>"
  have i: "instant gregorian (- 1) ''nanosecond'' = Ok (- 1, 999999999)" by code_simp
  have g: "parse_granularity ''minute'' = Ok Minute" by code_simp
  have b: "build_partition gregorian (- 1, 999999999) Minute = Ok ?p"
    by (rule build_partition_eval [where d = "- 1" and h = 23 and m = 59 and start = "(- 60, 0)"
          and u = "(0, 0)"]; code_simp)
  have p: "partition_for gregorian (- 1) ''nanosecond'' ''minute'' = Ok ?p"
    by (simp add: partition_for_def i g b)
  from parse_partition_for [OF greg.chrono_laws_axioms p] show ?thesis by (simp add: p)
qed

text \<open>C17: the parser accepts canonical paths only: a path it accepts is the path of the partition it
  returns, and that partition is the one computed for its own start.\<close>

theorem parse_canonical:
  assumes "chrono_laws C epoch_day valid_date valid_instant"
    and "parse C path gran = Ok p"
  shows "partition_path p = path \<and> partition_for C (start_seconds p) ''second'' gran = Ok p"
proof -
  have "\<exists>g. gran = granularity_name g"
    using assms(2) by (auto simp: parse_def result_simps parse_granularity_Ok)
  then obtain g where g: "gran = granularity_name g" by blast
  obtain t where t: "valid_instant t" and p: "build_partition C t g = Ok p"
    and path: "partition_path p = path"
    using chrono_laws.parse_Ok [OF assms(1) assms(2) [unfolded g]] by blast
  obtain start where start: "valid_instant start" "build_partition C start g = Ok p"
    "start_seconds p = timestamp C start" "start_nanosecond p = 0"
    "start_nanos p = nanos_of C start"
    using chrono_laws.build_partition_start [OF assms(1) t p] by (metis (no_types))
  have "subsec_nanos C start = 0" using start by (simp add: start_nanos_def nanos_of_def)
  then have "instant C (start_seconds p) ''second'' = Ok start"
    using chrono_laws.instant_second [OF assms(1) start(1)] start(3) by simp
  with start(2) g path show ?thesis by (auto simp: partition_for_Ok)
qed

theorem parse_canonical_witness:
  "(\<exists>p. parse gregorian ''iso_year=2020/week=53'' ''week'' = Ok p \<and>
      partition_path p = ''iso_year=2020/week=53'' \<and>
      partition_for gregorian (start_seconds p) ''second'' ''week'' = Ok p) \<and>
   \<not> (\<exists>p. parse gregorian ''iso_year=2020/week=+53'' ''week'' = Ok p)"
proof -
  have p: "parse gregorian ''iso_year=2020/week=53'' ''week'' =
    Ok \<lparr>partition_path = ''iso_year=2020/week=53'', start_seconds = 1609113600,
        start_nanosecond = 0, until_seconds = 1609718400, until_nanosecond = 0\<rparr>"
    by code_simp
  have "parse gregorian ''iso_year=2020/week=+53'' ''week'' =
    Err (tp_invalid ''partition path is not canonical'')"
    by code_simp
  with parse_canonical [OF greg.chrono_laws_axioms p] p show ?thesis by auto
qed

text \<open>C6: a plan is empty for an empty range; otherwise it is a gapless chain of at most \<open>limit\<close>
  partitions, the first of which contains the start of the range, each of which starts before
  the end of the range, and the last of which reaches that end.\<close>

theorem plan_tiles_range:
  assumes "chrono_laws C epoch_day valid_date valid_instant"
    and "unit_factor unit = Ok f" and "plan C from_ts until_ts unit gran limit = Ok ps"
  shows "length ps \<le> limit \<and> from_ts \<le> until_ts \<and>
    (if from_ts = until_ts then ps = []
     else ps \<noteq> [] \<and> start_nanos (hd ps) \<le> from_ts * f \<and> from_ts * f < until_nanos (hd ps) \<and>
          tiles (start_nanos (hd ps)) (until_ts * f) ps)"
proof (cases "from_ts = until_ts")
  case True
  then show ?thesis
    using assms(3) by (auto simp: plan_def result_simps split: if_splits)
next
  case False
  obtain from_t until_t g current where u: "valid_instant from_t" "valid_instant until_t"
    "nanos_of C from_t = from_ts * f" "nanos_of C until_t = until_ts * f"
    "from_ts < until_ts" "build_partition C from_t g = Ok current"
    "plan_loop C g until_t limit current [] = Ok ps"
    using chrono_laws.plan_unfold [OF assms(1,3,2) False] by metis
  have t: "length ps \<le> limit" "tiles (start_nanos current) (until_ts * f) ps"
    using chrono_laws.plan_loop_tiles [OF assms(1) u(1,6,2,7)] u(4) by auto
  have b: "start_nanos current \<le> from_ts * f" "from_ts * f < until_nanos current"
    using chrono_laws.build_partition_bounds [OF assms(1) u(1,6)] u(3) by auto
  have "from_ts * f < until_ts * f"
    using u(5) unit_factor_pos [OF assms(2)] by simp
  then obtain rest where ps: "ps = current # rest"
    using t b plan_loop_head [of C g until_t limit current] u(7) by (cases ps) auto
  with t b u(5) show ?thesis by simp
qed

theorem plan_tiles_range_witness:
  "plan gregorian 1706659200 1709251201 ''second'' ''month'' 5 = Ok [january, february, march] \<and>
   tiles (1704067200 * 1000000000) (1709251201 * 1000000000) [january, february, march]"
proof -
  have f: "unit_factor ''second'' = Ok 1000000000" by code_simp
  from plan_tiles_range [OF greg.chrono_laws_axioms f plan_example] plan_example
  show ?thesis by (simp add: start_nanos_def)
qed

text \<open>C13: a plan misses nothing: the partition of every timestamp in the planned range is one of the
  planned partitions.\<close>

theorem plan_finds_all:
  assumes "chrono_laws C epoch_day valid_date valid_instant"
    and "plan C from_ts until_ts unit gran limit = Ok ps"
    and "partition_for C ts unit gran = Ok q" and "from_ts \<le> ts" and "ts < until_ts"
  shows "q \<in> set ps"
proof -
  obtain t g where t: "instant C ts unit = Ok t" and g: "gran = granularity_name g"
    and q: "build_partition C t g = Ok q"
    using assms(3) by (auto simp: partition_for_Ok)
  obtain f where f: "unit_factor unit = Ok f" using instant_factor [OF t] by blast
  have ne: "from_ts \<noteq> until_ts" using assms(4,5) by simp
  obtain from_t until_t g' current where u: "valid_instant from_t" "valid_instant until_t"
    "nanos_of C from_t = from_ts * f" "nanos_of C until_t = until_ts * f"
    "gran = granularity_name g'" "build_partition C from_t g' = Ok current"
    "plan_loop C g' until_t limit current [] = Ok ps"
    using chrono_laws.plan_unfold [OF assms(1,2) f ne] by metis
  have g': "g' = g" using g u(5) granularity_name_inj by simp
  note vt = chrono_laws.instant_Ok [OF assms(1) t f]
  have tiles: "tiles (start_nanos current) (until_ts * f) ps"
    and built: "\<forall>p \<in> set ps. \<exists>v. valid_instant v \<and> build_partition C v g = Ok p"
    using chrono_laws.plan_loop_tiles [OF assms(1) u(1,6,2,7)] u(4) g' by auto
  have "start_nanos current \<le> from_ts * f"
    using chrono_laws.build_partition_bounds [OF assms(1) u(1,6)] u(3) by simp
  moreover have "from_ts * f \<le> ts * f" "ts * f < until_ts * f"
    using assms(4,5) unit_factor_pos [OF f] by simp_all
  ultimately obtain p where p: "p \<in> set ps" "start_nanos p \<le> ts * f" "ts * f < until_nanos p"
    using tiles_cover [OF tiles, of "ts * f"] by auto
  with built obtain v where v: "valid_instant v" "build_partition C v g = Ok p" by blast
  have "build_partition C t g = Ok p"
    by (rule chrono_laws.build_partition_same [OF assms(1) v]) (use vt p in simp_all)
  with q p(1) show ?thesis by simp
qed

theorem plan_finds_all_witness:
  "partition_for gregorian 1709251199 ''second'' ''month'' = Ok february \<and>
   february \<in> set [january, february, march]"
proof -
  have i: "instant gregorian 1709251199 ''second'' = Ok (1709251199, 0)" by code_simp
  have g: "parse_granularity ''month'' = Ok Month" by code_simp
  have b: "build_partition gregorian (1709251199, 0) Month = Ok february"
    by (rule build_partition_eval [where d = 19754 and h = 0 and m = 0 and start = "(1706745600, 0)"
          and u = "(1709251200, 0)"]; code_simp)
  have q: "partition_for gregorian 1709251199 ''second'' ''month'' = Ok february"
    by (simp add: partition_for_def i g b)
  have "february \<in> set [january, february, march]"
    by (rule plan_finds_all [OF greg.chrono_laws_axioms plan_example q]) simp_all
  with q show ?thesis by blast
qed

text \<open>C20: the planning limit is exact: whenever a range can be planned, every positive limit gives
  the same plan if the plan has at most that many partitions, and the limit error otherwise.\<close>

theorem plan_limit_exact:
  assumes "plan C from_ts until_ts unit gran limit = Ok ps" and "0 < limit'"
  shows "plan C from_ts until_ts unit gran limit' =
    (if length ps \<le> limit' then Ok ps
     else Err (tp_invalid ''partition range exceeds the planning limit''))"
proof -
  obtain from_t until_t where ft: "instant C from_ts unit = Ok from_t"
    and ut: "instant C until_ts unit = Ok until_t" and le: "\<not> before C until_t from_t"
    using assms(1) by (auto simp: plan_def result_simps split: if_splits)
  show ?thesis
  proof (cases "from_t = until_t")
    case True
    then show ?thesis using assms ft ut le by (auto simp: plan_def split: if_splits)
  next
    case False
    then obtain g current where "parse_granularity gran = Ok g"
      and "build_partition C from_t g = Ok current"
      and "plan_loop C g until_t limit current [] = Ok ps"
      using assms(1) ft ut le by (auto simp: plan_def result_simps split: if_splits)
    with assms(2) ft ut le False plan_loop_limit [of C g until_t limit current "[]" ps limit']
    show ?thesis by (simp add: plan_def)
  qed
qed

theorem plan_limit_exact_witness:
  "plan gregorian 1706659200 1709251201 ''second'' ''month'' 2 =
     Err (tp_invalid ''partition range exceeds the planning limit'') \<and>
   plan gregorian 1706659200 1709251201 ''second'' ''month'' 3 = Ok [january, february, march]"
  using plan_limit_exact [OF plan_example, of 2] plan_limit_exact [OF plan_example, of 3] by simp

text \<open>C40: for every 64-bit timestamp in a known unit the 128-bit product and the conversion back to
  64-bit seconds never fail: the instant is the calendar's answer on the Euclidean quotient
  and remainder, or the calendar's range error.\<close>

theorem instant_no_overflow:
  assumes "fits_signed 64 ts" and "unit_factor unit = Ok f"
  shows "instant C ts unit =
    ok_or (from_timestamp C (ts * f div 1000000000) (ts * f mod 1000000000))
      (tp_invalid ''timestamp is out of range'')"
  using scaled_range [OF assms(1), of f] unit_factor_range [OF assms(2)] assms(2)
  by (auto simp: instant_def try_signed_def)

theorem instant_no_overflow_witness:
  "instant gregorian 9223372036854775807 ''second'' =
     Err (tp_invalid ''timestamp is out of range'') \<and>
   instant gregorian (- 9223372036854775808) ''nanosecond'' = Ok (- 9223372037, 145224192)"
proof -
  have t: "fits_signed 64 9223372036854775807" "fits_signed 64 (- 9223372036854775808)"
    and f: "unit_factor ''second'' = Ok 1000000000" "unit_factor ''nanosecond'' = Ok 1"
    by code_simp+
  have "from_timestamp gregorian (9223372036854775807 * 1000000000 div 1000000000)
      (9223372036854775807 * 1000000000 mod 1000000000) = None"
    "from_timestamp gregorian (- 9223372036854775808 * 1 div 1000000000)
      (- 9223372036854775808 * 1 mod 1000000000) = Some (- 9223372037, 145224192)"
    by code_simp+
  then show ?thesis
    unfolding instant_no_overflow [OF t(1) f(1)] instant_no_overflow [OF t(2) f(2)]
    by (simp only: ok_or_simps)
qed

end
