(* ===== verification/Object_Types.thy ===== *)
theory Object_Types
  imports Errors
begin

text \<open>
  \<^verbatim>\<open>object.rs\<close>: the values the stores exchange and the cancellation token. The token is an
  atomic flag and a \<^verbatim>\<open>tokio::sync::Notify\<close>; \<^verbatim>\<open>check\<close> reads the flag, and the asynchronous
  \<^verbatim>\<open>cancelled\<close> is modelled together with a concurrent \<^verbatim>\<open>cancel\<close> as a step relation, one step
  for each access to the shared state.
\<close>

section \<open>Values\<close>

record object_location =
  location_key :: string
  location_allowed_root :: "string option"

record object_metadata =
  object_path :: string
  object_size :: u64
  object_modified_unix_ns :: "u64 option"

record byte_range =
  range_offset :: u64
  range_length :: u64

datatype flush_policy = FlushNone | FlushEachChunk | FlushBeforePublish

datatype sync_policy = SyncNone | SyncData | SyncAll

record write_options =
  option_flush :: flush_policy
  option_sync :: sync_policy

section \<open>The cancellation token\<close>

record cancellation_token =
  cancelled_flag :: bool

definition token_default :: cancellation_token where
  "token_default = \<lparr>cancelled_flag = False\<rparr>"

definition token_cancel :: "cancellation_token \<Rightarrow> cancellation_token" where
  "token_cancel t = t\<lparr>cancelled_flag := True\<rparr>"

definition token_check :: "cancellation_token \<Rightarrow> operation \<Rightarrow> unit native_result" where
  "token_check t p = (if cancelled_flag t then Err (failure_cancelled p) else Ok ())"

lemma token_check_Ok [simp]: "token_check t p = Ok () \<longleftrightarrow> \<not> cancelled_flag t"
  by (simp add: token_check_def)

lemma token_check_cancel [simp]: "token_check (token_cancel t) p = Err (failure_cancelled p)"
  by (simp add: token_check_def token_cancel_def)

lemma token_flags [simp]:
  "\<not> cancelled_flag token_default" "cancelled_flag (token_cancel t)"
  by (simp_all add: token_default_def token_cancel_def)

section \<open>Waiting for a cancellation\<close>

text \<open>
  One task awaits \<^verbatim>\<open>cancelled()\<close> while another thread runs \<^verbatim>\<open>cancel()\<close>. The waiter first loads
  the flag; when it is clear it creates the \<^verbatim>\<open>notified()\<close> future, from which moment a
  \<^verbatim>\<open>notify_waiters\<close> reaches it. The canceller stores the flag and then calls
  \<^verbatim>\<open>notify_waiters\<close>, which wakes the futures that exist at that moment and leaves no permit
  for later ones.
\<close>

datatype waiter_state = WaiterStart | WaiterChecked | WaiterRegistered | WaiterDone

datatype canceller_state = CancelStart | CancelStored | CancelDone

record cancel_world =
  world_token :: cancellation_token
  waiter :: waiter_state
  canceller :: canceller_state

definition cancel_world_init :: cancel_world where
  "cancel_world_init =
     \<lparr>world_token = token_default, waiter = WaiterStart, canceller = CancelStart\<rparr>"

inductive cancel_step :: "cancel_world \<Rightarrow> cancel_world \<Rightarrow> bool" where
  load_set: "waiter w = WaiterStart \<Longrightarrow> cancelled_flag (world_token w) \<Longrightarrow>
     cancel_step w (w\<lparr>waiter := WaiterDone\<rparr>)"
| load_clear: "waiter w = WaiterStart \<Longrightarrow> \<not> cancelled_flag (world_token w) \<Longrightarrow>
     cancel_step w (w\<lparr>waiter := WaiterChecked\<rparr>)"
| create_notified: "waiter w = WaiterChecked \<Longrightarrow> cancel_step w (w\<lparr>waiter := WaiterRegistered\<rparr>)"
| store_flag: "canceller w = CancelStart \<Longrightarrow>
     cancel_step w (w\<lparr>world_token := token_cancel (world_token w), canceller := CancelStored\<rparr>)"
| notify_waiters: "canceller w = CancelStored \<Longrightarrow>
     cancel_step w (w\<lparr>waiter := (if waiter w = WaiterRegistered then WaiterDone else waiter w),
       canceller := CancelDone\<rparr>)"

inductive_cases cancel_stepE: "cancel_step w w'"

definition cancel_reachable :: "cancel_world \<Rightarrow> bool" where
  "cancel_reachable w = cancel_step\<^sup>*\<^sup>* cancel_world_init w"

lemma cancel_reachable_induct [consumes 1, case_names init step]:
  assumes "cancel_reachable w" and "P cancel_world_init"
    and "\<And>v w. cancel_reachable v \<Longrightarrow> cancel_step v w \<Longrightarrow> P v \<Longrightarrow> P w"
  shows "P w"
  using assms(1) unfolding cancel_reachable_def
  by (induction rule: rtranclp_induct) (use assms(2,3) in \<open>auto simp: cancel_reachable_def\<close>)

text \<open>What holds at every moment of the race.\<close>

definition cancel_inv :: "cancel_world \<Rightarrow> bool" where
  "cancel_inv w \<longleftrightarrow>
     (cancelled_flag (world_token w) \<longleftrightarrow> canceller w \<noteq> CancelStart) \<and>
     (waiter w = WaiterDone \<longrightarrow> cancelled_flag (world_token w))"

lemma cancel_inv_reachable: "cancel_reachable w \<Longrightarrow> cancel_inv w"
proof (induction rule: cancel_reachable_induct)
  case init
  then show ?case by (simp add: cancel_inv_def cancel_world_init_def)
next
  case (step v w)
  from step(2,3) show ?case by cases (auto simp: cancel_inv_def)
qed

lemma cancel_stuck_iff:
  "(\<nexists>w'. cancel_step w w') \<longleftrightarrow>
     canceller w = CancelDone \<and> (waiter w = WaiterDone \<or> waiter w = WaiterRegistered)"
proof
  assume stuck: "\<nexists>w'. cancel_step w w'"
  then have "canceller w \<noteq> CancelStart" "canceller w \<noteq> CancelStored"
    "waiter w \<noteq> WaiterStart" "waiter w \<noteq> WaiterChecked"
    using cancel_step.intros [of w] by blast+
  then show "canceller w = CancelDone \<and> (waiter w = WaiterDone \<or> waiter w = WaiterRegistered)"
    by (cases "canceller w"; cases "waiter w") auto
qed (auto elim: cancel_stepE)

text \<open>C25: after a cancellation every later check fails with the cancelled failure of its operation, and
  a wait never ends before the flag is set; in every interleaving the canceller finishes.\<close>

theorem cancel_race_safe:
  assumes "cancel_reachable w"
  shows "(waiter w = WaiterDone \<longrightarrow> cancelled_flag (world_token w)) \<and>
    (canceller w \<noteq> CancelStart \<longrightarrow>
       token_check (world_token w) p = Err (failure_cancelled p)) \<and>
    ((\<nexists>w'. cancel_step w w') \<longrightarrow> canceller w = CancelDone)"
  using cancel_inv_reachable [OF assms] unfolding cancel_stuck_iff
  by (auto simp: cancel_inv_def token_check_def)

text \<open>The schedule in which the cancellation falls between the load of the flag and the
  registration.\<close>

definition lost_world :: cancel_world where
  "lost_world =
     \<lparr>world_token = \<lparr>cancelled_flag = True\<rparr>, waiter = WaiterRegistered, canceller = CancelDone\<rparr>"

lemma lost_world_reachable: "cancel_reachable lost_world"
proof -
  let ?w1 = "cancel_world_init\<lparr>waiter := WaiterChecked\<rparr>"
  let ?w2 = "?w1\<lparr>world_token := token_cancel (world_token ?w1), canceller := CancelStored\<rparr>"
  let ?w3 = "?w2\<lparr>waiter := (if waiter ?w2 = WaiterRegistered then WaiterDone else waiter ?w2),
    canceller := CancelDone\<rparr>"
  have "cancel_step cancel_world_init ?w1"
    by (rule load_clear) (simp_all add: cancel_world_init_def)
  moreover have "cancel_step ?w1 ?w2"
    by (rule store_flag) (simp add: cancel_world_init_def)
  moreover have "cancel_step ?w2 ?w3"
    by (rule notify_waiters) simp
  moreover have "cancel_step ?w3 (?w3\<lparr>waiter := WaiterRegistered\<rparr>)"
    by (rule create_notified) (simp add: cancel_world_init_def)
  moreover have "?w3\<lparr>waiter := WaiterRegistered\<rparr> = lost_world"
    by (simp add: lost_world_def cancel_world_init_def token_cancel_def token_default_def)
  ultimately show ?thesis
    unfolding cancel_reachable_def by (metis (no_types, lifting) rtranclp.simps)
qed

theorem cancel_race_safe_witness:
  "cancel_reachable lost_world \<and>
   token_check (world_token lost_world) OpS3WriterWrite = Err (failure_cancelled OpS3WriterWrite)"
  using cancel_race_safe [OF lost_world_reachable, of OpS3WriterWrite] lost_world_reachable
  by (simp add: lost_world_def)

text \<open>C24: a wake-up can be lost: the token can be cancelled for good while the task that awaits
  \<open>cancelled()\<close> is registered and no step is left that could wake it.\<close>

theorem cancel_wakeup_can_be_lost:
  "\<exists>w. cancel_reachable w \<and> cancelled_flag (world_token w) \<and> canceller w = CancelDone \<and>
     waiter w = WaiterRegistered \<and> (\<nexists>w'. cancel_step w w')"
proof (intro exI conjI)
  show "\<nexists>w'. cancel_step lost_world w'" unfolding cancel_stuck_iff by (simp add: lost_world_def)
qed (simp_all add: lost_world_reachable, simp_all add: lost_world_def)

end
