(* ===== verification/Zstd.thy ===== *)
theory Zstd
  imports Errors
begin

text \<open>
  \<^verbatim>\<open>zstd.rs\<close>: bounded compression and decompression. The crate \<^verbatim>\<open>zstd\<close> is the record
  \<open>zstd_lib\<close>: the supported levels, the bulk compressor, the streaming decoder, its window
  setting and the bytes it yields, followed by the end of the stream (\<^const>\<open>False\<close>) or an error
  (\<^const>\<open>True\<close>). Reading a \<^verbatim>\<open>take\<close> of it to the end is std and is modelled.
\<close>

record 'd zstd_lib =
  level_min :: int
  level_max :: int
  bulk_compress :: "bytes \<Rightarrow> int \<Rightarrow> bytes option"
  decoder_new :: "bytes \<Rightarrow> 'd option"
  set_window_log_max :: "'d \<Rightarrow> nat \<Rightarrow> 'd option"
  decoder_stream :: "'d \<Rightarrow> bytes \<times> bool"

section \<open>The functions of the file\<close>

definition compress :: "'d zstd_lib \<Rightarrow> bytes \<Rightarrow> int \<Rightarrow> bytes native_result" where
  "compress Z data level =
     (if \<not> (level_min Z \<le> level \<and> level \<le> level_max Z)
      then Err (failure_invalid OpZstdCompress
                  ''zstd compression level is outside the supported range'')
      else ok_or (bulk_compress Z data level)
             (failure_expected OpZstdCompress ''zstd compression failed''))"

fun bit_length :: "nat \<Rightarrow> nat" where
  "bit_length n = (if n = 0 then 0 else Suc (bit_length (n div 2)))"

declare bit_length.simps [simp del]

definition leading_zeros :: "usize \<Rightarrow> nat" where
  "leading_zeros w = 64 - bit_length (unat w)"

definition window_log_max :: "usize \<Rightarrow> nat" where
  "window_log_max max_output_size =
     (let required_bits = 64 - leading_zeros (saturating_sub_usize max_output_size 1)
      in min 31 (max 10 required_bits))"

definition malformed_data :: native_failure where
  "malformed_data = failure_new MalformedData OpZstdDecompress ''input is not a valid zstd frame''"

text \<open>
  \<^verbatim>\<open>decoder.take(limit).read_to_end(&mut output)\<close>: once \<open>limit\<close> bytes are read the adapter
  reports the end without asking the decoder again, so an error behind them is not seen.
\<close>

definition take_read_to_end :: "nat \<Rightarrow> bytes \<times> bool \<Rightarrow> bytes option" where
  "take_read_to_end limit stream =
     (case stream of (bytes, fails) \<Rightarrow>
        if limit \<le> length bytes then Some (take limit bytes)
        else if fails then None else Some bytes)"

definition decompress :: "'d zstd_lib \<Rightarrow> bytes \<Rightarrow> usize \<Rightarrow> bytes native_result" where
  "decompress Z data max_output_size =
     and_then (ok_or (decoder_new Z data) malformed_data) (\<lambda>decoder.
     and_then (ok_or (set_window_log_max Z decoder (window_log_max max_output_size))
                 malformed_data) (\<lambda>decoder.
     and_then (ok_or (checked_add_u64 max_output_size 1)
                 (failure_invalid OpZstdDecompress
                    ''max_output_size is outside the supported range'')) (\<lambda>read_limit.
     and_then (ok_or (take_read_to_end (unat read_limit) (decoder_stream Z decoder))
                 malformed_data) (\<lambda>output.
     if unat max_output_size < length output
     then Err (failure_invalid OpZstdDecompress ''decompressed data exceeds max_output_size'')
     else Ok output))))"

section \<open>The window bound\<close>

lemma bit_length_bound: "n < 2 ^ bit_length n"
proof (induction n rule: bit_length.induct)
  case (1 n)
  then show ?case by (cases "n = 0") (auto simp: bit_length.simps [of n])
qed

lemma bit_length_least: "n < 2 ^ k \<Longrightarrow> bit_length n \<le> k"
proof (induction n arbitrary: k rule: bit_length.induct)
  case (1 n)
  show ?case
  proof (cases "n = 0")
    case False
    with "1.prems" obtain j where k: "k = Suc j" by (cases k) auto
    with "1.prems" have "n div 2 < 2 ^ j" by auto
    from "1.IH" [OF False this] k False show ?thesis by (simp add: bit_length.simps [of n])
  qed (simp add: bit_length.simps)
qed

lemma unat_usize_bound: "unat (n :: usize) < 2 ^ 64"
  by (rule order_less_le_trans [OF unsigned_less]) simp

lemma window_log_max_eq:
  "window_log_max n = min 31 (max 10 (bit_length (unat n - 1)))"
proof -
  have "bit_length (unat n - 1) \<le> 64"
    using unat_usize_bound [of n] by (intro bit_length_least) simp
  then show ?thesis
    by (simp add: window_log_max_def leading_zeros_def unat_saturating_sub)
qed

lemma decompress_Ok_iff:
  "decompress Z data n = Ok out \<longleftrightarrow>
     (\<exists>d d' bs fails. decoder_new Z data = Some d \<and>
        set_window_log_max Z d (window_log_max n) = Some d' \<and> unat n + 1 < 2 ^ 64 \<and>
        decoder_stream Z d' = (bs, fails) \<and> \<not> fails \<and> length bs \<le> unat n \<and> out = bs)"
  (is "?l \<longleftrightarrow> ?r")
proof
  assume ?l
  then obtain d d' where d: "decoder_new Z data = Some d"
    "set_window_log_max Z d (window_log_max n) = Some d'" and n: "unat n + 1 < 2 ^ 64"
    and t: "take_read_to_end (unat (n + 1)) (decoder_stream Z d') = Some out"
    and len: "length out \<le> unat n"
    by (auto simp: decompress_def result_simps checked_add_u64_Some split: if_splits)
  obtain bs fails where s: "decoder_stream Z d' = (bs, fails)" by fastforce
  have "unat (n + 1) = unat n + 1" using n unat_add_u64 [of n 1] by simp
  then have "\<not> unat n + 1 \<le> length bs" "\<not> fails" "out = bs"
    using t s len by (auto simp: take_read_to_end_def split: if_splits)
  with d n s len show ?r by auto
next
  assume ?r
  then show ?l
    using unat_add_u64 [of n 1]
    by (auto simp: decompress_def take_read_to_end_def checked_add_u64_def)
qed

lemma fits_window:
  assumes "l \<le> unat n" and "l \<le> 2 ^ 31"
  shows "l \<le> 2 ^ window_log_max n"
proof (cases "bit_length (unat n - 1) \<le> 31")
  case True
  have "unat n \<le> 2 ^ bit_length (unat n - 1)"
    using bit_length_bound [of "unat n - 1"] by simp
  also have "\<dots> \<le> 2 ^ window_log_max n"
    using True by (intro power_increasing) (simp_all add: window_log_max_eq)
  finally show ?thesis using assms(1) by simp
next
  case False
  then show ?thesis using assms(2) by (simp add: window_log_max_eq)
qed

lemma window_log_max_range: "10 \<le> window_log_max n \<and> window_log_max n \<le> 31"
  by (simp add: window_log_max_eq)

section \<open>What the code relies on\<close>

text \<open>
  A frame made by the bulk compressor is accepted by the decoder under every supported window
  bound that covers its content, and then yields the content; whatever the bound, a stream
  that ends without an error has yielded the content.
\<close>

definition zstd_frames_decode :: "'d zstd_lib \<Rightarrow> bool" where
  "zstd_frames_decode Z \<longleftrightarrow>
     (\<forall>data level frame. bulk_compress Z data level = Some frame \<longrightarrow>
        (\<exists>d. decoder_new Z frame = Some d \<and>
          (\<forall>k. 10 \<le> k \<and> k \<le> 31 \<and> length data \<le> 2 ^ k \<longrightarrow>
             (\<exists>d'. set_window_log_max Z d k = Some d' \<and> decoder_stream Z d' = (data, False))) \<and>
          (\<forall>k d' bs. set_window_log_max Z d k = Some d' \<and> decoder_stream Z d' = (bs, False) \<longrightarrow>
             bs = data)))"

text \<open>A library that stores the data and enforces the window bound, as an instance.\<close>

definition stored_zstd :: "(bytes \<times> nat) zstd_lib" where
  "stored_zstd =
     \<lparr>level_min = - 7, level_max = 22,
      bulk_compress = (\<lambda>data level. Some data),
      decoder_new = (\<lambda>frame. Some (frame, 27)),
      set_window_log_max =
        (\<lambda>d k. if 10 \<le> k \<and> k \<le> 31 then Some (fst d, k) else None),
      decoder_stream =
        (\<lambda>d. if length (fst d) \<le> 2 ^ snd d then (fst d, False) else ([], True))\<rparr>"

lemma stored_zstd_frames_decode: "zstd_frames_decode stored_zstd"
  by (auto simp: zstd_frames_decode_def stored_zstd_def split: if_splits)

section \<open>Properties\<close>

text \<open>C39: decompressing a frame made by \<open>compress\<close> returns exactly the original data when the data
  fits the requested output bound, and fails otherwise, for content of up to 2 GiB.\<close>

theorem compress_decompress:
  assumes lib: "zstd_frames_decode Z" and frame: "compress Z data level = Ok frame"
    and small: "length data \<le> 2 ^ 31" and n: "unat n + 1 < 2 ^ 64"
  shows "decompress Z frame n = Ok out \<longleftrightarrow> out = data \<and> length data \<le> unat n"
proof -
  have "bulk_compress Z data level = Some frame"
    using frame by (simp add: compress_def result_simps split: if_splits)
  from lib [unfolded zstd_frames_decode_def, rule_format, OF this]
  obtain d where d: "decoder_new Z frame = Some d"
    and accepts: "\<And>k. 10 \<le> k \<Longrightarrow> k \<le> 31 \<Longrightarrow> length data \<le> 2 ^ k \<Longrightarrow>
      \<exists>d'. set_window_log_max Z d k = Some d' \<and> decoder_stream Z d' = (data, False)"
    and only: "\<And>k d' bs. set_window_log_max Z d k = Some d' \<Longrightarrow>
      decoder_stream Z d' = (bs, False) \<Longrightarrow> bs = data"
    by blast
  show ?thesis
  proof
    assume "decompress Z frame n = Ok out"
    then obtain d' where "set_window_log_max Z d (window_log_max n) = Some d'"
      "decoder_stream Z d' = (out, False)" "length out \<le> unat n"
      using d by (auto simp: decompress_Ok_iff)
    then show "out = data \<and> length data \<le> unat n" using only by blast
  next
    assume "out = data \<and> length data \<le> unat n"
    then show "decompress Z frame n = Ok out"
      using accepts [of "window_log_max n"] window_log_max_range [of n]
        fits_window [OF _ small, of n] d n
      by (auto simp: decompress_Ok_iff)
  qed
qed

theorem compress_decompress_witness:
  "decompress stored_zstd [1, 2, 3] 3 = Ok [1, 2, 3] \<and>
   decompress stored_zstd [1, 2, 3] 2 \<noteq> Ok [1, 2, 3]"
proof -
  have c: "compress stored_zstd [1, 2, 3] 3 = Ok [1, 2, 3]"
    by (simp add: compress_def stored_zstd_def)
  show ?thesis
    using compress_decompress [OF stored_zstd_frames_decode c, of 3 "[1, 2, 3]"]
      compress_decompress [OF stored_zstd_frames_decode c, of 2 "[1, 2, 3]"]
    by simp
qed

text \<open>C38: whatever the frame, a successful decompression returns at most \<open>max_output_size\<close> bytes, and
  asks for a decoder window between 1 KiB and 2 GiB that covers the output it may return.\<close>

theorem decompress_bounded:
  assumes "decompress Z data n = Ok out"
  shows "length out \<le> unat n \<and>
    (\<exists>d d' k. set_window_log_max Z d k = Some d' \<and> decoder_stream Z d' = (out, False) \<and>
       10 \<le> k \<and> k \<le> 31 \<and> min (unat n) (2 ^ 31) \<le> 2 ^ k)"
proof -
  have "min (unat n) (2 ^ 31) \<le> 2 ^ window_log_max n" by (intro fits_window) simp_all
  then show ?thesis
    using assms window_log_max_range [of n] unfolding decompress_Ok_iff by fastforce
qed

theorem decompress_bounded_witness:
  "decompress stored_zstd [7, 7] 1 \<noteq> Ok [7, 7] \<and> decompress stored_zstd [7] 1 = Ok [7]"
proof -
  have ok: "decompress stored_zstd [7] 1 = Ok [7]"
    using window_log_max_range [of 1] by (simp add: decompress_Ok_iff stored_zstd_def) blast
  have "decompress stored_zstd [7, 7] 1 = Ok [7, 7] \<Longrightarrow> False"
    using decompress_bounded [of stored_zstd "[7, 7]" 1 "[7, 7]"] by simp
  with ok show ?thesis by blast
qed

end
