(* ===== verification/Arrow_Types.thy ===== *)
theory Arrow_Types
  imports Errors
begin

text \<open>
  The Arrow schema types that \<^verbatim>\<open>reader.rs\<close> and \<^verbatim>\<open>writer.rs\<close> translate from and to, and the
  descriptors (\<^verbatim>\<open>NativeField\<close>, \<^verbatim>\<open>NativeDataType\<close> of the reader, \<^verbatim>\<open>InputField\<close>, \<^verbatim>\<open>InputDataType\<close>
  of the writer) that cross the boundary to Elixir. The reader's and the writer's structs have
  the same fields, so one datatype stands for both.
\<close>

section \<open>Arrow\<close>

datatype time_unit = Second | Millisecond | Microsecond | Nanosecond

text \<open>
  The types the sources name; every other Arrow type (intervals, unions, dictionaries, maps,
  views, run-end encoding) is an \<open>OtherType\<close>, which both translations refuse.
\<close>

datatype data_type =
    NullType
  | Boolean
  | Int8 | Int16 | Int32 | Int64
  | UInt8 | UInt16 | UInt32 | UInt64
  | Float32 | Float64
  | Utf8 | LargeUtf8
  | Binary | LargeBinary
  | FixedSizeBinary int
  | Date32 | Date64
  | Time32 time_unit
  | Time64 time_unit
  | Timestamp time_unit "string option"
  | Duration time_unit
  | Decimal32 int int
  | Decimal64 int int
  | Decimal128 int int
  | Decimal256 int int
  | ListType field
  | LargeListType field
  | FixedSizeList field int
  | StructType "field list"
  | OtherType string
and field = Field (field_name: string) (field_data_type: data_type) (field_nullable: bool)

section \<open>Descriptors\<close>

datatype native_data_type =
    NativeDataType
      (dt_kind: atom)
      (dt_bit_width: "int option")
      (dt_signed: "bool option")
      (dt_unit: "atom option")
      (dt_timezone: "string option")
      (dt_precision: "int option")
      (dt_scale: "int option")
      (dt_length: "int option")
      (dt_children: "native_field list")
and native_field =
    NativeField (nf_name: string) (nf_nullable: bool) (nf_data_type: native_data_type)

type_synonym input_data_type = native_data_type
type_synonym input_field = native_field

end
