(* ===== verification/Arrow_Schema.thy ===== *)
theory Arrow_Schema
  imports Arrow_Types
begin

text \<open>
  The two schema translations: \<^verbatim>\<open>native_field\<close> of \<^verbatim>\<open>reader.rs\<close> from Arrow to the descriptors, and
  \<^verbatim>\<open>arrow_field\<close> of \<^verbatim>\<open>writer.rs\<close> from the descriptors to Arrow. The theorems say that a
  schema that was read can be written back, and which writable schemas can be read.
\<close>

section \<open>The reader: Arrow to descriptors\<close>

definition simple_type :: "atom \<Rightarrow> native_data_type" where
  "simple_type kind = NativeDataType kind None None None None None None None []"

definition integer_type :: "int \<Rightarrow> bool \<Rightarrow> native_data_type" where
  "integer_type bit_width is_signed =
     NativeDataType ''integer'' (Some bit_width) (Some is_signed) None None None None None []"

definition float_type :: "int \<Rightarrow> native_data_type" where
  "float_type bit_width =
     NativeDataType ''float'' (Some bit_width) None None None None None None []"

definition time_unit_atom :: "time_unit \<Rightarrow> atom" where
  "time_unit_atom unit =
     (case unit of Second \<Rightarrow> ''second'' | Millisecond \<Rightarrow> ''millisecond''
      | Microsecond \<Rightarrow> ''microsecond'' | Nanosecond \<Rightarrow> ''nanosecond'')"

definition time_type :: "time_unit \<Rightarrow> int \<Rightarrow> native_data_type" where
  "time_type unit bit_width =
     NativeDataType ''time'' (Some bit_width) None (Some (time_unit_atom unit)) None None None
       None []"

definition decimal_type :: "int \<Rightarrow> int \<Rightarrow> int \<Rightarrow> native_data_type" where
  "decimal_type bit_width precision scale =
     NativeDataType ''decimal'' (Some bit_width) None None None (Some precision) (Some scale)
       None []"

definition nested_type :: "atom \<Rightarrow> native_field list \<Rightarrow> native_data_type" where
  "nested_type kind children = NativeDataType kind None None None None None None None children"

definition with_length :: "int \<Rightarrow> native_data_type \<Rightarrow> native_data_type" where
  "with_length l t =
     NativeDataType (dt_kind t) (dt_bit_width t) (dt_signed t) (dt_unit t) (dt_timezone t)
       (dt_precision t) (dt_scale t) (Some l) (dt_children t)"

definition with_unit :: "time_unit \<Rightarrow> native_data_type \<Rightarrow> native_data_type" where
  "with_unit u t =
     NativeDataType (dt_kind t) (dt_bit_width t) (dt_signed t) (Some (time_unit_atom u))
       (dt_timezone t) (dt_precision t) (dt_scale t) (dt_length t) (dt_children t)"

definition with_timezone :: "string option \<Rightarrow> native_data_type \<Rightarrow> native_data_type" where
  "with_timezone z t =
     NativeDataType (dt_kind t) (dt_bit_width t) (dt_signed t) (dt_unit t) z
       (dt_precision t) (dt_scale t) (dt_length t) (dt_children t)"

definition unsupported_read_type :: native_failure where
  "unsupported_read_type =
     failure_new Unsupported OpReaderOpen ''Parquet schema contains an unsupported logical type''"

fun native_field :: "field \<Rightarrow> native_field native_result"
  and native_data_type :: "data_type \<Rightarrow> native_data_type native_result" where
  "native_field (Field name data_type nullable) =
     and_then (native_data_type data_type) (\<lambda>t. Ok (NativeField name nullable t))"
| "native_data_type data_type =
     (case data_type of
        NullType \<Rightarrow> Ok (simple_type ''null'')
      | Boolean \<Rightarrow> Ok (simple_type ''boolean'')
      | Int8 \<Rightarrow> Ok (integer_type 8 True)
      | Int16 \<Rightarrow> Ok (integer_type 16 True)
      | Int32 \<Rightarrow> Ok (integer_type 32 True)
      | Int64 \<Rightarrow> Ok (integer_type 64 True)
      | UInt8 \<Rightarrow> Ok (integer_type 8 False)
      | UInt16 \<Rightarrow> Ok (integer_type 16 False)
      | UInt32 \<Rightarrow> Ok (integer_type 32 False)
      | UInt64 \<Rightarrow> Ok (integer_type 64 False)
      | Float32 \<Rightarrow> Ok (float_type 32)
      | Float64 \<Rightarrow> Ok (float_type 64)
      | Utf8 \<Rightarrow> Ok (simple_type ''utf8'')
      | LargeUtf8 \<Rightarrow> Ok (simple_type ''utf8'')
      | Binary \<Rightarrow> Ok (simple_type ''binary'')
      | LargeBinary \<Rightarrow> Ok (simple_type ''binary'')
      | FixedSizeBinary l \<Rightarrow>
          if 0 < l then Ok (with_length l (simple_type ''fixed_binary''))
          else Err unsupported_read_type
      | Date32 \<Rightarrow> Ok (simple_type ''date32'')
      | Date64 \<Rightarrow> Ok (simple_type ''date64'')
      | Time32 unit \<Rightarrow>
          if unit = Second \<or> unit = Millisecond then Ok (time_type unit 32)
          else Err unsupported_read_type
      | Time64 unit \<Rightarrow>
          if unit = Microsecond \<or> unit = Nanosecond then Ok (time_type unit 64)
          else Err unsupported_read_type
      | Timestamp unit timezone \<Rightarrow>
          Ok (with_timezone timezone (with_unit unit (simple_type ''timestamp'')))
      | Duration unit \<Rightarrow> Ok (with_unit unit (simple_type ''duration''))
      | Decimal32 precision scale \<Rightarrow> Ok (decimal_type 32 precision scale)
      | Decimal64 precision scale \<Rightarrow> Ok (decimal_type 64 precision scale)
      | Decimal128 precision scale \<Rightarrow> Ok (decimal_type 128 precision scale)
      | Decimal256 precision scale \<Rightarrow> Ok (decimal_type 256 precision scale)
      | ListType child \<Rightarrow>
          and_then (native_field child) (\<lambda>f. Ok (nested_type ''list'' [f]))
      | LargeListType child \<Rightarrow>
          and_then (native_field child) (\<lambda>f. Ok (nested_type ''large_list'' [f]))
      | FixedSizeList field l \<Rightarrow>
          if 0 < l
          then and_then (native_field field) (\<lambda>f.
                 Ok (with_length l (nested_type ''fixed_list'' [f])))
          else Err unsupported_read_type
      | StructType members \<Rightarrow>
          and_then (collect_results (map native_field members)) (\<lambda>fs.
            Ok (nested_type ''struct'' fs))
      | OtherType name \<Rightarrow> Err unsupported_read_type)"

declare native_data_type.simps [simp del]

section \<open>The writer: descriptors to Arrow\<close>

definition time_unit_of :: "atom \<Rightarrow> time_unit option" where
  "time_unit_of a =
     (if a = ''second'' then Some Second
      else if a = ''millisecond'' then Some Millisecond
      else if a = ''microsecond'' then Some Microsecond
      else if a = ''nanosecond'' then Some Nanosecond
      else None)"

definition unsupported_write_type :: native_failure where
  "unsupported_write_type =
     failure_new Unsupported OpParquetWriterOpen ''schema contains an unsupported write type''"

definition arrow_integer :: "int option \<Rightarrow> bool option \<Rightarrow> data_type native_result" where
  "arrow_integer width is_signed =
     (if is_signed = Some True then
        (if width = Some 8 then Ok Int8
         else if width = Some 16 then Ok Int16
         else if width = Some 32 then Ok Int32
         else if width = Some 64 then Ok Int64
         else Err unsupported_write_type)
      else if is_signed = Some False then
        (if width = Some 8 then Ok UInt8
         else if width = Some 16 then Ok UInt16
         else if width = Some 32 then Ok UInt32
         else if width = Some 64 then Ok UInt64
         else Err unsupported_write_type)
      else Err unsupported_write_type)"

definition arrow_time :: "int option \<Rightarrow> time_unit option \<Rightarrow> data_type native_result" where
  "arrow_time width unit =
     (case unit of
        None \<Rightarrow> Err unsupported_write_type
      | Some u \<Rightarrow>
          if width = Some 32 \<and> (u = Second \<or> u = Millisecond) then Ok (Time32 u)
          else if width = Some 64 \<and> (u = Microsecond \<or> u = Nanosecond) then Ok (Time64 u)
          else Err unsupported_write_type)"

definition arrow_decimal ::
  "int option \<Rightarrow> int option \<Rightarrow> int option \<Rightarrow> data_type native_result" where
  "arrow_decimal width precision scale =
     (case (precision, scale) of
        (Some p, Some s) \<Rightarrow>
          if width = Some 32 then Ok (Decimal32 p s)
          else if width = Some 64 then Ok (Decimal64 p s)
          else if width = Some 128 then Ok (Decimal128 p s)
          else if width = Some 256 then Ok (Decimal256 p s)
          else Err unsupported_write_type
      | _ \<Rightarrow> Err unsupported_write_type)"

fun arrow_field :: "input_field \<Rightarrow> field native_result"
  and arrow_data_type :: "input_data_type \<Rightarrow> data_type native_result" where
  "arrow_field (NativeField name nullable data_type) =
     and_then (arrow_data_type data_type) (\<lambda>t. Ok (Field name t nullable))"
| "arrow_data_type (NativeDataType kind width is_signed unit tz precision scale len children) =
     (if kind = ''null'' then Ok NullType
      else if kind = ''boolean'' then Ok Boolean
      else if kind = ''integer'' then arrow_integer width is_signed
      else if kind = ''float'' then
        (if width = Some 32 then Ok Float32
         else if width = Some 64 then Ok Float64
         else Err unsupported_write_type)
      else if kind = ''utf8'' then Ok Utf8
      else if kind = ''binary'' then Ok Binary
      else if kind = ''fixed_binary'' then
        ok_or (map_option FixedSizeBinary len) unsupported_write_type
      else if kind = ''date32'' then Ok Date32
      else if kind = ''date64'' then Ok Date64
      else if kind = ''time'' then arrow_time width (Option.bind unit time_unit_of)
      else if kind = ''timestamp'' then
        ok_or (map_option (\<lambda>u. Timestamp u tz) (Option.bind unit time_unit_of))
          unsupported_write_type
      else if kind = ''duration'' then
        ok_or (map_option Duration (Option.bind unit time_unit_of)) unsupported_write_type
      else if kind = ''decimal'' then arrow_decimal width precision scale
      else if kind = ''list'' \<or> kind = ''large_list'' \<or> kind = ''fixed_list'' then
        (case children of
           [] \<Rightarrow> Err unsupported_write_type
         | child # _ \<Rightarrow>
             and_then (arrow_field child) (\<lambda>field.
               if kind = ''list'' then Ok (ListType field)
               else if kind = ''large_list'' then Ok (LargeListType field)
               else ok_or (map_option (FixedSizeList field) len) unsupported_write_type))
      else if kind = ''struct'' then
        and_then (collect_results (map arrow_field children)) (\<lambda>members. Ok (StructType members))
      else Err unsupported_write_type)"

declare arrow_data_type.simps [simp del]

section \<open>Reading back what can be written\<close>

lemma collect_results_transfer:
  assumes "collect_results (map f xs) = Ok ys"
    and "\<And>x y. x \<in> set xs \<Longrightarrow> f x = Ok y \<Longrightarrow> g y = Ok (h x)"
  shows "collect_results (map g ys) = Ok (map h xs)"
  using assms
proof (induction xs arbitrary: ys)
  case (Cons x xs)
  then obtain y zs where "ys = y # zs" "f x = Ok y" "collect_results (map f xs) = Ok zs"
    by (auto simp: result_simps)
  moreover have "g y = Ok (h x)" using Cons.prems(2) calculation(2) by simp
  moreover have "collect_results (map g zs) = Ok (map h xs)"
    using Cons.IH [OF calculation(3)] Cons.prems(2) by simp
  ultimately show ?case by simp
qed simp

lemma collect_results_self:
  assumes "collect_results (map f xs) = Ok ys"
    and "\<And>x y. x \<in> set xs \<Longrightarrow> f x = Ok y \<Longrightarrow> f (h x) = Ok y"
  shows "collect_results (map f (map h xs)) = Ok ys"
  using assms
proof (induction xs arbitrary: ys)
  case (Cons x xs)
  then obtain y zs where "ys = y # zs" "f x = Ok y" "collect_results (map f xs) = Ok zs"
    by (auto simp: result_simps)
  moreover have "f (h x) = Ok y" using Cons.prems(2) calculation(2) by simp
  moreover have "collect_results (map f (map h xs)) = Ok zs"
    using Cons.IH [OF calculation(3)] Cons.prems(2) by simp
  ultimately show ?case by simp
qed simp

text \<open>The descriptors do not tell the large string and binary types from the ordinary ones.\<close>

fun narrow_field :: "field \<Rightarrow> field" and narrow_type :: "data_type \<Rightarrow> data_type" where
  "narrow_field (Field name t nullable) = Field name (narrow_type t) nullable"
| "narrow_type t =
     (case t of
        LargeUtf8 \<Rightarrow> Utf8
      | LargeBinary \<Rightarrow> Binary
      | ListType child \<Rightarrow> ListType (narrow_field child)
      | LargeListType child \<Rightarrow> LargeListType (narrow_field child)
      | FixedSizeList child l \<Rightarrow> FixedSizeList (narrow_field child) l
      | StructType members \<Rightarrow> StructType (map narrow_field members)
      | _ \<Rightarrow> t)"

declare narrow_type.simps [simp del]

lemma time_unit_of_atom [simp]: "time_unit_of (time_unit_atom u) = Some u"
  by (cases u) (simp_all add: time_unit_of_def time_unit_atom_def)

lemmas descriptor_defs =
  simple_type_def integer_type_def float_type_def time_type_def decimal_type_def
  nested_type_def with_length_def with_unit_def with_timezone_def

lemmas arrow_defs = arrow_integer_def arrow_time_def arrow_decimal_def

lemma read_write_induct:
  shows "native_field f = Ok d \<Longrightarrow>
      arrow_field d = Ok (narrow_field f) \<and> native_field (narrow_field f) = Ok d"
    and "native_data_type t = Ok e \<Longrightarrow>
      arrow_data_type e = Ok (narrow_type t) \<and> native_data_type (narrow_type t) = Ok e"
proof (induction f and t arbitrary: d and e rule: native_field_native_data_type.induct)
  case (1 name t nullable)
  then show ?case by (auto simp: result_simps)
next
  case (2 t)
  show ?case
  proof (cases t)
    case (StructType members)
    with "2.prems" obtain ds where ds: "collect_results (map native_field members) = Ok ds"
      and e: "e = nested_type ''struct'' ds"
      by (auto simp: native_data_type.simps [of "StructType members"] result_simps)
    note ih = "2.IH"(4) [OF StructType]
    have "collect_results (map arrow_field ds) = Ok (map narrow_field members)"
      by (rule collect_results_transfer [OF ds]) (use ih in blast)
    moreover have "collect_results (map native_field (map narrow_field members)) = Ok ds"
      by (rule collect_results_self [OF ds]) (use ih in blast)
    ultimately show ?thesis
      using StructType e
      by (simp add: narrow_type.simps [of "StructType members"] native_data_type.simps [of "StructType _"]
          arrow_data_type.simps descriptor_defs)
  qed (use "2.IH" "2.prems" in \<open>auto simp: native_data_type.simps narrow_type.simps
      arrow_data_type.simps descriptor_defs arrow_defs result_simps split: if_splits\<close>)
qed

section \<open>Which written schemas can be read\<close>

fun positive_lengths :: "field \<Rightarrow> bool" and positive_type_lengths :: "data_type \<Rightarrow> bool" where
  "positive_lengths (Field name t nullable) = positive_type_lengths t"
| "positive_type_lengths t =
     (case t of
        FixedSizeBinary l \<Rightarrow> 0 < l
      | FixedSizeList child l \<Rightarrow> 0 < l \<and> positive_lengths child
      | ListType child \<Rightarrow> positive_lengths child
      | LargeListType child \<Rightarrow> positive_lengths child
      | StructType members \<Rightarrow> list_all positive_lengths members
      | _ \<Rightarrow> True)"

declare positive_type_lengths.simps [simp del]

lemma collect_results_ex:
  "(\<exists>ys. collect_results (map f xs) = Ok ys) \<longleftrightarrow> list_all (\<lambda>x. \<exists>y. f x = Ok y) xs"
  by (induction xs) (auto simp: result_simps)

lemma list_all_transfer:
  assumes "collect_results (map f xs) = Ok ys"
    and "\<And>x y. x \<in> set xs \<Longrightarrow> f x = Ok y \<Longrightarrow> P y"
  shows "list_all P ys"
  unfolding list_all_iff
proof
  fix y
  assume "y \<in> set ys"
  then have "Ok y \<in> set (map f xs)" using assms(1) by (simp add: collect_results_Ok_iff)
  then show "P y" using assms(2) by auto
qed

definition leaf_type :: "data_type \<Rightarrow> bool" where
  "leaf_type t =
     (case t of
        ListType _ \<Rightarrow> False | LargeListType _ \<Rightarrow> False | FixedSizeList _ _ \<Rightarrow> False
      | StructType _ \<Rightarrow> False | LargeUtf8 \<Rightarrow> False | LargeBinary \<Rightarrow> False | OtherType _ \<Rightarrow> False
      | Time32 u \<Rightarrow> u = Second \<or> u = Millisecond
      | Time64 u \<Rightarrow> u = Microsecond \<or> u = Nanosecond
      | _ \<Rightarrow> True)"

lemma leaf_type_simps [simp]:
  "leaf_type NullType" "leaf_type Boolean" "leaf_type Float32" "leaf_type Float64" "leaf_type Utf8"
  "leaf_type Binary" "leaf_type (FixedSizeBinary l)" "leaf_type Date32" "leaf_type Date64"
  "leaf_type (Timestamp u z)" "leaf_type (Duration u)"
  by (simp_all add: leaf_type_def)

lemma arrow_scalar_leaf:
  "arrow_integer w s = Ok t \<Longrightarrow> leaf_type t"
  "arrow_time w u = Ok t \<Longrightarrow> leaf_type t"
  "arrow_decimal w p q = Ok t \<Longrightarrow> leaf_type t"
  by (auto simp: arrow_defs leaf_type_def split: if_splits option.splits)

lemma arrow_leaf:
  assumes "arrow_data_type (NativeDataType kind width s unit tz p q len children) = Ok t"
    and "kind \<notin> {''list'', ''large_list'', ''fixed_list'', ''struct''}"
  shows "leaf_type t"
proof -
  have if_ok: "(if b then x else y) = Ok t \<Longrightarrow> (b \<Longrightarrow> x = Ok t \<Longrightarrow> leaf_type t) \<Longrightarrow>
      (\<not> b \<Longrightarrow> y = Ok t \<Longrightarrow> leaf_type t) \<Longrightarrow> leaf_type t" for b x and y :: "data_type native_result"
    by (cases b) auto
  show ?thesis
    using assms(1) unfolding arrow_data_type.simps
    apply (elim if_ok)
    using assms(2) by (auto simp: result_simps dest: arrow_scalar_leaf)
qed

lemma leaf_types:
  assumes "leaf_type t"
  shows "narrow_type t = t \<and> ((\<exists>e'. native_data_type t = Ok e') \<longleftrightarrow> positive_type_lengths t)"
  using assms
  by (cases t) (simp_all add: leaf_type_def narrow_type.simps positive_type_lengths.simps
      native_data_type.simps)

lemma arrow_list:
  assumes "arrow_data_type (NativeDataType kind width s unit tz p q len children) = Ok t"
    and "kind = ''list'' \<or> kind = ''large_list'' \<or> kind = ''fixed_list''"
  obtains child rest field where "children = child # rest" "arrow_field child = Ok field"
    "t = ListType field \<or> t = LargeListType field \<or> (\<exists>l. t = FixedSizeList field l)"
  using assms
  by (cases children; elim disjE) (simp_all add: arrow_data_type.simps result_simps, auto)

lemma arrow_struct:
  "arrow_data_type (NativeDataType ''struct'' width s unit tz p q len children) =
     and_then (collect_results (map arrow_field children)) (\<lambda>members. Ok (StructType members))"
  by (simp add: arrow_data_type.simps)

lemma write_read_induct:
  shows "arrow_field d = Ok f \<Longrightarrow>
      narrow_field f = f \<and> ((\<exists>d'. native_field f = Ok d') \<longleftrightarrow> positive_lengths f)"
    and "arrow_data_type e = Ok t \<Longrightarrow>
      narrow_type t = t \<and> ((\<exists>e'. native_data_type t = Ok e') \<longleftrightarrow> positive_type_lengths t)"
proof (induction d and e arbitrary: f and t rule: arrow_field_arrow_data_type.induct)
  case (1 name nullable data_type)
  then show ?case by (auto simp: result_simps)
next
  case (2 kind width is_signed unit tz precision scale len children)
  note simps = narrow_type.simps positive_type_lengths.simps native_data_type.simps arrow_defs
    result_simps
  consider (list) "kind = ''list'' \<or> kind = ''large_list'' \<or> kind = ''fixed_list''"
    | (struct) "kind = ''struct''"
    | (other) "kind \<notin> {''list'', ''large_list'', ''fixed_list'', ''struct''}"
    by blast
  then show ?case
  proof cases
    case list
    obtain child rest field where c: "children = child # rest"
      and f: "arrow_field child = Ok field"
      and t: "t = ListType field \<or> t = LargeListType field \<or> (\<exists>l. t = FixedSizeList field l)"
      by (rule arrow_list [OF "2.prems" list])
    have "narrow_field field = field \<and>
        ((\<exists>d'. native_field field = Ok d') \<longleftrightarrow> positive_lengths field)"
      by (rule "2.IH"(1)) (use list c f in auto)
    then show ?thesis using t by (auto simp: simps split: if_splits)
  next
    case struct
    with "2.prems" obtain ms where ms: "collect_results (map arrow_field children) = Ok ms"
      and t: "t = StructType ms"
      by (auto simp: arrow_struct result_simps)
    have ih: "narrow_field y = y \<and> ((\<exists>d'. native_field y = Ok d') \<longleftrightarrow> positive_lengths y)"
      if "x \<in> set children" "arrow_field x = Ok y" for x y
      by (rule "2.IH"(2)) (use struct that in auto)
    have "list_all (\<lambda>y. narrow_field y = y \<and>
        ((\<exists>d'. native_field y = Ok d') \<longleftrightarrow> positive_lengths y)) ms"
      by (rule list_all_transfer [OF ms]) (rule ih)
    then have "map narrow_field ms = ms"
      and "(\<exists>ds. collect_results (map native_field ms) = Ok ds) \<longleftrightarrow> list_all positive_lengths ms"
      unfolding collect_results_ex by (auto simp: list_all_iff map_idI)
    then show ?thesis using t by (auto simp: simps)
  next
    case other
    then have "leaf_type t" by (intro arrow_leaf [OF "2.prems"]) simp
    then show ?thesis by (rule leaf_types)
  qed
qed

section \<open>Properties\<close>

text \<open>C31: a schema that was read can be written back: the descriptor of a field gives an Arrow field
  again, the same up to the large string and binary types, and that field has the same
  descriptor.\<close>

theorem read_schema_writes_back:
  assumes "native_field f = Ok d"
  shows "arrow_field d = Ok (narrow_field f) \<and> native_field (narrow_field f) = Ok d"
  using assms by (rule read_write_induct(1))

text \<open>A nested field for the examples: a nullable struct of a fixed-size list of decimals and a large
  string.\<close>

definition sample_field :: field where
  "sample_field =
     Field ''row''
       (StructType
          [Field ''prices'' (FixedSizeList (Field ''item'' (Decimal128 20 4) True) 3) False,
           Field ''note'' LargeUtf8 True])
       True"

definition sample_descriptor :: native_field where
  "sample_descriptor =
     NativeField ''row'' True
       (nested_type ''struct''
          [NativeField ''prices'' False
             (with_length 3 (nested_type ''fixed_list''
                [NativeField ''item'' True (decimal_type 128 20 4)])),
           NativeField ''note'' True (simple_type ''utf8'')])"

lemma sample_read: "native_field sample_field = Ok sample_descriptor"
  by (simp add: sample_field_def sample_descriptor_def native_data_type.simps)

theorem read_schema_writes_back_witness:
  "arrow_field sample_descriptor = Ok (narrow_field sample_field) \<and>
   narrow_field sample_field \<noteq> sample_field"
  using read_schema_writes_back [OF sample_read]
  by (simp add: sample_field_def narrow_type.simps)

text \<open>C30: a schema the writer accepts keeps its Arrow type through a file: it can be read exactly when
  every fixed length in it is positive, and its descriptor then gives the same Arrow field.\<close>

theorem written_schema_reads_back:
  assumes "arrow_field d = Ok f"
  shows "(\<exists>d'. native_field f = Ok d' \<and> arrow_field d' = Ok f) \<longleftrightarrow> positive_lengths f"
proof -
  have f: "narrow_field f = f" and r: "(\<exists>d'. native_field f = Ok d') \<longleftrightarrow> positive_lengths f"
    using write_read_induct(1) [OF assms] by auto
  have "arrow_field d' = Ok f" if "native_field f = Ok d'" for d'
    using read_write_induct(1) [OF that] f by simp
  with r show ?thesis by blast
qed

theorem written_schema_reads_back_witness:
  "arrow_field (NativeField ''id'' False (with_length 0 (simple_type ''fixed_binary''))) =
     Ok (Field ''id'' (FixedSizeBinary 0) False) \<and>
   \<not> (\<exists>d'. native_field (Field ''id'' (FixedSizeBinary 0) False) = Ok d' \<and>
        arrow_field d' = Ok (Field ''id'' (FixedSizeBinary 0) False))"
proof -
  have w: "arrow_field (NativeField ''id'' False (with_length 0 (simple_type ''fixed_binary''))) =
     Ok (Field ''id'' (FixedSizeBinary 0) False)"
    by (simp add: with_length_def simple_type_def arrow_data_type.simps)
  show ?thesis
    using written_schema_reads_back [OF w] w by (simp add: positive_type_lengths.simps)
qed

end
