(* ===== verification/Iterators.thy ===== *)
theory Iterators
  imports Main
begin

text \<open>
  The iterator methods the sources use on slices: \<^verbatim>\<open>position\<close>, and what sorting and the
  membership test give for the index lists of a projection.
\<close>

fun position :: "('a \<Rightarrow> bool) \<Rightarrow> 'a list \<Rightarrow> nat option" where
  "position P [] = None"
| "position P (x # xs) = (if P x then Some 0 else map_option Suc (position P xs))"

lemma position_Some_iff:
  "position P xs = Some i \<longleftrightarrow> i < length xs \<and> P (xs ! i) \<and> (\<forall>j < i. \<not> P (xs ! j))"
proof (induction xs arbitrary: i)
  case (Cons x xs)
  then show ?case by (cases i) (auto simp: nth_Cons split: nat.splits)
qed simp

lemma position_None_iff: "position P xs = None \<longleftrightarrow> (\<forall>x \<in> set xs. \<not> P x)"
  by (induction xs) auto

lemma position_exists: "x \<in> set xs \<Longrightarrow> P x \<Longrightarrow> \<exists>i. position P xs = Some i"
  using position_None_iff [of P xs] by fastforce

lemma position_distinct:
  assumes "distinct xs" and "i < length xs"
  shows "position (\<lambda>y. y = xs ! i) xs = Some i"
  using assms by (auto simp: position_Some_iff nth_eq_iff_index_eq)

lemma position_nth:
  "position (\<lambda>y. y = x) xs = Some i \<Longrightarrow> i < length xs \<and> xs ! i = x"
  by (simp add: position_Some_iff)

end
