(* ===== verification/Arrow_Arrays.thy ===== *)
theory Arrow_Arrays
  imports Complex_Main Arrow_Types Iterators "HOL-Library.List_Lexorder" "HOL-Library.Char_ord"
begin

text \<open>
  Arrays and record batches as the sources see them: a data type and, for each row, a slot that
  is null or holds a value. The array classes of the \<^verbatim>\<open>arrow\<close> crate are third-party; a
  \<^verbatim>\<open>downcast_ref\<close> succeeds exactly when the array's data type is the one of the class.
\<close>

section \<open>Floating point\<close>

text \<open>
  The values of \<^verbatim>\<open>f64\<close> with the comparisons of IEEE 754: nothing is ordered with or equal to a
  NaN, and the two zeros, of which \<open>Finite 0\<close> is the positive one, are equal to each other. No
  source distinguishes one NaN from another.
\<close>

datatype f64 = NaN | NegInfinity | Finite rat | NegZero | PosInfinity

definition is_finite :: "f64 \<Rightarrow> bool" where
  "is_finite x = (case x of Finite _ \<Rightarrow> True | NegZero \<Rightarrow> True | _ \<Rightarrow> False)"

text \<open>The number a finite value denotes.\<close>

definition f64_number :: "f64 \<Rightarrow> rat" where
  "f64_number x = (case x of Finite q \<Rightarrow> q | _ \<Rightarrow> 0)"

definition f64_less :: "f64 \<Rightarrow> f64 \<Rightarrow> bool" where
  "f64_less x y \<longleftrightarrow>
     x \<noteq> NaN \<and> y \<noteq> NaN \<and>
     (if is_finite x \<and> is_finite y then f64_number x < f64_number y
      else x \<noteq> y \<and> (x = NegInfinity \<or> y = PosInfinity))"

definition f64_eq :: "f64 \<Rightarrow> f64 \<Rightarrow> bool" where
  "f64_eq x y \<longleftrightarrow>
     x \<noteq> NaN \<and> y \<noteq> NaN \<and>
     (if is_finite x \<and> is_finite y then f64_number x = f64_number y else x = y)"

definition f64_le :: "f64 \<Rightarrow> f64 \<Rightarrow> bool" where
  "f64_le x y \<longleftrightarrow> f64_less x y \<or> f64_eq x y"

lemma f64_signed_zero: "f64_eq NegZero (Finite 0)" "NegZero \<noteq> Finite 0" "\<not> f64_less NegZero (Finite 0)"
  by (simp_all add: f64_eq_def f64_less_def is_finite_def f64_number_def)

lemma f64_NaN [simp]:
  "\<not> f64_less x NaN" "\<not> f64_le x NaN" "\<not> f64_eq x NaN"
  "\<not> f64_less NaN x" "\<not> f64_le NaN x" "\<not> f64_eq NaN x"
  by (simp_all add: f64_le_def f64_less_def f64_eq_def)

lemma f64_trichotomy:
  "x \<noteq> NaN \<Longrightarrow> y \<noteq> NaN \<Longrightarrow> f64_less x y \<or> f64_eq x y \<or> f64_less y x"
  by (cases x; cases y) (auto simp: f64_eq_def f64_less_def is_finite_def f64_number_def)

section \<open>Slots, arrays and batches\<close>

datatype slot =
    NullSlot
  | IntSlot int
  | FloatSlot f64
  | BoolSlot bool
  | TextSlot string
  | BytesSlot bytes
  | ListSlot "slot list"
  | StructSlot "slot list"

record array =
  array_type :: data_type
  array_slots :: "slot list"

record record_batch =
  batch_fields :: "field list"
  batch_columns :: "array list"
  batch_rows :: nat

text \<open>Every column has the declared type of its field and one slot for each row.\<close>

definition batch_ok :: "record_batch \<Rightarrow> bool" where
  "batch_ok b \<longleftrightarrow>
     length (batch_columns b) = length (batch_fields b) \<and>
     (\<forall>i < length (batch_columns b).
        array_type (batch_columns b ! i) = field_data_type (batch_fields b ! i) \<and>
        length (array_slots (batch_columns b ! i)) = batch_rows b)"

section \<open>The kernels the code calls\<close>

text \<open>
  \<^verbatim>\<open>filter_record_batch\<close> and \<^verbatim>\<open>RecordBatch::project\<close>. \<open>kernels_ok\<close> is their documented
  behaviour: the filter keeps the rows whose selection entry is true, dropping false and null ones,
  and the projection picks columns by index and refuses an index out of range.
\<close>

record arrow_kernels =
  filter_record_batch :: "record_batch \<Rightarrow> bool option list \<Rightarrow> record_batch option"
  project_batch :: "record_batch \<Rightarrow> nat list \<Rightarrow> record_batch option"
  memory_size :: "record_batch \<Rightarrow> nat"

definition keep_rows :: "bool option list \<Rightarrow> 'a list \<Rightarrow> 'a list" where
  "keep_rows selection xs = map snd (filter (\<lambda>p. fst p = Some True) (zip selection xs))"

definition filtered_batch :: "record_batch \<Rightarrow> bool option list \<Rightarrow> record_batch" where
  "filtered_batch b selection =
     b\<lparr>batch_columns := map (\<lambda>a. a\<lparr>array_slots := keep_rows selection (array_slots a)\<rparr>)
         (batch_columns b),
       batch_rows := length (filter (\<lambda>m. m = Some True) selection)\<rparr>"

definition projected_batch :: "record_batch \<Rightarrow> nat list \<Rightarrow> record_batch" where
  "projected_batch b indices =
     b\<lparr>batch_fields := map (\<lambda>i. batch_fields b ! i) indices,
       batch_columns := map (\<lambda>i. batch_columns b ! i) indices\<rparr>"

definition kernels_ok :: "arrow_kernels \<Rightarrow> bool" where
  "kernels_ok K \<longleftrightarrow>
     (\<forall>b selection. batch_ok b \<longrightarrow> length selection = batch_rows b \<longrightarrow>
        filter_record_batch K b selection = Some (filtered_batch b selection)) \<and>
     (\<forall>b indices. batch_ok b \<longrightarrow>
        project_batch K b indices =
          (if list_all (\<lambda>i. i < length (batch_columns b)) indices
           then Some (projected_batch b indices) else None))"

text \<open>Kernels that are exactly that, with a size of one byte for each slot.\<close>

definition plain_kernels :: arrow_kernels where
  "plain_kernels =
     \<lparr>filter_record_batch =
        (\<lambda>b selection. if length selection = batch_rows b then Some (filtered_batch b selection) else None),
      project_batch =
        (\<lambda>b indices. if list_all (\<lambda>i. i < length (batch_columns b)) indices
                      then Some (projected_batch b indices) else None),
      memory_size = (\<lambda>b. length (batch_columns b) * batch_rows b)\<rparr>"

lemma plain_kernels_ok: "kernels_ok plain_kernels"
  by (simp add: kernels_ok_def plain_kernels_def)

lemma keep_rows_simps [simp]:
  "keep_rows [] xs = []"
  "keep_rows ms [] = []"
  "keep_rows (m # ms) (x # xs) = (if m = Some True then x # keep_rows ms xs else keep_rows ms xs)"
  by (simp_all add: keep_rows_def)

lemma keep_rows_length:
  "length ms = length xs \<Longrightarrow> length (keep_rows ms xs) = length (filter (\<lambda>m. m = Some True) ms)"
  by (induction ms xs rule: list_induct2) auto

lemma keep_rows_map: "keep_rows ms (map f xs) = map f (keep_rows ms xs)"
proof (induction ms arbitrary: xs)
  case (Cons m ms)
  then show ?case by (cases xs) simp_all
qed simp

lemma zip_conv_nth:
  "length ms = length xs \<Longrightarrow> zip ms xs = map (\<lambda>j. (ms ! j, xs ! j)) [0..<length xs]"
  by (intro nth_equalityI) simp_all

lemma keep_rows_nth:
  "length ms = length xs \<Longrightarrow>
     keep_rows ms xs = map (\<lambda>j. xs ! j) (filter (\<lambda>j. ms ! j = Some True) [0..<length xs])"
  by (simp add: keep_rows_def zip_conv_nth filter_map o_def)

lemma count_kept:
  "length (filter (\<lambda>m. m = Some True) ms) =
     length (filter (\<lambda>j. ms ! j = Some True) [0..<length ms])"
proof -
  have "filter (\<lambda>m. m = Some True) ms = filter (\<lambda>m. m = Some True) (map (\<lambda>j. ms ! j) [0..<length ms])"
    by (simp add: map_nth)
  then show ?thesis by (simp add: filter_map o_def)
qed

lemma keep_rows_filter: "keep_rows (map (\<lambda>x. Some (P x)) xs) xs = filter P xs"
  by (induction xs) auto

lemma batch_ok_lengths:
  "batch_ok b \<Longrightarrow> length (batch_columns b) = length (batch_fields b)"
  by (simp add: batch_ok_def)

lemma batch_ok_nth:
  "batch_ok b \<Longrightarrow> i < length (batch_columns b) \<Longrightarrow>
     array_type (batch_columns b ! i) = field_data_type (batch_fields b ! i) \<and>
     length (array_slots (batch_columns b ! i)) = batch_rows b"
  unfolding batch_ok_def by blast

lemma batch_ok_intro:
  assumes "length (batch_columns b) = length (batch_fields b)"
    and "\<And>i. i < length (batch_columns b) \<Longrightarrow>
      array_type (batch_columns b ! i) = field_data_type (batch_fields b ! i) \<and>
      length (array_slots (batch_columns b ! i)) = batch_rows b"
  shows "batch_ok b"
  using assms unfolding batch_ok_def by blast

lemma batch_ok_filtered:
  assumes "batch_ok b" and "length selection = batch_rows b"
  shows "batch_ok (filtered_batch b selection)"
proof (rule batch_ok_intro)
  show "length (batch_columns (filtered_batch b selection)) =
      length (batch_fields (filtered_batch b selection))"
    using batch_ok_lengths [OF assms(1)] by (simp add: filtered_batch_def)
next
  fix i
  assume i: "i < length (batch_columns (filtered_batch b selection))"
  then have i': "i < length (batch_columns b)" by (simp add: filtered_batch_def)
  with batch_ok_nth [OF assms(1) this] assms(2)
  show "array_type (batch_columns (filtered_batch b selection) ! i) =
      field_data_type (batch_fields (filtered_batch b selection) ! i) \<and>
      length (array_slots (batch_columns (filtered_batch b selection) ! i)) =
      batch_rows (filtered_batch b selection)"
    by (simp add: filtered_batch_def keep_rows_length)
qed

lemma batch_ok_projected:
  assumes "batch_ok b" and "list_all (\<lambda>i. i < length (batch_columns b)) indices"
  shows "batch_ok (projected_batch b indices)"
proof (rule batch_ok_intro)
  fix j
  assume "j < length (batch_columns (projected_batch b indices))"
  then have "j < length indices" by (simp add: projected_batch_def)
  moreover from this have "indices ! j < length (batch_columns b)"
    using assms(2) by (simp add: list_all_length)
  ultimately show "array_type (batch_columns (projected_batch b indices) ! j) =
      field_data_type (batch_fields (projected_batch b indices) ! j) \<and>
      length (array_slots (batch_columns (projected_batch b indices) ! j)) =
      batch_rows (projected_batch b indices)"
    using batch_ok_nth [OF assms(1)] by (simp add: projected_batch_def)
qed (simp add: projected_batch_def)

end
