(* ===== verification/Predicates.thy ===== *)
theory Predicates
  imports Arrow_Arrays
begin

text \<open>
  The predicate of a reader (\<^verbatim>\<open>reader.rs\<close>): compiling it against the schema, the masks it gives
  on a column, and its application to a batch together with the projection.
\<close>

section \<open>Data\<close>

record native_literal =
  literal_kind :: atom
  literal_integer :: "int option"
  literal_float :: "f64 option"
  literal_string :: "string option"
  literal_boolean :: "bool option"

record native_predicate =
  np_column :: string
  np_operator :: atom
  np_literal :: native_literal

datatype predicate_operator = Gt | Gte | Lt | Lte | Eq

datatype predicate_literal =
    LitInteger int
  | LitFloat f64
  | LitUtf8 string
  | LitBoolean bool

datatype prune_kind = PruneInt32 | PruneInt64

record compiled_predicate =
  cp_column :: string
  column_index :: nat
  root_index :: nat
  cp_operator :: predicate_operator
  cp_literal :: predicate_literal
  cp_prune_kind :: "prune_kind option"

section \<open>Compilation\<close>

definition predicate_literal_error :: native_failure where
  "predicate_literal_error =
     failure_invalid OpReaderOpen ''predicate literal does not match the column type''"

definition integer_literal :: "native_literal \<Rightarrow> int native_result" where
  "integer_literal l =
     (if literal_kind l = ''integer'' then ok_or (literal_integer l) predicate_literal_error
      else Err predicate_literal_error)"

definition float_literal :: "native_literal \<Rightarrow> f64 native_result" where
  "float_literal l =
     (if literal_kind l = ''float''
      then ok_or (Option.bind (literal_float l) (\<lambda>v. if is_finite v then Some v else None))
             predicate_literal_error
      else Err predicate_literal_error)"

definition string_literal :: "native_literal \<Rightarrow> string native_result" where
  "string_literal l =
     (if literal_kind l = ''utf8'' then ok_or (literal_string l) predicate_literal_error
      else Err predicate_literal_error)"

definition boolean_literal :: "native_literal \<Rightarrow> bool native_result" where
  "boolean_literal l =
     (if literal_kind l = ''boolean'' then ok_or (literal_boolean l) predicate_literal_error
      else Err predicate_literal_error)"

definition parse_operator :: "atom \<Rightarrow> predicate_operator native_result" where
  "parse_operator a =
     (if a = ''gt'' then Ok Gt
      else if a = ''gte'' then Ok Gte
      else if a = ''lt'' then Ok Lt
      else if a = ''lte'' then Ok Lte
      else if a = ''eq'' then Ok Eq
      else Err (failure_invalid OpReaderOpen ''predicate operator is unsupported''))"

definition typed_literal ::
  "data_type \<Rightarrow> predicate_operator \<Rightarrow> native_literal
   \<Rightarrow> (predicate_literal \<times> prune_kind option) native_result" where
  "typed_literal t operator l =
     (let integer = (\<lambda>kind. and_then (integer_literal l) (\<lambda>i. Ok (LitInteger i, kind)));
          unsupported =
            Err (failure_new Unsupported OpReaderOpen
                   ''predicate column type or operator is unsupported'')
      in case t of
        Int8 \<Rightarrow> integer None | Int16 \<Rightarrow> integer None
      | UInt8 \<Rightarrow> integer None | UInt16 \<Rightarrow> integer None
      | UInt32 \<Rightarrow> integer None | UInt64 \<Rightarrow> integer None
      | Int32 \<Rightarrow> integer (Some PruneInt32)
      | Int64 \<Rightarrow> integer (Some PruneInt64)
      | Float32 \<Rightarrow> and_then (float_literal l) (\<lambda>v. Ok (LitFloat v, None))
      | Float64 \<Rightarrow> and_then (float_literal l) (\<lambda>v. Ok (LitFloat v, None))
      | Utf8 \<Rightarrow> and_then (string_literal l) (\<lambda>v. Ok (LitUtf8 v, None))
      | LargeUtf8 \<Rightarrow> and_then (string_literal l) (\<lambda>v. Ok (LitUtf8 v, None))
      | Boolean \<Rightarrow>
          if operator = Eq then and_then (boolean_literal l) (\<lambda>v. Ok (LitBoolean v, None))
          else unsupported
      | _ \<Rightarrow> unsupported)"

definition compile_predicate ::
  "native_predicate \<Rightarrow> field list \<Rightarrow> compiled_predicate native_result" where
  "compile_predicate p schema =
     and_then (ok_or (position (\<lambda>f. field_name f = np_column p) schema)
                 (failure_invalid OpReaderOpen ''predicate column does not exist'')) (\<lambda>root.
     and_then (parse_operator (np_operator p)) (\<lambda>operator.
     and_then (typed_literal (field_data_type (schema ! root)) operator (np_literal p))
       (\<lambda>(literal, kind).
     Ok \<lparr>cp_column = np_column p, column_index = 0, root_index = root, cp_operator = operator,
         cp_literal = literal, cp_prune_kind = kind\<rparr>)))"

section \<open>Masks\<close>

fun compare_i128 :: "int \<Rightarrow> int \<Rightarrow> predicate_operator \<Rightarrow> bool" where
  "compare_i128 value literal Gt = (value > literal)"
| "compare_i128 value literal Gte = (value \<ge> literal)"
| "compare_i128 value literal Lt = (value < literal)"
| "compare_i128 value literal Lte = (value \<le> literal)"
| "compare_i128 value literal Eq = (value = literal)"

fun compare_f64 :: "f64 \<Rightarrow> f64 \<Rightarrow> predicate_operator \<Rightarrow> bool" where
  "compare_f64 value literal Gt = f64_less literal value"
| "compare_f64 value literal Gte = f64_le literal value"
| "compare_f64 value literal Lt = f64_less value literal"
| "compare_f64 value literal Lte = f64_le value literal"
| "compare_f64 value literal Eq = f64_eq value literal"

text \<open>Rust orders strings by the bytes of their encoding, as the lexicographic order here does.\<close>

fun compare_str :: "string \<Rightarrow> string \<Rightarrow> predicate_operator \<Rightarrow> bool" where
  "compare_str value literal Gt = (value > literal)"
| "compare_str value literal Gte = (value \<ge> literal)"
| "compare_str value literal Lt = (value < literal)"
| "compare_str value literal Lte = (value \<le> literal)"
| "compare_str value literal Eq = (value = literal)"

fun slot_int :: "slot \<Rightarrow> int option" where
  "slot_int (IntSlot i) = Some i"
| "slot_int _ = None"

fun slot_float :: "slot \<Rightarrow> f64 option" where
  "slot_float (FloatSlot x) = Some x"
| "slot_float _ = None"

fun slot_text :: "slot \<Rightarrow> string option" where
  "slot_text (TextSlot s) = Some s"
| "slot_text _ = None"

fun slot_bool :: "slot \<Rightarrow> bool option" where
  "slot_bool (BoolSlot b) = Some b"
| "slot_bool _ = None"

definition or_else :: "'a option \<Rightarrow> 'a option \<Rightarrow> 'a option" where
  "or_else x y = (case x of None \<Rightarrow> y | Some v \<Rightarrow> Some v)"

lemma or_else_simps [simp]: "or_else None y = y" "or_else (Some v) y = Some v"
  by (simp_all add: or_else_def)

text \<open>
  A null slot gives a null mask entry. \<open>array_mask\<close> is the body the two macros and the string and
  boolean masks share: the downcast to the array class of type \<open>t\<close>, then the entries.
\<close>

definition array_mask ::
  "array \<Rightarrow> data_type \<Rightarrow> (slot \<Rightarrow> 'v option) \<Rightarrow> ('v \<Rightarrow> bool) \<Rightarrow> bool option list option" where
  "array_mask a t get test =
     (if array_type a = t then Some (map (\<lambda>s. map_option test (get s)) (array_slots a))
      else None)"

definition integer_array_mask ::
  "array \<Rightarrow> data_type \<Rightarrow> int \<Rightarrow> predicate_operator \<Rightarrow> bool option list option" where
  "integer_array_mask a t literal operator =
     array_mask a t slot_int (\<lambda>value. compare_i128 value literal operator)"

definition integer_predicate_mask ::
  "array \<Rightarrow> int \<Rightarrow> predicate_operator \<Rightarrow> bool option list option" where
  "integer_predicate_mask a literal operator =
     or_else (integer_array_mask a Int8 literal operator)
     (or_else (integer_array_mask a Int16 literal operator)
     (or_else (integer_array_mask a Int32 literal operator)
     (or_else (integer_array_mask a Int64 literal operator)
     (or_else (integer_array_mask a UInt8 literal operator)
     (or_else (integer_array_mask a UInt16 literal operator)
     (or_else (integer_array_mask a UInt32 literal operator)
     (integer_array_mask a UInt64 literal operator)))))))"

definition float_array_mask ::
  "array \<Rightarrow> data_type \<Rightarrow> f64 \<Rightarrow> predicate_operator \<Rightarrow> bool option list option" where
  "float_array_mask a t literal operator =
     array_mask a t slot_float (\<lambda>value. compare_f64 value literal operator)"

definition float_predicate_mask ::
  "array \<Rightarrow> f64 \<Rightarrow> predicate_operator \<Rightarrow> bool option list option" where
  "float_predicate_mask a literal operator =
     or_else (float_array_mask a Float32 literal operator)
       (float_array_mask a Float64 literal operator)"

definition string_predicate_mask ::
  "array \<Rightarrow> string \<Rightarrow> predicate_operator \<Rightarrow> bool option list option" where
  "string_predicate_mask a literal operator =
     or_else (array_mask a Utf8 slot_text (\<lambda>value. compare_str value literal operator))
       (array_mask a LargeUtf8 slot_text (\<lambda>value. compare_str value literal operator))"

definition boolean_predicate_mask :: "array \<Rightarrow> bool \<Rightarrow> bool option list option" where
  "boolean_predicate_mask a literal = array_mask a Boolean slot_bool (\<lambda>value. value = literal)"

definition column_mask ::
  "array \<Rightarrow> predicate_literal \<Rightarrow> predicate_operator \<Rightarrow> bool option list option" where
  "column_mask a literal operator =
     (case literal of
        LitInteger i \<Rightarrow> integer_predicate_mask a i operator
      | LitFloat x \<Rightarrow> float_predicate_mask a x operator
      | LitUtf8 s \<Rightarrow> string_predicate_mask a s operator
      | LitBoolean b \<Rightarrow> boolean_predicate_mask a b)"

definition predicate_mask ::
  "record_batch \<Rightarrow> compiled_predicate \<Rightarrow> bool option list native_result" where
  "predicate_mask batch p =
     ok_or (column_mask (batch_columns batch ! column_index p) (cp_literal p) (cp_operator p))
       (failure_new MalformedData OpReaderNext ''predicate column data is incompatible'')"

section \<open>Applying a predicate and a projection to a batch\<close>

definition apply_predicate_and_projection ::
  "arrow_kernels \<Rightarrow> record_batch \<Rightarrow> compiled_predicate option \<Rightarrow> nat list
   \<Rightarrow> record_batch native_result" where
  "apply_predicate_and_projection K batch predicate output_indices =
     and_then
       (case predicate of
          Some p \<Rightarrow>
            and_then (predicate_mask batch p) (\<lambda>selection.
              ok_or (filter_record_batch K batch selection)
                (failure_new MalformedData OpReaderNext ''predicate batch filtering failed''))
        | None \<Rightarrow> Ok batch)
       (\<lambda>batch.
         if length output_indices = length (batch_columns batch) \<and>
            output_indices = [0..<length (batch_columns batch)]
         then Ok batch
         else ok_or (project_batch K batch output_indices)
                (failure_new MalformedData OpReaderNext ''predicate projection failed''))"

section \<open>The reference: which rows match\<close>

text \<open>A null never matches; otherwise the value is compared with the literal.\<close>

fun slot_matches :: "predicate_literal \<Rightarrow> predicate_operator \<Rightarrow> slot \<Rightarrow> bool" where
  "slot_matches (LitInteger i) operator (IntSlot v) = compare_i128 v i operator"
| "slot_matches (LitFloat x) operator (FloatSlot v) = compare_f64 v x operator"
| "slot_matches (LitUtf8 s) operator (TextSlot v) = compare_str v s operator"
| "slot_matches (LitBoolean b) operator (BoolSlot v) = (v = b)"
| "slot_matches _ _ _ = False"

definition literal_fits :: "predicate_literal \<Rightarrow> data_type \<Rightarrow> bool" where
  "literal_fits literal t =
     (case literal of
        LitInteger _ \<Rightarrow> t \<in> {Int8, Int16, Int32, Int64, UInt8, UInt16, UInt32, UInt64}
      | LitFloat _ \<Rightarrow> t \<in> {Float32, Float64}
      | LitUtf8 _ \<Rightarrow> t \<in> {Utf8, LargeUtf8}
      | LitBoolean _ \<Rightarrow> t = Boolean)"

definition matching_rows :: "array \<Rightarrow> compiled_predicate \<Rightarrow> nat list" where
  "matching_rows a p =
     filter (\<lambda>j. slot_matches (cp_literal p) (cp_operator p) (array_slots a ! j))
       [0..<length (array_slots a)]"

definition rows_of :: "nat list \<Rightarrow> array \<Rightarrow> array" where
  "rows_of rows a = a\<lparr>array_slots := map (\<lambda>j. array_slots a ! j) rows\<rparr>"

definition mask_of ::
  "predicate_literal \<Rightarrow> predicate_operator \<Rightarrow> slot list \<Rightarrow> bool option list" where
  "mask_of literal operator slots =
     (case literal of
        LitInteger i \<Rightarrow> map (\<lambda>s. map_option (\<lambda>v. compare_i128 v i operator) (slot_int s)) slots
      | LitFloat x \<Rightarrow> map (\<lambda>s. map_option (\<lambda>v. compare_f64 v x operator) (slot_float s)) slots
      | LitUtf8 t \<Rightarrow> map (\<lambda>s. map_option (\<lambda>v. compare_str v t operator) (slot_text s)) slots
      | LitBoolean b \<Rightarrow> map (\<lambda>s. map_option (\<lambda>v. v = b) (slot_bool s)) slots)"

lemma column_mask_fits:
  "literal_fits literal (array_type a) \<Longrightarrow>
     column_mask a literal operator = Some (mask_of literal operator (array_slots a))"
  by (cases literal)
    (auto simp: literal_fits_def column_mask_def mask_of_def integer_predicate_mask_def
      integer_array_mask_def float_predicate_mask_def float_array_mask_def
      string_predicate_mask_def boolean_predicate_mask_def array_mask_def)

lemma mask_of_length [simp]: "length (mask_of literal operator slots) = length slots"
  by (cases literal) (simp_all add: mask_of_def)

lemma mask_of_nth:
  "j < length slots \<Longrightarrow>
     mask_of literal operator slots ! j = Some True \<longleftrightarrow> slot_matches literal operator (slots ! j)"
  by (cases literal; cases "slots ! j") (simp_all add: mask_of_def)

lemma filter_mask_of:
  "filter (\<lambda>j. mask_of literal operator slots ! j = Some True) [0..<length slots] =
     filter (\<lambda>j. slot_matches literal operator (slots ! j)) [0..<length slots]"
  by (rule filter_cong) (simp_all add: mask_of_nth)

text \<open>What a compiled predicate looks like.\<close>

lemma typed_literal_Ok:
  assumes "typed_literal t operator l = Ok (literal, kind)"
  shows "literal_fits literal t \<and>
    (\<forall>b. literal = LitBoolean b \<longrightarrow> operator = Eq) \<and>
    (kind = Some PruneInt32 \<longrightarrow> t = Int32) \<and> (kind = Some PruneInt64 \<longrightarrow> t = Int64) \<and>
    (\<forall>x. literal = LitFloat x \<longrightarrow> x \<noteq> NaN)"
  using assms
  by (cases t)
    (auto simp: typed_literal_def literal_fits_def float_literal_def is_finite_def result_simps
      bind_eq_Some_conv split: if_splits)

lemma compile_predicate_Ok:
  assumes "compile_predicate p schema = Ok c"
  shows "position (\<lambda>f. field_name f = np_column p) schema = Some (root_index c) \<and>
    root_index c < length schema \<and> cp_column c = np_column p \<and>
    field_name (schema ! root_index c) = np_column p \<and>
    literal_fits (cp_literal c) (field_data_type (schema ! root_index c)) \<and>
    (\<forall>b. cp_literal c = LitBoolean b \<longrightarrow> cp_operator c = Eq) \<and>
    (cp_prune_kind c = Some PruneInt32 \<longrightarrow> field_data_type (schema ! root_index c) = Int32) \<and>
    (cp_prune_kind c = Some PruneInt64 \<longrightarrow> field_data_type (schema ! root_index c) = Int64)"
  using assms
  by (auto simp: compile_predicate_def result_simps position_Some_iff dest!: typed_literal_Ok)

section \<open>Properties\<close>

definition selected_columns :: "record_batch \<Rightarrow> nat list \<Rightarrow> nat list \<Rightarrow> record_batch" where
  "selected_columns b rows indices =
     b\<lparr>batch_fields := map (\<lambda>i. batch_fields b ! i) indices,
       batch_columns := map (\<lambda>i. rows_of rows (batch_columns b ! i)) indices,
       batch_rows := length rows\<rparr>"

lemma project_identity:
  assumes "batch_ok b"
  shows "projected_batch b [0..<length (batch_columns b)] = b"
proof -
  have "map (\<lambda>i. batch_fields b ! i) [0..<length (batch_columns b)] = batch_fields b"
    unfolding batch_ok_lengths [OF assms] by (rule map_nth)
  then show ?thesis by (simp add: projected_batch_def map_nth)
qed

lemma apply_projection:
  assumes "kernels_ok K" and "batch_ok b" and "list_all (\<lambda>i. i < length (batch_columns b)) indices"
  shows "apply_predicate_and_projection K b None indices = Ok (projected_batch b indices)"
  using assms project_identity [OF assms(2)]
  by (auto simp: apply_predicate_and_projection_def kernels_ok_def)

lemma filtered_rows:
  assumes b: "batch_ok b" and len: "length selection = batch_rows b"
    and rows: "rows = filter (\<lambda>j. selection ! j = Some True) [0..<batch_rows b]"
    and range: "list_all (\<lambda>i. i < length (batch_columns b)) indices"
  shows "projected_batch (filtered_batch b selection) indices = selected_columns b rows indices"
proof -
  have col: "keep_rows selection (array_slots (batch_columns b ! i)) =
      map (\<lambda>j. array_slots (batch_columns b ! i) ! j) rows" if "i < length (batch_columns b)" for i
    using batch_ok_nth [OF b that] len rows by (simp add: keep_rows_nth)
  have count: "length (filter (\<lambda>m. m = Some True) selection) = length rows"
    using len rows by (simp add: count_kept)
  have "map (\<lambda>i. batch_columns (filtered_batch b selection) ! i) indices =
      map (\<lambda>i. rows_of rows (batch_columns b ! i)) indices"
    using range col by (auto simp: filtered_batch_def rows_of_def list_all_iff)
  with count show ?thesis
    by (simp add: projected_batch_def selected_columns_def filtered_batch_def)
qed

text \<open>C32: applying a predicate and a projection to a well-formed batch never fails, and gives, for
  each projected column, its slots at exactly the rows whose predicate column matches, in
  order and the same rows for every column; a null never matches.\<close>

theorem apply_predicate_rows:
  assumes K: "kernels_ok K" and b: "batch_ok b"
    and c: "column_index p < length (batch_columns b)"
    and fits: "literal_fits (cp_literal p) (array_type (batch_columns b ! column_index p))"
    and range: "list_all (\<lambda>i. i < length (batch_columns b)) indices"
  shows "apply_predicate_and_projection K b (Some p) indices =
    Ok (selected_columns b (matching_rows (batch_columns b ! column_index p) p) indices)"
proof -
  let ?a = "batch_columns b ! column_index p"
  let ?m = "mask_of (cp_literal p) (cp_operator p) (array_slots ?a)"
  let ?f = "filtered_batch b ?m"
  have len: "length ?m = batch_rows b" using batch_ok_nth [OF b c] by simp
  have f: "filter_record_batch K b ?m = Some ?f" using K b len by (simp add: kernels_ok_def)
  have cols: "length (batch_columns ?f) = length (batch_columns b)"
    by (simp add: filtered_batch_def)
  have "apply_predicate_and_projection K b (Some p) indices =
      apply_predicate_and_projection K ?f None indices"
    using column_mask_fits [OF fits] f
    by (simp add: apply_predicate_and_projection_def predicate_mask_def)
  also have "\<dots> = Ok (projected_batch ?f indices)"
    using apply_projection [OF K batch_ok_filtered [OF b len]] range by (simp add: cols)
  also have "projected_batch ?f indices = selected_columns b (matching_rows ?a p) indices"
    using batch_ok_nth [OF b c] filter_mask_of [of "cp_literal p" "cp_operator p" "array_slots ?a"]
    by (intro filtered_rows [OF b len _ range]) (simp add: matching_rows_def)
  finally show ?thesis .
qed

text \<open>A batch of three rows for the examples.\<close>

definition sample_batch :: record_batch where
  "sample_batch =
     \<lparr>batch_fields = [Field ''id'' Int64 True, Field ''name'' Utf8 True],
      batch_columns =
        [\<lparr>array_type = Int64, array_slots = [IntSlot 5, NullSlot, IntSlot 9]\<rparr>,
         \<lparr>array_type = Utf8, array_slots = [TextSlot ''a'', TextSlot ''b'', TextSlot ''c'']\<rparr>],
      batch_rows = 3\<rparr>"

definition sample_predicate :: compiled_predicate where
  "sample_predicate =
     \<lparr>cp_column = ''id'', column_index = 0, root_index = 0, cp_operator = Gt,
      cp_literal = LitInteger 5, cp_prune_kind = Some PruneInt64\<rparr>"

lemma sample_batch_ok: "batch_ok sample_batch"
  by (auto simp: batch_ok_def sample_batch_def nth_Cons split: nat.splits)

theorem apply_predicate_rows_witness:
  "\<exists>out. apply_predicate_and_projection plain_kernels sample_batch (Some sample_predicate) [1] =
     Ok out \<and> map array_slots (batch_columns out) = [[TextSlot ''c'']] \<and> batch_rows out = 1"
proof -
  have c: "column_index sample_predicate < length (batch_columns sample_batch)"
    and fits: "literal_fits (cp_literal sample_predicate)
      (array_type (batch_columns sample_batch ! column_index sample_predicate))"
    and range: "list_all (\<lambda>i. i < length (batch_columns sample_batch)) [1]"
    by (simp_all add: sample_batch_def sample_predicate_def literal_fits_def)
  have "matching_rows (batch_columns sample_batch ! column_index sample_predicate) sample_predicate
      = [2]"
    by (simp add: matching_rows_def sample_batch_def sample_predicate_def upt_rec)
  then show ?thesis
    unfolding apply_predicate_rows [OF plain_kernels_ok sample_batch_ok c fits range]
    by (simp add: selected_columns_def rows_of_def sample_batch_def)
qed

end
