(* ===== verification/Row_Groups.thy ===== *)
theory Row_Groups
  imports Predicates
begin

text \<open>
  Row group pruning (\<^verbatim>\<open>select_row_groups\<close> and \<^verbatim>\<open>integer_statistics_skip\<close> of \<^verbatim>\<open>reader.rs\<close>): which
  row groups of a file a predicate lets the reader skip, from the statistics in its metadata.
  The theorem is that skipping loses no matching row.
\<close>

section \<open>Parquet metadata\<close>

text \<open>
  The part of the \<^verbatim>\<open>parquet\<close> crate's metadata the code reads. \<open>min\<close> and \<open>max\<close> are present in
  the integer statistics only as far as the file records them.
\<close>

datatype compression =
    UNCOMPRESSED | SNAPPY | GZIP int | LZO | BROTLI int | LZ4 | ZSTD int | LZ4_RAW

datatype statistics_values =
    StatsInt32 "int option" "int option"
  | StatsInt64 "int option" "int option"
  | StatsOther

record statistics =
  stats_values :: statistics_values
  null_count_opt :: "int option"
  min_is_exact :: bool
  max_is_exact :: bool

record column_chunk =
  chunk_compression :: compression
  chunk_statistics :: "statistics option"

record row_group =
  num_rows :: int
  row_group_columns :: "column_chunk list"

record parquet_metadata =
  md_row_groups :: "row_group list"
  md_leaf_paths :: "string list list"
  md_key_values :: "(string \<times> string option) list"

section \<open>The code\<close>

fun integer_statistics_skip ::
  "int option \<Rightarrow> int option \<Rightarrow> bool \<Rightarrow> bool \<Rightarrow> int \<Rightarrow> predicate_operator \<Rightarrow> bool" where
  "integer_statistics_skip lo hi min_exact max_exact literal Gt =
     (max_exact \<and> (case hi of None \<Rightarrow> False | Some m \<Rightarrow> m \<le> literal))"
| "integer_statistics_skip lo hi min_exact max_exact literal Gte =
     (max_exact \<and> (case hi of None \<Rightarrow> False | Some m \<Rightarrow> m < literal))"
| "integer_statistics_skip lo hi min_exact max_exact literal Lt =
     (min_exact \<and> (case lo of None \<Rightarrow> False | Some m \<Rightarrow> m \<ge> literal))"
| "integer_statistics_skip lo hi min_exact max_exact literal Lte =
     (min_exact \<and> (case lo of None \<Rightarrow> False | Some m \<Rightarrow> m > literal))"
| "integer_statistics_skip lo hi min_exact max_exact literal Eq =
     ((min_exact \<and> (case lo of None \<Rightarrow> False | Some m \<Rightarrow> m > literal)) \<or>
      (max_exact \<and> (case hi of None \<Rightarrow> False | Some m \<Rightarrow> m < literal)))"

definition skip_row_group ::
  "prune_kind \<Rightarrow> compiled_predicate \<Rightarrow> int \<Rightarrow> column_chunk \<Rightarrow> bool" where
  "skip_row_group kind p rows column =
     (case chunk_statistics column of
        None \<Rightarrow> False
      | Some st \<Rightarrow>
          if null_count_opt st = try_unsigned 64 rows then True
          else
            (case (kind, stats_values st, cp_literal p) of
               (PruneInt32, StatsInt32 lo hi, LitInteger lit) \<Rightarrow>
                 integer_statistics_skip lo hi (min_is_exact st) (max_is_exact st) lit
                   (cp_operator p)
             | (PruneInt64, StatsInt64 lo hi, LitInteger lit) \<Rightarrow>
                 integer_statistics_skip lo hi (min_is_exact st) (max_is_exact st) lit
                   (cp_operator p)
             | _ \<Rightarrow> False))"

text \<open>
  The iterator over the row groups from the index \<open>i\<close> on. \<^verbatim>\<open>row_group.column(index)\<close> panics when
  the row group has too few columns.
\<close>

fun unskipped ::
  "prune_kind \<Rightarrow> compiled_predicate \<Rightarrow> nat \<Rightarrow> nat \<Rightarrow> row_group list \<Rightarrow> nat list unwind" where
  "unskipped kind p column i [] = Returned []"
| "unskipped kind p column i (rg # rgs) =
     (if length (row_group_columns rg) \<le> column then Panicked
      else
        (case unskipped kind p column (Suc i) rgs of
           Panicked \<Rightarrow> Panicked
         | Returned rest \<Rightarrow>
             Returned
               (if skip_row_group kind p (num_rows rg) (row_group_columns rg ! column) then rest
                else i # rest)))"

definition select_row_groups ::
  "parquet_metadata \<Rightarrow> compiled_predicate option \<Rightarrow> nat list unwind" where
  "select_row_groups md predicate =
     (let every = Returned [0..<length (md_row_groups md)]
      in case predicate of
           None \<Rightarrow> every
         | Some p \<Rightarrow>
             (case cp_prune_kind p of
                None \<Rightarrow> every
              | Some kind \<Rightarrow>
                  (case position (\<lambda>path. path \<noteq> [] \<and> hd path = cp_column p) (md_leaf_paths md) of
                     None \<Rightarrow> every
                   | Some column \<Rightarrow> unskipped kind p column 0 (md_row_groups md))))"

definition compression_label :: "compression \<Rightarrow> string" where
  "compression_label c =
     (case c of UNCOMPRESSED \<Rightarrow> ''uncompressed'' | SNAPPY \<Rightarrow> ''snappy'' | GZIP _ \<Rightarrow> ''gzip''
      | ZSTD _ \<Rightarrow> ''zstd'' | LZ4_RAW \<Rightarrow> ''lz4_raw'' | LZO \<Rightarrow> ''lzo'' | BROTLI _ \<Rightarrow> ''brotli''
      | LZ4 \<Rightarrow> ''lz4'')"

section \<open>What the metadata promises\<close>

text \<open>
  Every row group has a chunk for each leaf column of the schema, and the statistics of a chunk
  describe the values of its column: the null count, when present, is the number of nulls, and
  an exact bound is a bound.
\<close>

definition metadata_ok :: "parquet_metadata \<Rightarrow> bool" where
  "metadata_ok md \<longleftrightarrow>
     list_all (\<lambda>rg. length (row_group_columns rg) = length (md_leaf_paths md)) (md_row_groups md)"

definition stats_bounds :: "statistics_values \<Rightarrow> int option \<times> int option" where
  "stats_bounds v =
     (case v of StatsInt32 lo hi \<Rightarrow> (lo, hi) | StatsInt64 lo hi \<Rightarrow> (lo, hi) | StatsOther \<Rightarrow> (None, None))"

definition stats_describe :: "statistics \<Rightarrow> slot list \<Rightarrow> bool" where
  "stats_describe st slots \<longleftrightarrow>
     (\<forall>n. null_count_opt st = Some n \<longrightarrow> n = int (length (filter (\<lambda>s. s = NullSlot) slots))) \<and>
     (min_is_exact st \<longrightarrow>
        (\<forall>m v. fst (stats_bounds (stats_values st)) = Some m \<longrightarrow> IntSlot v \<in> set slots \<longrightarrow> m \<le> v)) \<and>
     (max_is_exact st \<longrightarrow>
        (\<forall>m v. snd (stats_bounds (stats_values st)) = Some m \<longrightarrow> IntSlot v \<in> set slots \<longrightarrow> v \<le> m))"

definition group_described :: "row_group \<Rightarrow> nat \<Rightarrow> slot list \<Rightarrow> bool" where
  "group_described rg column slots \<longleftrightarrow>
     num_rows rg = int (length slots) \<and> length slots < 2 ^ 63 \<and>
     (\<forall>st. chunk_statistics (row_group_columns rg ! column) = Some st \<longrightarrow> stats_describe st slots)"

section \<open>A skipped group has no matching row\<close>

lemma integer_statistics_skip_sound:
  assumes "integer_statistics_skip lo hi min_exact max_exact lit operator"
    and "\<And>m. min_exact \<Longrightarrow> lo = Some m \<Longrightarrow> m \<le> v" and "\<And>m. max_exact \<Longrightarrow> hi = Some m \<Longrightarrow> v \<le> m"
  shows "\<not> compare_i128 v lit operator"
  using assms by (cases operator) (fastforce split: option.splits)+

lemma all_null:
  "length (filter (\<lambda>s. s = NullSlot) slots) = length slots \<Longrightarrow> s \<in> set slots \<Longrightarrow> s = NullSlot"
  using length_filter_less [of s slots "\<lambda>s. s = NullSlot"] by fastforce

lemma skip_row_group_sound:
  assumes skip: "skip_row_group kind p (num_rows rg) (row_group_columns rg ! column)"
    and d: "group_described rg column slots" and s: "s \<in> set slots"
  shows "\<not> slot_matches (cp_literal p) (cp_operator p) s"
proof -
  obtain st where st: "chunk_statistics (row_group_columns rg ! column) = Some st"
    using skip by (auto simp: skip_row_group_def split: option.splits)
  have rows: "num_rows rg = int (length slots)" and small: "length slots < 2 ^ 63"
    and desc: "stats_describe st slots"
    using d st by (auto simp: group_described_def)
  have try_rows: "try_unsigned 64 (num_rows rg) = Some (int (length slots))"
    using rows small by (simp add: try_unsigned_def fits_unsigned_def)
  show ?thesis
  proof (cases "null_count_opt st = Some (int (length slots))")
    case True
    then have "s = NullSlot" using desc all_null [OF _ s] by (simp add: stats_describe_def)
    then show ?thesis by (cases "cp_literal p") simp_all
  next
    case False
    then obtain lo hi lit where sk: "integer_statistics_skip lo hi (min_is_exact st)
        (max_is_exact st) lit (cp_operator p)"
      and b: "stats_bounds (stats_values st) = (lo, hi)" and l: "cp_literal p = LitInteger lit"
      using skip st try_rows
      by (auto simp: skip_row_group_def stats_bounds_def
          split: prune_kind.splits statistics_values.splits predicate_literal.splits)
    show ?thesis
    proof (cases s)
      case (IntSlot v)
      then show ?thesis
        using integer_statistics_skip_sound [OF sk, of v] desc s b l
        by (auto simp: stats_describe_def)
    qed (use l in simp_all)
  qed
qed

lemma unskipped_filter:
  assumes "list_all (\<lambda>rg. column < length (row_group_columns rg)) rgs"
  shows "unskipped kind p column i rgs =
    Returned (filter (\<lambda>j. \<not> skip_row_group kind p (num_rows (rgs ! (j - i)))
      (row_group_columns (rgs ! (j - i)) ! column)) [i..<i + length rgs])"
  using assms
proof (induction rgs arbitrary: i)
  case (Cons rg rgs)
  have "filter (\<lambda>j. \<not> skip_row_group kind p (num_rows (rgs ! (j - Suc i)))
      (row_group_columns (rgs ! (j - Suc i)) ! column)) [Suc i..<Suc i + length rgs] =
    filter (\<lambda>j. \<not> skip_row_group kind p (num_rows ((rg # rgs) ! (j - i)))
      (row_group_columns ((rg # rgs) ! (j - i)) ! column)) [Suc i..<Suc i + length rgs]"
    by (rule filter_cong) (auto simp: nth_Cons')
  moreover have "[i..<i + length (rg # rgs)] = i # [Suc i..<Suc i + length rgs]"
    using upt_conv_Cons [of i "i + length (rg # rgs)"] by simp
  ultimately show ?case using Cons by (simp add: linorder_not_less [symmetric])
qed simp

definition pruned :: "parquet_metadata \<Rightarrow> compiled_predicate option \<Rightarrow> nat \<Rightarrow> bool" where
  "pruned md predicate i =
     (case predicate of
        None \<Rightarrow> False
      | Some p \<Rightarrow>
          (case cp_prune_kind p of
             None \<Rightarrow> False
           | Some kind \<Rightarrow>
               (case position (\<lambda>path. path \<noteq> [] \<and> hd path = cp_column p) (md_leaf_paths md) of
                  None \<Rightarrow> False
                | Some column \<Rightarrow>
                    skip_row_group kind p (num_rows (md_row_groups md ! i))
                      (row_group_columns (md_row_groups md ! i) ! column))))"

lemma select_row_groups_eq:
  assumes "metadata_ok md"
  shows "select_row_groups md predicate =
    Returned (filter (\<lambda>i. \<not> pruned md predicate i) [0..<length (md_row_groups md)])"
proof (cases predicate)
  case (Some p)
  show ?thesis
  proof (cases "cp_prune_kind p")
    case kind: (Some kind)
    show ?thesis
    proof (cases "position (\<lambda>path. path \<noteq> [] \<and> hd path = cp_column p) (md_leaf_paths md)")
      case column: (Some column)
      then have "list_all (\<lambda>rg. column < length (row_group_columns rg)) (md_row_groups md)"
        using assms by (simp add: metadata_ok_def list_all_iff position_Some_iff)
      from unskipped_filter [OF this, of kind p 0] show ?thesis
        by (simp add: select_row_groups_def pruned_def Some kind column)
    qed (simp add: select_row_groups_def pruned_def Let_def Some kind)
  qed (simp add: select_row_groups_def pruned_def Let_def Some)
qed (simp add: select_row_groups_def pruned_def Let_def)

section \<open>Properties\<close>

text \<open>
  \<open>scan p groups rows\<close>: the rows of the listed groups that match, in order. A row is the slot of
  the predicate's column together with the rest of the row.
\<close>

definition scan ::
  "compiled_predicate \<Rightarrow> (nat \<Rightarrow> (slot \<times> 'r) list) \<Rightarrow> nat list \<Rightarrow> (slot \<times> 'r) list" where
  "scan p rows groups =
     concat (map (\<lambda>i. filter (\<lambda>r. slot_matches (cp_literal p) (cp_operator p) (fst r)) (rows i))
       groups)"

lemma scan_filter:
  assumes "\<And>i r. i \<in> set is \<Longrightarrow> \<not> keep i \<Longrightarrow> r \<in> set (rows i) \<Longrightarrow>
      \<not> slot_matches (cp_literal p) (cp_operator p) (fst r)"
  shows "scan p rows (filter keep is) = scan p rows is"
  using assms
proof (induction "is")
  case (Cons i "is")
  have tail: "scan p rows (filter keep is) = scan p rows is" using Cons by auto
  show ?case
  proof (cases "keep i")
    case False
    then have "filter (\<lambda>r. slot_matches (cp_literal p) (cp_operator p) (fst r)) (rows i) = []"
      using Cons.prems by (auto simp: filter_empty_conv)
    with tail False show ?thesis by (simp add: scan_def)
  qed (use tail in \<open>simp add: scan_def\<close>)
qed (simp add: scan_def)

lemma pruned_scan:
  assumes "metadata_ok md"
    and "\<And>column i. cp_prune_kind p \<noteq> None \<Longrightarrow>
      position (\<lambda>path. path \<noteq> [] \<and> hd path = cp_column p) (md_leaf_paths md) = Some column \<Longrightarrow>
      i < length (md_row_groups md) \<Longrightarrow>
      group_described (md_row_groups md ! i) column (map fst (rows i))"
  shows "\<exists>groups. select_row_groups md (Some p) = Returned groups \<and>
    sorted_wrt (<) groups \<and> set groups \<subseteq> {..<length (md_row_groups md)} \<and>
    scan p rows groups = scan p rows [0..<length (md_row_groups md)]"
proof -
  let ?n = "length (md_row_groups md)"
  note sel = select_row_groups_eq [OF assms(1), of "Some p"]
  have "\<not> slot_matches (cp_literal p) (cp_operator p) (fst r)"
    if i: "i < ?n" and pr: "pruned md (Some p) i" and r: "r \<in> set (rows i)" for i r
  proof -
    obtain kind column
      where kind: "cp_prune_kind p \<noteq> None"
        and c: "position (\<lambda>path. path \<noteq> [] \<and> hd path = cp_column p) (md_leaf_paths md) = Some column"
        and skip: "skip_row_group kind p (num_rows (md_row_groups md ! i))
          (row_group_columns (md_row_groups md ! i) ! column)"
      using pr by (auto simp: pruned_def split: option.splits)
    then have "group_described (md_row_groups md ! i) column (map fst (rows i))"
      using assms(2) [OF kind c i] by simp
    from skip_row_group_sound [OF skip this] r show ?thesis by simp
  qed
  then have "scan p rows (filter (\<lambda>i. \<not> pruned md (Some p) i) [0..<?n]) = scan p rows [0..<?n]"
    by (intro scan_filter) simp
  with sel show ?thesis by (auto intro: sorted_wrt_filter)
qed

text \<open>C5: pruning is invisible: in a file whose metadata describes its data, the selection of row
  groups never panics, and reading only the selected groups yields the same matching rows, in
  the same order, as reading every group.\<close>

theorem pruning_loses_nothing:
  assumes "metadata_ok md"
    and "\<And>column i. cp_prune_kind p \<noteq> None \<Longrightarrow>
      position (\<lambda>path. path \<noteq> [] \<and> hd path = cp_column p) (md_leaf_paths md) = Some column \<Longrightarrow>
      i < length (md_row_groups md) \<Longrightarrow>
      group_described (md_row_groups md ! i) column (map fst (rows i))"
  shows "\<exists>groups. select_row_groups md (Some p) = Returned groups \<and>
    sorted_wrt (<) groups \<and> set groups \<subseteq> {..<length (md_row_groups md)} \<and>
    scan p rows groups = scan p rows [0..<length (md_row_groups md)]"
  using pruned_scan [OF assms] .

text \<open>A file of three groups for the example: the first is out of range, the second all null.\<close>

definition chunk_of :: "int option \<Rightarrow> int option \<Rightarrow> int \<Rightarrow> column_chunk" where
  "chunk_of lo hi nulls =
     \<lparr>chunk_compression = SNAPPY,
      chunk_statistics =
        Some \<lparr>stats_values = StatsInt64 lo hi, null_count_opt = Some nulls, min_is_exact = True,
              max_is_exact = True\<rparr>\<rparr>"

definition sample_metadata :: parquet_metadata where
  "sample_metadata =
     \<lparr>md_row_groups =
        [\<lparr>num_rows = 2, row_group_columns = [chunk_of (Some 1) (Some 5) 0]\<rparr>,
         \<lparr>num_rows = 1, row_group_columns = [chunk_of None None 1]\<rparr>,
         \<lparr>num_rows = 2, row_group_columns = [chunk_of (Some 4) (Some 9) 0]\<rparr>],
      md_leaf_paths = [[''id'']], md_key_values = []\<rparr>"

definition sample_rows :: "nat \<Rightarrow> (slot \<times> nat) list" where
  "sample_rows i =
     (if i = 0 then [(IntSlot 1, 10), (IntSlot 5, 11)] else if i = 1 then [(NullSlot, 12)]
      else [(IntSlot 9, 13), (IntSlot 4, 14)])"

theorem pruning_loses_nothing_witness:
  "select_row_groups sample_metadata (Some sample_predicate) = Returned [2] \<and>
   scan sample_predicate sample_rows [2] = scan sample_predicate sample_rows [0, 1, 2]"
proof -
  have sel: "select_row_groups sample_metadata (Some sample_predicate) = Returned [2]"
    by (simp add: select_row_groups_def sample_metadata_def sample_predicate_def chunk_of_def
        skip_row_group_def try_unsigned_def fits_unsigned_def)
  have "metadata_ok sample_metadata" by (simp add: metadata_ok_def sample_metadata_def)
  moreover have "group_described (md_row_groups sample_metadata ! i) 0 (map fst (sample_rows i))"
    if "i < 3" for i
  proof -
    have "i = 0 \<or> i = 1 \<or> i = 2" using that by auto
    then show ?thesis
      by (elim disjE) (simp_all add: sample_metadata_def sample_rows_def group_described_def
          stats_describe_def stats_bounds_def chunk_of_def)
  qed
  then have "group_described (md_row_groups sample_metadata ! i) column (map fst (sample_rows i))"
    if "position (\<lambda>path. path \<noteq> [] \<and> hd path = cp_column sample_predicate)
        (md_leaf_paths sample_metadata) = Some column"
      and "i < length (md_row_groups sample_metadata)" for column i
    using that by (simp add: sample_metadata_def sample_predicate_def)
  ultimately have "scan sample_predicate sample_rows [2] = scan sample_predicate sample_rows
      [0..<length (md_row_groups sample_metadata)]"
    using pruning_loses_nothing [of sample_metadata sample_predicate sample_rows] sel by auto
  moreover have "[0..<length (md_row_groups sample_metadata)] = [0, 1, 2]"
    by (simp add: sample_metadata_def upt_rec)
  ultimately show ?thesis using sel by simp
qed

end
