(* ===== verification/Projection.thy ===== *)
theory Projection
  imports Row_Groups Arrow_Schema
begin

text \<open>
  The column selection of an opened reader (\<^verbatim>\<open>open_backend\<close> and \<^verbatim>\<open>projection_indices\<close> of
  \<^verbatim>\<open>reader.rs\<close>): which root columns are requested, which are read (the predicate's column may
  have to be added), and where in the read batch the requested columns and the predicate's
  column are. The theorem is that reading the projection and then selecting gives what
  filtering and projecting the full batch gives.
\<close>

section \<open>The code\<close>

definition unwind_then :: "'a unwind \<Rightarrow> ('a \<Rightarrow> 'b unwind) \<Rightarrow> 'b unwind" where
  "unwind_then r f = (case r of Panicked \<Rightarrow> Panicked | Returned x \<Rightarrow> f x)"

lemma unwind_then_simps [simp]:
  "unwind_then Panicked f = Panicked" "unwind_then (Returned x) f = f x"
  by (simp_all add: unwind_then_def)

definition expect :: "'a option \<Rightarrow> 'a unwind" where
  "expect x = (case x of None \<Rightarrow> Panicked | Some v \<Rightarrow> Returned v)"

lemma expect_simps [simp]: "expect None = Panicked" "expect (Some v) = Returned v"
  by (simp_all add: expect_def)

definition projection_indices :: "field list \<Rightarrow> string list \<Rightarrow> nat list native_result" where
  "projection_indices schema columns =
     (if columns = [] then Ok [0..<length schema]
      else
        and_then
          (collect_results
             (map (\<lambda>column.
                ok_or (position (\<lambda>f. field_name f = column) schema)
                  (failure_invalid OpReaderOpen ''projected column does not exist'')) columns))
          (\<lambda>indices. Ok (sort indices)))"

definition read_indices :: "nat list \<Rightarrow> compiled_predicate option \<Rightarrow> nat list" where
  "read_indices requested predicate =
     (case predicate of
        None \<Rightarrow> requested
      | Some p \<Rightarrow>
          if root_index p \<in> set requested then requested
          else sort (requested @ [root_index p]))"

text \<open>\<^verbatim>\<open>ProjectionMask::all()\<close> is \<^const>\<open>None\<close>, \<^verbatim>\<open>ProjectionMask::roots\<close> the list of roots.\<close>

definition projection_mask :: "string list \<Rightarrow> nat list \<Rightarrow> nat list option" where
  "projection_mask columns read = (if columns = [] then None else Some read)"

fun positions_in :: "nat list \<Rightarrow> nat list \<Rightarrow> nat list unwind" where
  "positions_in read [] = Returned []"
| "positions_in read (i # is) =
     unwind_then (expect (position (\<lambda>r. r = i) read)) (\<lambda>k.
     unwind_then (positions_in read is) (\<lambda>ks. Returned (k # ks)))"

definition output_indices_of ::
  "field list \<Rightarrow> string list \<Rightarrow> nat list \<Rightarrow> nat list \<Rightarrow> nat list unwind" where
  "output_indices_of schema columns requested read =
     (if columns = [] then Returned [0..<length schema] else positions_in read requested)"

definition place_predicate ::
  "string list \<Rightarrow> nat list \<Rightarrow> compiled_predicate option \<Rightarrow> compiled_predicate option unwind" where
  "place_predicate columns read predicate =
     (case predicate of
        None \<Rightarrow> Returned None
      | Some p \<Rightarrow>
          unwind_then
            (if columns = [] then Returned (root_index p)
             else expect (position (\<lambda>r. r = root_index p) read))
            (\<lambda>k. Returned (Some (p\<lparr>column_index := k\<rparr>))))"

section \<open>The columns a projected read delivers\<close>

text \<open>
  The documented behaviour of a projection mask: the root columns of the mask, each once and in
  file order.
\<close>

definition read_batch :: "nat list option \<Rightarrow> record_batch \<Rightarrow> record_batch" where
  "read_batch mask_roots full =
     (case mask_roots of
        None \<Rightarrow> full
      | Some roots \<Rightarrow>
          projected_batch full
            (filter (\<lambda>i. i \<in> set roots) [0..<length (batch_columns full)]))"

section \<open>Index lemmas\<close>

lemma sorted_distinct_filter_upt:
  assumes "sorted xs" and "distinct xs" and "\<forall>x \<in> set xs. x < n"
  shows "filter (\<lambda>i. i \<in> set xs) [0..<n] = xs"
proof (rule sorted_distinct_set_unique)
  show "set (filter (\<lambda>i. i \<in> set xs) [0..<n]) = set xs" using assms(3) by auto
qed (use assms in \<open>simp_all add: sorted_wrt_filter\<close>)

lemma projection_indices_Ok:
  assumes "projection_indices schema columns = Ok requested" and "columns \<noteq> []"
  obtains found where "requested = sort found" "length found = length columns"
    "\<And>i. i < length columns \<Longrightarrow>
       position (\<lambda>f. field_name f = columns ! i) schema = Some (found ! i)"
proof -
  obtain found where f: "collect_results (map (\<lambda>column.
        ok_or (position (\<lambda>f. field_name f = column) schema)
          (failure_invalid OpReaderOpen ''projected column does not exist'')) columns) = Ok found"
    and r: "requested = sort found"
    using assms by (auto simp: projection_indices_def result_simps)
  show ?thesis
  proof (rule that [OF r])
    show "length found = length columns" using collect_results_length [OF f] .
    show "position (\<lambda>f. field_name f = columns ! i) schema = Some (found ! i)"
      if "i < length columns" for i
      using collect_results_nth [OF f that] by (simp add: result_simps)
  qed
qed

lemma requested_bounds:
  assumes "projection_indices schema columns = Ok requested"
  shows "sorted requested \<and> (\<forall>i \<in> set requested. i < length schema) \<and>
    (distinct columns \<longrightarrow> distinct requested)"
proof (cases "columns = []")
  case True
  then show ?thesis using assms by (auto simp: projection_indices_def)
next
  case False
  obtain found where r: "requested = sort found" and len: "length found = length columns"
    and pos: "\<And>i. i < length columns \<Longrightarrow>
       position (\<lambda>f. field_name f = columns ! i) schema = Some (found ! i)"
    by (rule projection_indices_Ok [OF assms False]) blast
  have "found ! i < length schema \<and> field_name (schema ! (found ! i)) = columns ! i"
    if "i < length columns" for i
    using pos [OF that] by (simp add: position_Some_iff)
  then have bound: "\<forall>i \<in> set found. i < length schema"
    and name: "\<And>i. i < length columns \<Longrightarrow> field_name (schema ! (found ! i)) = columns ! i"
    using len by (auto simp: in_set_conv_nth)
  have "distinct found" if "distinct columns"
    unfolding distinct_conv_nth
  proof (intro allI impI)
    fix i j
    assume "i < length found" "j < length found" "i \<noteq> j"
    then show "found ! i \<noteq> found ! j"
      using name [of i] name [of j] that len by (auto simp: nth_eq_iff_index_eq)
  qed
  with r bound show ?thesis by auto
qed

lemma read_indices_bounds:
  assumes "sorted requested" and "\<forall>i \<in> set requested. i < n"
    and "\<And>p. predicate = Some p \<Longrightarrow> root_index p < n"
  shows "sorted (read_indices requested predicate) \<and>
    (\<forall>i \<in> set (read_indices requested predicate). i < n) \<and>
    (distinct requested \<longrightarrow> distinct (read_indices requested predicate)) \<and>
    set requested \<subseteq> set (read_indices requested predicate) \<and>
    (\<forall>p. predicate = Some p \<longrightarrow> root_index p \<in> set (read_indices requested predicate))"
  using assms by (cases predicate) (auto simp: read_indices_def)

lemma positions_in_Returned:
  assumes "set is \<subseteq> set read"
  shows "positions_in read is =
    Returned (map (\<lambda>i. the (position (\<lambda>r. r = i) read)) is)"
  using assms
proof (induction "is")
  case (Cons i "is")
  then obtain k where "position (\<lambda>r. r = i) read = Some k"
    using position_exists [of i read "\<lambda>r. r = i"] by auto
  with Cons show ?case by simp
qed simp

lemma positions_in_nth:
  assumes "set is \<subseteq> set read" and "k \<in> set (map (\<lambda>i. the (position (\<lambda>r. r = i) read)) is)"
  shows "k < length read"
proof -
  obtain i where i: "i \<in> set is" "k = the (position (\<lambda>r. r = i) read)" using assms(2) by auto
  then obtain j where "position (\<lambda>r. r = i) read = Some j"
    using assms(1) position_exists [of i read "\<lambda>r. r = i"] by auto
  with i(2) show ?thesis by (simp add: position_Some_iff)
qed

lemma read_positions:
  assumes "set is \<subseteq> set read"
  shows "map (\<lambda>k. read ! k) (map (\<lambda>i. the (position (\<lambda>r. r = i) read)) is) = is"
  unfolding map_map
proof (rule map_idI)
  fix x
  assume "x \<in> set is"
  then obtain k where "position (\<lambda>r. r = x) read = Some k"
    using assms position_exists [of x read "\<lambda>r. r = x"] by blast
  then show "((\<lambda>k. read ! k) \<circ> (\<lambda>i. the (position (\<lambda>r. r = i) read))) x = x"
    using position_nth [of x read k] by simp
qed

section \<open>Selecting through a projection\<close>

lemma map_nth_through:
  assumes "\<forall>k \<in> set outs. k < length read"
  shows "map (\<lambda>k. g (map F read ! k)) outs = map (\<lambda>i. g (F i)) (map (\<lambda>k. read ! k) outs)"
  using assms by simp

lemma selected_projected:
  assumes "\<forall>k \<in> set outs. k < length read" and "map (\<lambda>k. read ! k) outs = requested"
  shows "selected_columns (projected_batch full read) rows outs = selected_columns full rows requested"
  using map_nth_through [OF assms(1), of "\<lambda>x. x" "\<lambda>i. batch_fields full ! i"]
    map_nth_through [OF assms(1), of "rows_of rows" "\<lambda>i. batch_columns full ! i"]
  unfolding assms(2) by (simp add: selected_columns_def projected_batch_def)

lemma selected_all_rows:
  assumes "batch_ok b" and "list_all (\<lambda>i. i < length (batch_columns b)) indices"
  shows "selected_columns b [0..<batch_rows b] indices = projected_batch b indices"
proof -
  have "rows_of [0..<batch_rows b] (batch_columns b ! i) = batch_columns b ! i"
    if "i < length (batch_columns b)" for i
    using batch_ok_nth [OF assms(1) that] map_nth [of "array_slots (batch_columns b ! i)"]
    by (simp add: rows_of_def)
  with assms(2) show ?thesis
    by (auto simp: selected_columns_def projected_batch_def list_all_iff)
qed

lemma matching_rows_index [simp]:
  "matching_rows a (p\<lparr>column_index := k\<rparr>) = matching_rows a p"
  by (simp add: matching_rows_def)

definition wanted_rows :: "record_batch \<Rightarrow> compiled_predicate option \<Rightarrow> nat list" where
  "wanted_rows full predicate =
     (case predicate of
        None \<Rightarrow> [0..<batch_rows full]
      | Some p \<Rightarrow> matching_rows (batch_columns full ! root_index p) p)"

text \<open>A predicate that fits a schema, as a compiled one does.\<close>

definition predicate_fits :: "field list \<Rightarrow> compiled_predicate option \<Rightarrow> bool" where
  "predicate_fits schema predicate \<longleftrightarrow>
     (\<forall>p. predicate = Some p \<longrightarrow> root_index p < length schema \<and>
        literal_fits (cp_literal p) (field_data_type (schema ! root_index p)))"

lemma compiled_fits: "compile_predicate q schema = Ok p \<Longrightarrow> predicate_fits schema (Some p)"
  using compile_predicate_Ok [of q schema p] by (simp add: predicate_fits_def)

lemma apply_selected:
  assumes K: "kernels_ok K" and b: "batch_ok b"
    and p: "\<And>p. placed = Some p \<Longrightarrow> column_index p < length (batch_columns b) \<and>
      literal_fits (cp_literal p) (array_type (batch_columns b ! column_index p))"
    and range: "list_all (\<lambda>i. i < length (batch_columns b)) outs"
  shows "apply_predicate_and_projection K b placed outs =
    Ok (selected_columns b
      (case placed of None \<Rightarrow> [0..<batch_rows b]
       | Some p \<Rightarrow> matching_rows (batch_columns b ! column_index p) p) outs)"
proof (cases placed)
  case None
  then show ?thesis
    using apply_projection [OF K b range] selected_all_rows [OF b range] by simp
next
  case (Some q)
  then show ?thesis using apply_predicate_rows [OF K b _ _ range] p [OF Some] by simp
qed

lemma pushdown_selects:
  assumes K: "kernels_ok K" and full: "batch_ok full" "batch_fields full = schema"
    and req: "projection_indices schema columns = Ok requested" and dist: "distinct columns"
    and fits: "predicate_fits schema predicate"
    and read: "read = read_indices requested predicate"
  shows "\<exists>outputs placed. output_indices_of schema columns requested read = Returned outputs \<and>
    place_predicate columns read predicate = Returned placed \<and>
    apply_predicate_and_projection K (read_batch (projection_mask columns read) full) placed outputs
      = Ok (selected_columns full (wanted_rows full predicate) requested)"
proof -
  let ?n = "length schema"
  have n: "length (batch_columns full) = ?n" using batch_ok_lengths [OF full(1)] full(2) by simp
  note rb = requested_bounds [OF req]
  have root: "root_index p < ?n" and fit: "literal_fits (cp_literal p)
      (array_type (batch_columns full ! root_index p))" if "predicate = Some p" for p
    using fits that batch_ok_nth [OF full(1)] n full(2) by (auto simp: predicate_fits_def)
  have bounds: "sorted read \<and> (\<forall>i \<in> set read. i < ?n) \<and> distinct read \<and> set requested \<subseteq> set read \<and>
      (\<forall>p. predicate = Some p \<longrightarrow> root_index p \<in> set read)"
    using read_indices_bounds [of requested ?n predicate] rb dist root by (simp add: read)
  show ?thesis
  proof (cases "columns = []")
    case True
    let ?placed = "map_option (\<lambda>p. p\<lparr>column_index := root_index p\<rparr>) predicate"
    have r: "requested = [0..<?n]" using req True by (simp add: projection_indices_def)
    have "apply_predicate_and_projection K full ?placed [0..<?n] =
        Ok (selected_columns full (wanted_rows full predicate) [0..<?n])"
      using apply_selected [OF K full(1), of ?placed "[0..<?n]"] root fit n
      by (cases predicate) (auto simp: wanted_rows_def list_all_iff)
    moreover have "place_predicate columns read predicate = Returned ?placed"
      by (cases predicate) (simp_all add: place_predicate_def True)
    ultimately show ?thesis
      using True r by (simp add: output_indices_of_def projection_mask_def read_batch_def)
  next
    case False
    let ?outs = "map (\<lambda>i. the (position (\<lambda>r. r = i) read)) requested"
    let ?pos = "\<lambda>p. the (position (\<lambda>r. r = root_index p) read)"
    let ?placed = "map_option (\<lambda>p. p\<lparr>column_index := ?pos p\<rparr>) predicate"
    let ?b = "projected_batch full read"
    have sub: "set requested \<subseteq> set read" using bounds by simp
    have outs: "output_indices_of schema columns requested read = Returned ?outs"
      using False positions_in_Returned [OF sub] by (simp add: output_indices_of_def)
    have pos: "position (\<lambda>r. r = root_index p) read = Some (?pos p) \<and> ?pos p < length read \<and>
        read ! ?pos p = root_index p" if pr: "predicate = Some p" for p
    proof -
      obtain k where "position (\<lambda>r. r = root_index p) read = Some k"
        using bounds pr position_exists [of "root_index p" read "\<lambda>r. r = root_index p"]
        by blast
      then show ?thesis using position_nth [of "root_index p" read k] by simp
    qed
    have placed: "place_predicate columns read predicate = Returned ?placed"
    proof (cases predicate)
      case (Some p)
      then obtain k where "position (\<lambda>r. r = root_index p) read = Some k" using pos by blast
      with Some False show ?thesis by (simp add: place_predicate_def)
    qed (simp add: place_predicate_def)
    have rd: "read_batch (projection_mask columns read) full = ?b"
      using sorted_distinct_filter_upt [of read ?n] bounds False n
      by (simp add: read_batch_def projection_mask_def)
    have inrange: "list_all (\<lambda>i. i < length (batch_columns full)) read"
      using bounds n by (simp add: list_all_iff)
    have b: "batch_ok ?b" by (rule batch_ok_projected [OF full(1) inrange])
    have cols: "length (batch_columns ?b) = length read" by (simp add: projected_batch_def)
    have col: "batch_columns ?b ! ?pos p = batch_columns full ! root_index p"
      if "predicate = Some p" for p
      using pos [OF that] by (simp add: projected_batch_def)
    have "apply_predicate_and_projection K ?b ?placed ?outs =
        Ok (selected_columns ?b (wanted_rows full predicate) ?outs)"
    proof (cases predicate)
      case None
      then show ?thesis
        using apply_selected [OF K b, of ?placed ?outs] positions_in_nth [OF sub]
        by (simp add: wanted_rows_def cols list_all_iff) (simp add: projected_batch_def)
    next
      case (Some p)
      then show ?thesis
        using apply_selected [OF K b, of ?placed ?outs] positions_in_nth [OF sub] pos [OF Some]
          col [OF Some] fit [OF Some]
        by (simp add: wanted_rows_def cols list_all_iff)
    qed
    also have "selected_columns ?b (wanted_rows full predicate) ?outs =
        selected_columns full (wanted_rows full predicate) requested"
      using positions_in_nth [OF sub] read_positions [OF sub] by (intro selected_projected) auto
    finally show ?thesis using outs placed rd by auto
  qed
qed

text \<open>C12: projection pushdown is invisible: for distinct existing columns the index computations of
  \<open>open_backend\<close> never panic, and applying the predicate and the projection to what the reduced
  read delivers gives the requested columns, in file order, of the rows of the full batch that
  match, whether or not the predicate's column was requested.\<close>

theorem projection_pushdown:
  assumes K: "kernels_ok K" and full: "batch_ok full" "batch_fields full = schema"
    and req: "projection_indices schema columns = Ok requested" and dist: "distinct columns"
    and fits: "predicate_fits schema predicate"
    and read: "read = read_indices requested predicate"
  shows "\<exists>outputs placed. output_indices_of schema columns requested read = Returned outputs \<and>
    place_predicate columns read predicate = Returned placed \<and>
    apply_predicate_and_projection K (read_batch (projection_mask columns read) full) placed outputs
      = Ok (selected_columns full (wanted_rows full predicate) requested)"
  using pushdown_selects [OF assms] .

definition full_batch :: record_batch where
  "full_batch =
     \<lparr>batch_fields = [Field ''id'' Int64 True, Field ''name'' Utf8 True, Field ''ok'' Boolean True],
      batch_columns =
        [\<lparr>array_type = Int64, array_slots = [IntSlot 5, IntSlot 9]\<rparr>,
         \<lparr>array_type = Utf8, array_slots = [TextSlot ''a'', TextSlot ''b'']\<rparr>,
         \<lparr>array_type = Boolean, array_slots = [BoolSlot True, BoolSlot False]\<rparr>],
      batch_rows = 2\<rparr>"

text \<open>The predicate is on a column that was not requested.\<close>

theorem projection_pushdown_witness:
  "\<exists>outputs placed out.
     output_indices_of (batch_fields full_batch) [''ok'', ''name''] [1, 2] [0, 1, 2] = Returned outputs \<and>
     place_predicate [''ok'', ''name''] [0, 1, 2] (Some sample_predicate) = Returned placed \<and>
     apply_predicate_and_projection plain_kernels full_batch placed outputs = Ok out \<and>
     map array_slots (batch_columns out) = [[TextSlot ''b''], [BoolSlot False]]"
proof -
  have ok: "batch_ok full_batch"
    by (auto simp: batch_ok_def full_batch_def less_Suc_eq numeral_3_eq_3)
  have req: "projection_indices (batch_fields full_batch) [''ok'', ''name''] = Ok [1, 2]"
    by (simp add: projection_indices_def full_batch_def)
  have fits: "predicate_fits (batch_fields full_batch) (Some sample_predicate)"
    by (simp add: predicate_fits_def sample_predicate_def full_batch_def literal_fits_def)
  have read: "[0, 1, 2] = read_indices [1, 2] (Some sample_predicate)"
    by (simp add: read_indices_def sample_predicate_def)
  have rows: "wanted_rows full_batch (Some sample_predicate) = [1]"
    by (simp add: wanted_rows_def matching_rows_def full_batch_def sample_predicate_def upt_rec)
  have rd: "read_batch (projection_mask [''ok'', ''name''] [0, 1, 2]) full_batch = full_batch"
    by (simp add: read_batch_def projection_mask_def full_batch_def projected_batch_def upt_rec)
  show ?thesis
    using projection_pushdown [OF plain_kernels_ok ok refl req _ fits read]
    unfolding rows rd by (auto simp: selected_columns_def rows_of_def full_batch_def)
qed

end
