(* ===== verification/Range_Reader.thy ===== *)
theory Range_Reader
  imports Object_Types
begin

text \<open>
  Bounded access to the bytes of an object (\<^verbatim>\<open>reader.rs\<close>): the range metrics, the chunk reader
  the Parquet decoder calls (\<^verbatim>\<open>get_read\<close>, \<^verbatim>\<open>get_bytes\<close>) and the sequential cursor. Positions and
  sizes are 64-bit words. The store behind it is the function \<open>fetch\<close>, the \<^verbatim>\<open>read_range\<close> of
  \<^verbatim>\<open>store.rs\<close>.
\<close>

section \<open>Metrics\<close>

text \<open>\<^verbatim>\<open>fetch_add\<close> wraps at 64 bits.\<close>

record range_metrics =
  metric_requests :: u64
  metric_bytes :: u64
  metric_max_request :: u64

definition metrics_default :: range_metrics where
  "metrics_default = \<lparr>metric_requests = 0, metric_bytes = 0, metric_max_request = 0\<rparr>"

definition metrics_record :: "range_metrics \<Rightarrow> usize \<Rightarrow> range_metrics" where
  "metrics_record m bytes =
     \<lparr>metric_requests = metric_requests m + 1,
      metric_bytes = metric_bytes m + bytes,
      metric_max_request = max (metric_max_request m) bytes\<rparr>"

section \<open>The chunk reader\<close>

datatype parquet_error = ParquetEOF string | ParquetGeneral string

datatype io_error = IoOtherError string | IoOsError io_kind

record chunk_backend =
  backend_fetch :: "string \<Rightarrow> u64 \<Rightarrow> u64 \<Rightarrow> bytes native_result"
  backend_key :: string

definition backend_read_range ::
  "chunk_backend \<Rightarrow> u64 \<Rightarrow> usize \<Rightarrow> cancellation_token \<Rightarrow> bytes native_result" where
  "backend_read_range b offset len token =
     and_then (token_check token OpReaderNext) (\<lambda>_. backend_fetch b (backend_key b) offset len)"

record object_chunk_reader =
  chunk_backend_of :: chunk_backend
  chunk_size :: u64
  max_range_bytes :: usize
  chunk_cancellation :: cancellation_token
  chunk_metrics :: range_metrics

record object_cursor =
  cursor_reader :: object_chunk_reader
  cursor_position :: u64

definition chunk_len :: "object_chunk_reader \<Rightarrow> u64" where
  "chunk_len r = chunk_size r"

definition parquet_object_error :: "native_failure \<Rightarrow> parquet_error" where
  "parquet_object_error e = ParquetGeneral ''bounded object range failed''"

definition object_io_error :: "native_failure \<Rightarrow> io_error" where
  "object_io_error e = IoOtherError ''bounded object range failed''"

definition get_read :: "object_chunk_reader \<Rightarrow> u64 \<Rightarrow> parquet_error + object_cursor" where
  "get_read r start =
     (if chunk_size r < start then Err (ParquetEOF ''range begins beyond the object'')
      else Ok \<lparr>cursor_reader = r, cursor_position = start\<rparr>)"

text \<open>
  The metrics are shared through an \<^verbatim>\<open>Arc\<close>, so a read returns the reader with its metrics
  updated. \<^verbatim>\<open>bytes.len()\<close> is the length of the vector as a \<^verbatim>\<open>usize\<close>.
\<close>

definition vec_len :: "bytes \<Rightarrow> usize" where
  "vec_len bs = word_of_nat (length bs)"

definition record_read :: "object_chunk_reader \<Rightarrow> usize \<Rightarrow> object_chunk_reader" where
  "record_read r n = r\<lparr>chunk_metrics := metrics_record (chunk_metrics r) n\<rparr>"

definition get_bytes ::
  "object_chunk_reader \<Rightarrow> u64 \<Rightarrow> usize \<Rightarrow> parquet_error + bytes \<times> object_chunk_reader" where
  "get_bytes r start len =
     (if max_range_bytes r < len
      then Err (ParquetGeneral ''Parquet page or metadata exceeds the configured range bound'')
      else
        and_then (ok_or (checked_add_u64 start len) (ParquetEOF ''range overflow'')) (\<lambda>end_pos.
        if chunk_size r < end_pos then Err (ParquetEOF ''range exceeds the object'')
        else
          and_then (map_err parquet_object_error
                      (backend_read_range (chunk_backend_of r) start len (chunk_cancellation r)))
            (\<lambda>bytes.
              if vec_len bytes \<noteq> len then Err (ParquetEOF ''range was truncated'')
              else Ok (bytes, record_read r (vec_len bytes)))))"

text \<open>
  \<^verbatim>\<open>Read::read\<close> into a buffer of \<open>cap\<close> bytes. \<^verbatim>\<open>buffer[..bytes.len()]\<close> panics when the store
  returns more bytes than the buffer holds; \<^verbatim>\<open>usize::try_from(available)\<close> never fails on a
  64-bit target.
\<close>

definition cursor_read ::
  "object_cursor \<Rightarrow> usize \<Rightarrow> (io_error + bytes \<times> object_cursor) unwind" where
  "cursor_read c cap =
     (let r = cursor_reader c in
      if cap = 0 \<or> cursor_position c = chunk_size r then Returned (Ok ([], c))
      else
        (let available = chunk_size r - cursor_position c;
             len = min (min cap (max_range_bytes r)) available
         in case map_err object_io_error
                   (backend_read_range (chunk_backend_of r) (cursor_position c) len
                      (chunk_cancellation r)) of
              Inl e \<Rightarrow> Returned (Err e)
            | Inr bytes \<Rightarrow>
                if cap < vec_len bytes then Panicked
                else
                  Returned (Ok (bytes,
                    \<lparr>cursor_reader = record_read r (vec_len bytes),
                     cursor_position = cursor_position c + vec_len bytes\<rparr>))))"

section \<open>What the store promises\<close>

text \<open>
  The interface the reader relies on: a successful range read starts inside the object and
  returns the bytes of the range up to the end of the object, and the object is no longer than
  a 64-bit size.
\<close>

definition slice :: "nat \<Rightarrow> nat \<Rightarrow> 'a list \<Rightarrow> 'a list" where
  "slice offset len xs = take len (drop offset xs)"

lemma slice_length [simp]: "length (slice offset len xs) = min len (length xs - offset)"
  by (simp add: slice_def min.commute)

lemma slice_append: "slice offset a xs @ slice (offset + a) b xs = slice offset (a + b) xs"
  by (simp add: slice_def take_add add.commute)

text \<open>Reading changes nothing of a reader but its metrics.\<close>

definition same_source :: "object_chunk_reader \<Rightarrow> object_chunk_reader \<Rightarrow> bool" where
  "same_source r r' \<longleftrightarrow>
     chunk_backend_of r' = chunk_backend_of r \<and> chunk_size r' = chunk_size r \<and>
     max_range_bytes r' = max_range_bytes r \<and> chunk_cancellation r' = chunk_cancellation r"

lemma same_source_refl [simp]: "same_source r r"
  by (simp add: same_source_def)

lemma same_source_record [simp]: "same_source r (record_read r n)"
  by (simp add: same_source_def record_read_def)

text \<open>
  A consumer that reads with a buffer of \<open>cap\<close> bytes until a read returns nothing, as
  \<^verbatim>\<open>read_to_end\<close> does; \<^const>\<open>None\<close> stands for an error, a panic or no end within the fuel.
\<close>

fun drain_cursor :: "nat \<Rightarrow> usize \<Rightarrow> object_cursor \<Rightarrow> bytes option" where
  "drain_cursor 0 cap c = None"
| "drain_cursor (Suc fuel) cap c =
     (case cursor_read c cap of
        Returned (Inr (bytes, c')) \<Rightarrow>
          if bytes = [] then Some []
          else map_option (\<lambda>rest. bytes @ rest) (drain_cursor fuel cap c')
      | _ \<Rightarrow> None)"

locale range_source =
  fixes fetch :: "string \<Rightarrow> u64 \<Rightarrow> u64 \<Rightarrow> bytes native_result"
    and content :: "string \<Rightarrow> bytes"
  assumes fetch_slice:
      "fetch key offset len = Ok bytes \<Longrightarrow>
         unat offset \<le> length (content key) \<and>
         bytes = slice (unat offset) (unat len) (content key)"
    and content_small: "length (content key) < 2 ^ 64"
begin

lemma vec_len_slice: "unat (vec_len (slice offset len (content key))) =
    min len (length (content key) - offset)"
proof -
  have "length (slice offset len (content key)) < 2 ^ 64"
    using content_small [of key] by simp
  then show ?thesis
    unfolding vec_len_def unat_of_nat by simp
qed

text \<open>What \<^verbatim>\<open>get_bytes\<close> returns is the requested slice, within the object and the bound.\<close>

lemma get_bytes_Ok:
  assumes r: "backend_fetch (chunk_backend_of r) = fetch"
    and ok: "get_bytes r start len = Ok (bytes, r')"
  shows "unat len \<le> unat (max_range_bytes r) \<and>
    unat start + unat len \<le> unat (chunk_size r) \<and>
    bytes = slice (unat start) (unat len) (content (backend_key (chunk_backend_of r))) \<and>
    length bytes = unat len \<and> r' = record_read r len \<and>
    \<not> cancelled_flag (chunk_cancellation r)"
proof -
  let ?key = "backend_key (chunk_backend_of r)"
  have f: "fetch ?key start len = Ok bytes" and tok: "\<not> cancelled_flag (chunk_cancellation r)"
    and bound: "\<not> max_range_bytes r < len" and e: "checked_add_u64 start len = Some (start + len)"
    and size: "\<not> chunk_size r < start + len" and r': "r' = record_read r len"
    and l: "vec_len bytes = len"
    using ok r
    by (auto simp: get_bytes_def backend_read_range_def result_simps checked_add_u64_Some
        token_check_def split: if_splits)
  have "unat (start + len) = unat start + unat len"
    using e by (intro unat_add_u64) (simp add: checked_add_u64_Some)
  then have "unat start + unat len \<le> unat (chunk_size r)"
    using size by (simp add: word_le_nat_alt not_less)
  moreover have b: "bytes = slice (unat start) (unat len) (content ?key)"
    using fetch_slice [OF f] by simp
  moreover have "length bytes = unat len"
    using l b vec_len_slice [of "unat start" "unat len" ?key] by simp
  moreover have "unat len \<le> unat (max_range_bytes r)"
    using bound by (simp add: word_le_nat_alt not_less)
  ultimately show ?thesis using r' tok by simp
qed

text \<open>A sequential read returns the next bytes, no more than the buffer and the bound allow.\<close>

definition readable :: "object_cursor \<Rightarrow> bool" where
  "readable c \<longleftrightarrow>
     (let r = cursor_reader c; key = backend_key (chunk_backend_of r) in
      backend_fetch (chunk_backend_of r) = fetch \<and>
      unat (chunk_size r) = length (content key) \<and> cursor_position c \<le> chunk_size r \<and>
      (\<forall>offset len. unat offset \<le> length (content key) \<longrightarrow>
         (\<exists>bytes. fetch key offset len = Ok bytes)) \<and>
      \<not> cancelled_flag (chunk_cancellation r))"

lemma cursor_read_Ok:
  assumes c: "readable c"
    and n: "n = min (min (unat cap) (unat (max_range_bytes (cursor_reader c))))
      (unat (chunk_size (cursor_reader c)) - unat (cursor_position c))"
  obtains c' where "cursor_read c cap =
      Returned (Ok (slice (unat (cursor_position c)) n
        (content (backend_key (chunk_backend_of (cursor_reader c)))), c'))"
    "unat (cursor_position c') = unat (cursor_position c) + n"
    "same_source (cursor_reader c) (cursor_reader c')"
proof -
  let ?r = "cursor_reader c"
  let ?key = "backend_key (chunk_backend_of ?r)"
  let ?pos = "cursor_position c"
  have r: "backend_fetch (chunk_backend_of ?r) = fetch" and token: "\<not> cancelled_flag (chunk_cancellation ?r)"
    and size: "unat (chunk_size ?r) = length (content ?key)" and pos: "?pos \<le> chunk_size ?r"
    and serves: "\<And>offset len. unat offset \<le> length (content ?key) \<Longrightarrow>
      \<exists>bytes. fetch ?key offset len = Ok bytes"
    using c by (auto simp: readable_def Let_def)
  show ?thesis
  proof (cases "cap = 0 \<or> ?pos = chunk_size ?r")
    case True
    then have n0: "n = 0" using n by auto
    from True have "cursor_read c cap = Returned (Ok ([], c))"
      by (auto simp: cursor_read_def)
    then show ?thesis by (intro that [of c]) (simp_all add: slice_def n0)
  next
    case False
    let ?len = "min (min cap (max_range_bytes ?r)) (chunk_size ?r - ?pos)"
    have len: "unat ?len = n"
      unfolding n using pos by (simp add: unat_sub min_def word_le_nat_alt)
    obtain bytes where f: "fetch ?key ?pos ?len = Ok bytes"
      using serves [of ?pos ?len] pos size by (auto simp: word_le_nat_alt)
    then have bytes: "bytes = slice (unat ?pos) n (content ?key)"
      using fetch_slice [OF f] len by simp
    have "n \<le> length (content ?key) - unat ?pos" unfolding n size by simp
    then have vl: "unat (vec_len bytes) = n"
      unfolding bytes vec_len_slice by simp
    have "n \<le> unat cap" unfolding n by simp
    then have "\<not> cap < vec_len bytes" using vl by (simp add: word_less_nat_alt)
    then have read: "cursor_read c cap = Returned (Ok (bytes,
        \<lparr>cursor_reader = record_read ?r (vec_len bytes),
         cursor_position = ?pos + vec_len bytes\<rparr>))"
      using False f r token
      by (simp add: cursor_read_def Let_def backend_read_range_def token_check_def)
    have "unat ?pos + n \<le> unat (chunk_size ?r)"
      unfolding n using pos by (simp add: word_le_nat_alt)
    also have "\<dots> < 2 ^ 64" by (rule order_less_le_trans [OF unsigned_less]) simp
    finally have step: "unat (?pos + vec_len bytes) = unat ?pos + n"
      using unat_add_u64 [of ?pos "vec_len bytes"] unfolding vl by blast
    show ?thesis
      by (rule that [OF read [unfolded bytes]]) (simp_all add: step [unfolded bytes])
  qed
qed

lemma readable_step:
  assumes "readable c" and "same_source (cursor_reader c) (cursor_reader c')"
    and "unat (cursor_position c') \<le> unat (chunk_size (cursor_reader c))"
  shows "readable c'"
  using assms by (simp add: readable_def same_source_def Let_def word_le_nat_alt)

lemma drain_cursor_Some:
  assumes "readable c" and "0 < cap" and "0 < max_range_bytes (cursor_reader c)"
    and "unat (chunk_size (cursor_reader c)) - unat (cursor_position c) < fuel"
  shows "drain_cursor fuel cap c =
    Some (drop (unat (cursor_position c))
      (content (backend_key (chunk_backend_of (cursor_reader c)))))"
  using assms
proof (induction fuel arbitrary: c)
  case (Suc fuel)
  let ?r = "cursor_reader c"
  let ?xs = "content (backend_key (chunk_backend_of ?r))"
  define n where "n = min (min (unat cap) (unat (max_range_bytes ?r)))
    (unat (chunk_size ?r) - unat (cursor_position c))"
  obtain c' where read: "cursor_read c cap = Returned (Ok (slice (unat (cursor_position c)) n ?xs, c'))"
    and pos: "unat (cursor_position c') = unat (cursor_position c) + n"
    and src: "same_source ?r (cursor_reader c')"
    by (rule cursor_read_Ok [OF Suc.prems(1) n_def])
  have size: "unat (chunk_size ?r) = length ?xs"
    and le: "unat (cursor_position c) \<le> unat (chunk_size ?r)"
    using Suc.prems(1) by (simp_all add: readable_def Let_def word_le_nat_alt)
  have len: "length (slice (unat (cursor_position c)) n ?xs) = n"
    using size by (simp add: n_def)
  show ?case
  proof (cases "n = 0")
    case True
    have "0 < unat cap" "0 < unat (max_range_bytes ?r)"
      using Suc.prems(2,3) by (simp_all add: word_less_nat_alt)
    with True have "unat (chunk_size ?r) \<le> unat (cursor_position c)" by (auto simp: n_def min_def split: if_splits)
    moreover have "slice (unat (cursor_position c)) n ?xs = []" using True by (simp add: slice_def)
    ultimately show ?thesis using read size by simp
  next
    case False
    then have ne: "slice (unat (cursor_position c)) n ?xs \<noteq> []" using len by (metis list.size(3))
    have le': "unat (cursor_position c') \<le> unat (chunk_size ?r)" using le by (simp add: pos n_def)
    have same: "cursor_reader c' = cursor_reader c' \<and> chunk_size (cursor_reader c') = chunk_size ?r \<and>
        backend_key (chunk_backend_of (cursor_reader c')) = backend_key (chunk_backend_of ?r) \<and>
        max_range_bytes (cursor_reader c') = max_range_bytes ?r"
      using src by (simp add: same_source_def)
    have "drain_cursor fuel cap c' = Some (drop (unat (cursor_position c')) ?xs)"
      using Suc.IH [OF readable_step [OF Suc.prems(1) src le'] Suc.prems(2)] same Suc.prems(3,4)
        pos False le le' by simp
    then show ?thesis
      using read ne by (simp add: pos slice_def flip: drop_drop) (metis add.commute append_take_drop_id drop_drop)
  qed
qed simp

end

end
