(* ===== verification/Reader_State.thy ===== *)
theory Reader_State
  imports Projection Range_Reader Text_Codec
begin

text \<open>
  The state of an open reader (\<^verbatim>\<open>ReaderState\<close> of \<^verbatim>\<open>reader.rs\<close>): opening a file, the prefetch queue
  behind \<^verbatim>\<open>next_batch\<close>, \<^verbatim>\<open>close\<close> and \<^verbatim>\<open>stats\<close>. The batch iterator of the \<^verbatim>\<open>parquet\<close> crate is the
  list of the results it will still return, each with the sizes of the range requests it makes
  for it. The two counts of buffered memory
  are natural numbers: they add up the reported sizes of at most \<open>prefetch_depth\<close> batches that are
  in memory at the same time, and the 64-bit sums of the code are taken not to overflow.
\<close>

section \<open>State\<close>

datatype decoded_item = DecodedItem (item_requests: "usize list") (item_result: "unit + record_batch")

type_synonym batch_reader = "decoded_item list"

record reader_state =
  rs_reader :: "batch_reader option"
  rs_queue :: "record_batch list"
  rs_cancellation :: cancellation_token
  rs_range_metrics :: range_metrics
  prefetch_depth :: nat
  current_buffered_bytes :: nat
  peak_buffered_bytes :: nat
  peak_buffered_batches :: nat
  rs_active :: bool
  rs_eof :: bool
  rs_row_groups :: nat
  rs_compressions :: "string list"
  rs_writer_options :: "string \<Rightarrow> string option"
  rs_predicate :: "compiled_predicate option"
  rs_output_indices :: "nat list"
  rs_row_groups_read :: nat
  rs_row_groups_skipped :: nat

record reader_stats =
  stat_active :: bool
  stat_buffered_batches :: nat
  stat_buffered_bytes :: nat
  stat_peak_buffered_batches :: nat
  stat_peak_buffered_bytes :: nat
  stat_range_requests :: u64
  stat_range_bytes :: u64
  stat_max_range_bytes :: u64
  stat_row_groups :: nat
  stat_row_groups_read :: nat
  stat_row_groups_skipped :: nat
  stat_compressions :: "string list"
  stat_writer_options :: "string \<Rightarrow> string option"

section \<open>The operations\<close>

definition decode_failure :: native_failure where
  "decode_failure = failure_new MalformedData OpReaderNext ''Parquet batch decoding failed''"

definition push_batch :: "arrow_kernels \<Rightarrow> record_batch \<Rightarrow> reader_state \<Rightarrow> reader_state" where
  "push_batch K b st =
     (let bytes = current_buffered_bytes st + memory_size K b;
          queue = rs_queue st @ [b]
      in st\<lparr>current_buffered_bytes := bytes, rs_queue := queue,
            peak_buffered_bytes := max (peak_buffered_bytes st) bytes,
            peak_buffered_batches := max (peak_buffered_batches st) (length queue)\<rparr>)"

text \<open>
  The \<^verbatim>\<open>while\<close> loop: it takes the next result as long as the queue is short and the end was not
  seen. The recursion is on the results still to come.
\<close>

definition wants_more :: "reader_state \<Rightarrow> bool" where
  "wants_more st \<longleftrightarrow> length (rs_queue st) < prefetch_depth st \<and> \<not> rs_eof st"

fun fill_queue ::
  "arrow_kernels \<Rightarrow> batch_reader \<Rightarrow> reader_state \<Rightarrow> reader_state \<times> unit native_result" where
  "fill_queue K [] st =
     (if \<not> wants_more st then (st\<lparr>rs_reader := Some []\<rparr>, Ok ())
      else (st\<lparr>rs_reader := Some [], rs_eof := True\<rparr>, Ok ()))"
| "fill_queue K (item # rest) st =
     (if \<not> wants_more st then (st\<lparr>rs_reader := Some (item # rest)\<rparr>, Ok ())
      else
        (let st = st\<lparr>rs_range_metrics := fold (\<lambda>n m. metrics_record m n) (item_requests item)
               (rs_range_metrics st)\<rparr>
         in case item_result item of
              Inl _ \<Rightarrow> (st\<lparr>rs_reader := Some rest\<rparr>, Err decode_failure)
            | Inr batch \<Rightarrow>
                (case apply_predicate_and_projection K batch (rs_predicate st)
                        (rs_output_indices st) of
                   Inl e \<Rightarrow> (st\<lparr>rs_reader := Some rest\<rparr>, Err e)
                 | Inr b \<Rightarrow>
                     if batch_rows b = 0 then fill_queue K rest st
                     else fill_queue K rest (push_batch K b st))))"

definition pop_batch :: "arrow_kernels \<Rightarrow> reader_state \<Rightarrow> reader_state \<times> record_batch option" where
  "pop_batch K st =
     (case rs_queue st of
        [] \<Rightarrow> (st, None)
      | b # rest \<Rightarrow>
          (st\<lparr>rs_queue := rest,
              current_buffered_bytes := current_buffered_bytes st - memory_size K b\<rparr>,
           Some b))"

definition next_batch ::
  "arrow_kernels \<Rightarrow> reader_state \<Rightarrow> reader_state \<times> record_batch option native_result" where
  "next_batch K st =
     (case token_check (rs_cancellation st) OpReaderNext of
        Inl e \<Rightarrow> (st, Err e)
      | Inr _ \<Rightarrow>
          if \<not> rs_active st then (st, Err (failure_cancelled OpReaderNext))
          else
            (case (if wants_more st
                   then (case rs_reader st of
                           None \<Rightarrow> (st, Err (failure_cancelled OpReaderNext))
                         | Some items \<Rightarrow> fill_queue K items st)
                   else (st, Ok ())) of
               (st, Inl e) \<Rightarrow> (st, Err e)
             | (st, Inr _) \<Rightarrow> (case pop_batch K st of (st, b) \<Rightarrow> (st, Ok b))))"

text \<open>\<^verbatim>\<open>ACTIVE_READERS\<close> is the second component; \<^verbatim>\<open>fetch_sub\<close> wraps.\<close>

definition reader_close :: "reader_state \<Rightarrow> usize \<Rightarrow> (reader_state \<times> usize) \<times> bool" where
  "reader_close st active_readers =
     (if \<not> rs_active st then ((st, active_readers), False)
      else
        ((st\<lparr>rs_cancellation := token_cancel (rs_cancellation st), rs_reader := None,
             rs_queue := [], current_buffered_bytes := 0, rs_active := False\<rparr>,
          active_readers - 1), True))"

definition reader_stats_of :: "reader_state \<Rightarrow> reader_stats" where
  "reader_stats_of st =
     \<lparr>stat_active = rs_active st,
      stat_buffered_batches = length (rs_queue st),
      stat_buffered_bytes = current_buffered_bytes st,
      stat_peak_buffered_batches = peak_buffered_batches st,
      stat_peak_buffered_bytes = peak_buffered_bytes st,
      stat_range_requests = metric_requests (rs_range_metrics st),
      stat_range_bytes = metric_bytes (rs_range_metrics st),
      stat_max_range_bytes = metric_max_request (rs_range_metrics st),
      stat_row_groups = rs_row_groups st,
      stat_row_groups_read = rs_row_groups_read st,
      stat_row_groups_skipped = rs_row_groups_skipped st,
      stat_compressions = rs_compressions st,
      stat_writer_options = rs_writer_options st\<rparr>"

section \<open>Opening\<close>

text \<open>
  The calls of the \<^verbatim>\<open>parquet\<close> crate: reading the metadata through the chunk reader, with the
  Arrow schema of the file and the requests it made, and building the batch iterator for a
  batch size, a projection and a selection of row groups.
\<close>

record opened_file =
  file_schema :: "field list"
  file_metadata :: parquet_metadata
  file_chunks :: object_chunk_reader

record parquet_lib =
  builder_try_new :: "object_chunk_reader \<Rightarrow> opened_file option"
  reader_build :: "opened_file \<Rightarrow> nat \<Rightarrow> nat list option \<Rightarrow> nat list \<Rightarrow> batch_reader option"

record reader_open_settings =
  set_max_range_bytes :: usize
  set_batch_size :: nat
  set_prefetch_depth :: nat
  set_columns :: "string list"
  set_predicate :: "native_predicate option"

definition malformed_open :: native_failure where
  "malformed_open = failure_new MalformedData OpReaderOpen ''Parquet metadata is malformed''"

definition file_compressions :: "parquet_metadata \<Rightarrow> string list" where
  "file_compressions md =
     remdups_adj (sort (map (\<lambda>c. compression_label (chunk_compression c))
       (concat (map row_group_columns (md_row_groups md)))))"

text \<open>Collecting pairs into a map keeps the last value of a key.\<close>

definition file_writer_options :: "parquet_metadata \<Rightarrow> string \<Rightarrow> string option" where
  "file_writer_options md =
     map_of (rev (map (\<lambda>(k, v). (k, the v))
       (filter (\<lambda>(k, v). v \<noteq> None \<and> starts_with k ''parquex.'') (md_key_values md))))"

definition initial_reader ::
  "batch_reader \<Rightarrow> cancellation_token \<Rightarrow> range_metrics \<Rightarrow> nat \<Rightarrow> parquet_metadata
   \<Rightarrow> compiled_predicate option \<Rightarrow> nat list \<Rightarrow> nat \<Rightarrow> reader_state" where
  "initial_reader items token metrics depth md predicate outputs groups_read =
     \<lparr>rs_reader = Some items, rs_queue = [], rs_cancellation = token, rs_range_metrics = metrics,
      prefetch_depth = depth, current_buffered_bytes = 0, peak_buffered_bytes = 0,
      peak_buffered_batches = 0, rs_active = True, rs_eof = False,
      rs_row_groups = length (md_row_groups md), rs_compressions = file_compressions md,
      rs_writer_options = file_writer_options md, rs_predicate = predicate,
      rs_output_indices = outputs, rs_row_groups_read = groups_read,
      rs_row_groups_skipped = length (md_row_groups md) - groups_read\<rparr>"

definition compile_optional ::
  "native_predicate option \<Rightarrow> field list \<Rightarrow> compiled_predicate option native_result" where
  "compile_optional predicate schema =
     (case predicate of
        None \<Rightarrow> Ok None
      | Some p \<Rightarrow> and_then (compile_predicate p schema) (\<lambda>c. Ok (Some c)))"

definition projected_fields ::
  "field list \<Rightarrow> string list \<Rightarrow> nat list \<Rightarrow> native_field list \<Rightarrow> native_field list native_result"
where
  "projected_fields schema columns requested all_fields =
     (if columns = [] then Ok all_fields
      else collect_results (map (\<lambda>i. native_field (schema ! i)) requested))"

text \<open>The fallible head of \<^verbatim>\<open>open_backend\<close>, up to the index computations.\<close>

definition open_columns ::
  "field list \<Rightarrow> string list \<Rightarrow> native_predicate option
   \<Rightarrow> (nat list \<times> compiled_predicate option \<times> nat list \<times> native_field list) native_result" where
  "open_columns schema columns predicate =
     and_then (collect_results (map native_field schema)) (\<lambda>all_fields.
     and_then (projection_indices schema columns) (\<lambda>requested.
     and_then (compile_optional predicate schema) (\<lambda>compiled.
     let read = read_indices requested compiled in
     and_then (projected_fields schema columns requested all_fields) (\<lambda>out_fields.
     Ok (requested, compiled, read, out_fields)))))"

definition open_backend ::
  "parquet_lib \<Rightarrow> chunk_backend \<Rightarrow> u64 \<Rightarrow> cancellation_token \<Rightarrow> reader_open_settings \<Rightarrow> usize
   \<Rightarrow> (usize \<times> (reader_state \<times> native_field list) native_result) unwind" where
  "open_backend P backend obj_size token settings active_readers =
     (let columns = set_columns settings;
          chunks =
            \<lparr>chunk_backend_of = backend, chunk_size = obj_size,
             max_range_bytes = set_max_range_bytes settings, chunk_cancellation = token,
             chunk_metrics = metrics_default\<rparr>
      in case builder_try_new P chunks of
           None \<Rightarrow> Returned (active_readers, Err malformed_open)
         | Some file \<Rightarrow>
             (case open_columns (file_schema file) columns (set_predicate settings) of
                Inl e \<Rightarrow> Returned (active_readers, Err e)
              | Inr (requested, compiled, read, out_fields) \<Rightarrow>
                  unwind_then (output_indices_of (file_schema file) columns requested read)
                    (\<lambda>outputs.
                  unwind_then (place_predicate columns read compiled) (\<lambda>placed.
                  unwind_then (select_row_groups (file_metadata file) placed) (\<lambda>groups.
                  case reader_build P file (set_batch_size settings) (projection_mask columns read)
                         groups of
                    None \<Rightarrow> Returned (active_readers, Err malformed_open)
                  | Some items \<Rightarrow>
                      Returned (active_readers + 1,
                        Ok (initial_reader items token (chunk_metrics (file_chunks file))
                              (set_prefetch_depth settings) (file_metadata file) placed outputs
                              (length groups),
                            out_fields)))))))"

end
