(* ===== verification/Reader_Proofs.thy ===== *)
theory Reader_Proofs
  imports Reader_State
begin

text \<open>
  The reader as a source of batches: an interface that promises to deliver a list in order, the
  proof that the prefetch queue provides it, and the invariants of the state.
\<close>

section \<open>The interface of a batch source\<close>

text \<open>A sequence of calls: the state after \<open>n\<close> of them and their results.\<close>

primrec after_calls :: "('s \<Rightarrow> 's \<times> 'r) \<Rightarrow> nat \<Rightarrow> 's \<Rightarrow> 's" where
  "after_calls step 0 s = s"
| "after_calls step (Suc n) s = after_calls step n (fst (step s))"

primrec call_results :: "('s \<Rightarrow> 's \<times> 'r) \<Rightarrow> nat \<Rightarrow> 's \<Rightarrow> 'r list" where
  "call_results step 0 s = []"
| "call_results step (Suc n) s = snd (step s) # call_results step n (fst (step s))"

definition delivered :: "'b option native_result list \<Rightarrow> 'b list" where
  "delivered rs = concat (map (\<lambda>r. case r of Inr (Some b) \<Rightarrow> [b] | _ \<Rightarrow> []) rs)"

definition reported_errors :: "'b option native_result list \<Rightarrow> nat" where
  "reported_errors rs = length (filter isl rs)"

text \<open>
  \<open>pending\<close> is what is still to be delivered, \<open>failures\<close> the number of errors still to be
  reported. A call delivers the first pending batch, or reports one error, or says that nothing
  is left.
\<close>

locale batch_source =
  fixes step :: "'s \<Rightarrow> 's \<times> 'b option native_result"
    and pending :: "'s \<Rightarrow> 'b list"
    and failures :: "'s \<Rightarrow> nat"
    and live :: "'s \<Rightarrow> bool"
  assumes step_live: "live s \<Longrightarrow> live (fst (step s))"
    and step_some: "live s \<Longrightarrow> snd (step s) = Ok (Some b) \<Longrightarrow>
      pending s = b # pending (fst (step s)) \<and> failures (fst (step s)) = failures s"
    and step_none: "live s \<Longrightarrow> snd (step s) = Ok None \<Longrightarrow>
      pending s = [] \<and> failures s = 0 \<and> pending (fst (step s)) = [] \<and>
      failures (fst (step s)) = 0"
    and step_err: "live s \<Longrightarrow> snd (step s) = Err e \<Longrightarrow>
      pending (fst (step s)) = pending s \<and> failures s = Suc (failures (fst (step s)))"
begin

lemma step_cases:
  assumes "live s"
  obtains (some) b where "snd (step s) = Ok (Some b)" "pending s = b # pending (fst (step s))"
      "failures (fst (step s)) = failures s"
    | (none) "snd (step s) = Ok None" "pending s = []" "pending (fst (step s)) = []"
      "failures s = 0" "failures (fst (step s)) = 0"
    | (err) e where "snd (step s) = Err e" "pending (fst (step s)) = pending s"
      "failures s = Suc (failures (fst (step s)))"
proof (cases "snd (step s)")
  case (Inl e)
  then show ?thesis using step_err [OF assms Inl] err by blast
next
  case (Inr r)
  then show ?thesis
    using step_some [OF assms] step_none [OF assms] some none by (cases r) blast+
qed

text \<open>Nothing is lost, repeated or reordered, however many calls are made.\<close>

lemma delivered_pending:
  "live s \<Longrightarrow> delivered (call_results step n s) @ pending (after_calls step n s) = pending s"
proof (induction n arbitrary: s)
  case (Suc n)
  note ih = Suc.IH [OF step_live [OF Suc.prems]]
  from Suc.prems show ?case
    by (cases rule: step_cases) (use ih in \<open>simp_all add: delivered_def\<close>)
qed (simp add: delivered_def)

lemma errors_failures: "live s \<Longrightarrow> reported_errors (call_results step n s) + failures (after_calls step n s) = failures s"
proof (induction n arbitrary: s)
  case (Suc n)
  note ih = Suc.IH [OF step_live [OF Suc.prems]]
  from Suc.prems show ?case
    by (cases rule: step_cases) (use ih in \<open>simp_all add: reported_errors_def\<close>)
qed (simp add: reported_errors_def)

text \<open>Enough calls deliver everything and report every error.\<close>

lemma drained:
  "live s \<Longrightarrow> length (pending s) + failures s \<le> n \<Longrightarrow>
     delivered (call_results step n s) = pending s \<and> pending (after_calls step n s) = []"
proof (induction n arbitrary: s)
  case (Suc n)
  note ih = Suc.IH [OF step_live [OF Suc.prems(1)]]
  from Suc.prems(1) show ?case
    by (cases rule: step_cases) (use ih Suc.prems(2) in \<open>auto simp: delivered_def\<close>)
qed (simp add: delivered_def)

lemma clean_results:
  "live s \<Longrightarrow> failures s = 0 \<Longrightarrow>
     call_results step (length (pending s) + k) s =
       map (\<lambda>b. Ok (Some b)) (pending s) @ replicate k (Ok None)"
proof (induction "length (pending s) + k" arbitrary: s k)
  case (Suc n)
  note live' = step_live [OF Suc.prems(1)]
  from Suc.prems(1) show ?case
  proof (cases rule: step_cases)
    case (some b)
    then have "n = length (pending (fst (step s))) + k" using Suc.hyps(2) by simp
    from Suc.hyps(1) [OF this live'] some Suc.prems(2) show ?thesis by simp
  next
    case none
    then obtain j where k: "k = Suc j" using Suc.hyps(2) by (cases k) auto
    then have "n = length (pending (fst (step s))) + j" using Suc.hyps(2) none by simp
    from Suc.hyps(1) [OF this live'] none k Suc.prems(2) show ?thesis by simp
  next
    case (err e)
    with Suc.prems(2) show ?thesis by simp
  qed
qed simp

end

section \<open>The prefetch queue\<close>

text \<open>What a result of the decoder becomes.\<close>

definition outcome :: "arrow_kernels \<Rightarrow> reader_state \<Rightarrow> decoded_item \<Rightarrow> record_batch native_result"
where
  "outcome K st item =
     (case item_result item of
        Inl _ \<Rightarrow> Err decode_failure
      | Inr batch \<Rightarrow> apply_predicate_and_projection K batch (rs_predicate st) (rs_output_indices st))"

fun ready :: "arrow_kernels \<Rightarrow> reader_state \<Rightarrow> batch_reader \<Rightarrow> record_batch list" where
  "ready K st [] = []"
| "ready K st (item # rest) =
     (case outcome K st item of
        Inl _ \<Rightarrow> ready K st rest
      | Inr b \<Rightarrow> if batch_rows b = 0 then ready K st rest else b # ready K st rest)"

fun failing :: "arrow_kernels \<Rightarrow> reader_state \<Rightarrow> batch_reader \<Rightarrow> nat" where
  "failing K st [] = 0"
| "failing K st (item # rest) =
     (case outcome K st item of Inl _ \<Rightarrow> Suc (failing K st rest) | Inr b \<Rightarrow> failing K st rest)"

definition unread :: "reader_state \<Rightarrow> batch_reader" where
  "unread st = (case rs_reader st of None \<Rightarrow> [] | Some items \<Rightarrow> items)"

definition reader_pending :: "arrow_kernels \<Rightarrow> reader_state \<Rightarrow> record_batch list" where
  "reader_pending K st = rs_queue st @ ready K st (unread st)"

definition reader_failures :: "arrow_kernels \<Rightarrow> reader_state \<Rightarrow> nat" where
  "reader_failures K st = failing K st (unread st)"

text \<open>The bounds of the queue and its accounting.\<close>

definition queue_inv :: "arrow_kernels \<Rightarrow> reader_state \<Rightarrow> bool" where
  "queue_inv K st \<longleftrightarrow>
     length (rs_queue st) \<le> prefetch_depth st \<and>
     current_buffered_bytes st = sum_list (map (memory_size K) (rs_queue st)) \<and>
     (\<forall>b \<in> set (rs_queue st). 0 < batch_rows b) \<and>
     current_buffered_bytes st \<le> peak_buffered_bytes st \<and>
     length (rs_queue st) \<le> peak_buffered_batches st \<and>
     peak_buffered_batches st \<le> prefetch_depth st"

definition reader_inv :: "arrow_kernels \<Rightarrow> reader_state \<Rightarrow> bool" where
  "reader_inv K st \<longleftrightarrow>
     queue_inv K st \<and> 0 < prefetch_depth st \<and>
     (rs_eof st \<longrightarrow> unread st = []) \<and>
     (rs_active st \<longleftrightarrow> rs_reader st \<noteq> None) \<and>
     (\<not> rs_active st \<longrightarrow> rs_queue st = [] \<and> cancelled_flag (rs_cancellation st))"

definition reader_live :: "arrow_kernels \<Rightarrow> reader_state \<Rightarrow> bool" where
  "reader_live K st \<longleftrightarrow>
     reader_inv K st \<and> rs_active st \<and> \<not> cancelled_flag (rs_cancellation st)"

text \<open>The fields the loop leaves alone.\<close>

definition same_settings :: "reader_state \<Rightarrow> reader_state \<Rightarrow> bool" where
  "same_settings st st' \<longleftrightarrow>
     rs_predicate st' = rs_predicate st \<and> rs_output_indices st' = rs_output_indices st \<and>
     prefetch_depth st' = prefetch_depth st \<and> rs_active st' = rs_active st \<and>
     rs_cancellation st' = rs_cancellation st"

lemma same_settings_ready:
  assumes "same_settings st st'"
  shows "ready K st' items = ready K st items" "failing K st' items = failing K st items"
proof -
  have "outcome K st' item = outcome K st item" for item
    using assms by (simp add: outcome_def same_settings_def split: sum.splits)
  then show "ready K st' items = ready K st items" "failing K st' items = failing K st items"
    by (induction items) (simp_all split: sum.splits)
qed

lemma same_settings_trans:
  "same_settings a b \<Longrightarrow> same_settings b c \<Longrightarrow> same_settings a c"
  by (simp add: same_settings_def)

lemma queue_inv_push:
  assumes "queue_inv K st" and "wants_more st" and "batch_rows b \<noteq> 0"
  shows "queue_inv K (push_batch K b st)"
  using assms by (auto simp: queue_inv_def push_batch_def wants_more_def Let_def)

lemma push_batch_simps [simp]:
  "rs_queue (push_batch K b st) = rs_queue st @ [b]"
  "rs_eof (push_batch K b st) = rs_eof st"
  "rs_reader (push_batch K b st) = rs_reader st"
  "prefetch_depth (push_batch K b st) = prefetch_depth st"
  by (simp_all add: push_batch_def Let_def)

lemma push_batch_settings: "same_settings st (push_batch K b st)"
  by (simp add: same_settings_def push_batch_def Let_def)

text \<open>The loop: settings kept, accounting kept, nothing lost, and why it stopped.\<close>

definition fill_post ::
  "arrow_kernels \<Rightarrow> reader_state \<Rightarrow> batch_reader \<Rightarrow> reader_state \<times> unit native_result \<Rightarrow> bool" where
  "fill_post K st items res \<longleftrightarrow>
     same_settings st (fst res) \<and> queue_inv K (fst res) \<and>
     (\<exists>rest. rs_reader (fst res) = Some rest \<and> (rs_eof (fst res) \<longrightarrow> rest = []) \<and>
       rs_queue (fst res) @ ready K st rest = rs_queue st @ ready K st items \<and>
       (if isl (snd res) then failing K st items = Suc (failing K st rest)
        else \<not> wants_more (fst res) \<and> failing K st rest = failing K st items))"

lemma fill_post_from:
  assumes "fill_post K st0 items0 res" and "same_settings st st0"
    and "rs_queue st0 @ ready K st items0 = rs_queue st @ ready K st items"
    and "failing K st items0 = failing K st items"
  shows "fill_post K st items res"
  using assms(1,3,4) same_settings_trans [OF assms(2)]
  unfolding fill_post_def same_settings_ready [OF assms(2)] by auto

lemma fill_queue_spec:
  assumes "queue_inv K st" and "rs_eof st \<longrightarrow> items = []"
  shows "fill_post K st items (fill_queue K items st)"
  using assms
proof (induction K items st rule: fill_queue.induct)
  case (1 K st)
  then show ?case by (auto simp: fill_post_def same_settings_def queue_inv_def wants_more_def)
next
  case (2 K item rest st)
  let ?st = "st\<lparr>rs_range_metrics := fold (\<lambda>n m. metrics_record m n) (item_requests item)
    (rs_range_metrics st)\<rparr>"
  have set1: "same_settings st ?st" and inv1: "queue_inv K ?st" and eof1: "rs_eof ?st = rs_eof st"
    and q1: "rs_queue ?st = rs_queue st" and w1: "wants_more ?st = wants_more st"
    using "2.prems"(1) by (simp_all add: same_settings_def queue_inv_def wants_more_def)
  show ?case
  proof (cases "wants_more st")
    case False
    then show ?thesis
      using "2.prems" by (auto simp: fill_post_def same_settings_def queue_inv_def wants_more_def)
  next
    case more: True
    then have eof: "\<not> rs_eof st" by (simp add: wants_more_def)
    show ?thesis
    proof (cases "outcome K st item")
      case (Inl e)
      then have "fill_queue K (item # rest) st = (?st\<lparr>rs_reader := Some rest\<rparr>, Err e)"
        using more by (auto simp: outcome_def Let_def split: sum.splits)
      then show ?thesis
        using Inl eof inv1 by (auto simp: fill_post_def same_settings_def queue_inv_def)
    next
      case (Inr b)
      then obtain batch where batch: "item_result item = Inr batch"
        and ap: "apply_predicate_and_projection K batch (rs_predicate ?st) (rs_output_indices ?st)
          = Ok b"
        by (auto simp: outcome_def split: sum.splits)
      have fill: "fill_queue K (item # rest) st =
          (if batch_rows b = 0 then fill_queue K rest ?st
           else fill_queue K rest (push_batch K b ?st))"
        using more batch ap by (simp add: Let_def)
      show ?thesis
      proof (cases "batch_rows b = 0")
        case True
        have "fill_post K ?st rest (fill_queue K rest ?st)"
          by (rule "2.IH"(1)) (use more batch ap True inv1 eof in simp_all)
        then show ?thesis
          using fill True Inr fill_post_from [OF _ set1] by (simp add: q1)
      next
        case False
        let ?p = "push_batch K b ?st"
        have "queue_inv K ?p" by (rule queue_inv_push) (use inv1 w1 more False in simp_all)
        then have "fill_post K ?p rest (fill_queue K rest ?p)"
          by (intro "2.IH"(2)) (use more batch ap False eof in simp_all)
        then show ?thesis
          using fill False Inr fill_post_from [OF _ same_settings_trans [OF set1 push_batch_settings]]
          by (simp add: q1)
      qed
    qed
  qed
qed

lemma pop_batch_spec:
  assumes "queue_inv K st"
  shows "case pop_batch K st of (st', b) \<Rightarrow>
    queue_inv K st' \<and> same_settings st st' \<and> rs_reader st' = rs_reader st \<and> rs_eof st' = rs_eof st \<and>
    (case b of None \<Rightarrow> rs_queue st = [] \<and> rs_queue st' = []
     | Some b \<Rightarrow> rs_queue st = b # rs_queue st')"
  using assms
  by (cases "rs_queue st") (auto simp: pop_batch_def queue_inv_def same_settings_def)

lemma next_batch_spec:
  assumes live: "reader_live K st" and st': "next_batch K st = (st', r)"
  shows "reader_live K st' \<and>
    (case r of
       Inr (Some b) \<Rightarrow> reader_pending K st = b # reader_pending K st' \<and>
         reader_failures K st' = reader_failures K st
     | Inr None \<Rightarrow> reader_pending K st = [] \<and> reader_failures K st = 0 \<and>
         reader_pending K st' = [] \<and> reader_failures K st' = 0
     | Inl _ \<Rightarrow> reader_pending K st' = reader_pending K st \<and>
         reader_failures K st = Suc (reader_failures K st'))"
proof -
  obtain items where items: "rs_reader st = Some items"
    using live by (auto simp: reader_live_def reader_inv_def)
  have inv: "queue_inv K st" "0 < prefetch_depth st" "rs_eof st \<longrightarrow> items = []" "rs_active st"
    and tok: "\<not> cancelled_flag (rs_cancellation st)"
    using live items by (auto simp: reader_live_def reader_inv_def unread_def)
  have unread: "unread st = items" by (simp add: unread_def items)
  obtain st1 r1 where f: "(if wants_more st then fill_queue K items st else (st, Ok ())) = (st1, r1)"
    by fastforce
  have stop: "fill_post K st items (st1, r1)"
  proof (cases "wants_more st")
    case True
    then show ?thesis using fill_queue_spec [OF inv(1,3)] f by simp
  next
    case False
    then have "st1 = st" "r1 = Ok ()" using f by auto
    then show ?thesis using False inv items by (auto simp: fill_post_def same_settings_def)
  qed
  then obtain rest where rest: "rs_reader st1 = Some rest" "rs_eof st1 \<longrightarrow> rest = []"
    "rs_queue st1 @ ready K st rest = rs_queue st @ ready K st items"
    "if isl r1 then failing K st items = Suc (failing K st rest)
     else \<not> wants_more st1 \<and> failing K st rest = failing K st items"
    unfolding fill_post_def fst_conv snd_conv by blast
  have set1: "same_settings st st1" and inv1: "queue_inv K st1"
    using stop by (auto simp: fill_post_def)
  have live1: "reader_live K st1"
    using set1 inv1 rest inv tok
    by (simp add: reader_live_def reader_inv_def same_settings_def unread_def)
  have pend1: "reader_pending K st1 = reader_pending K st"
    using rest by (simp add: reader_pending_def unread_def items same_settings_ready [OF set1])
  have fail1: "case r1 of Inl _ \<Rightarrow> reader_failures K st = Suc (reader_failures K st1)
     | Inr _ \<Rightarrow> \<not> wants_more st1 \<and> reader_failures K st1 = reader_failures K st"
    using rest
    by (cases r1) (simp_all add: reader_failures_def unread_def items same_settings_ready [OF set1])
  show ?thesis
  proof (cases r1)
    case (Inl e)
    then have "st' = st1" "r = Err e"
      using st' f tok inv(4) items by (auto simp: next_batch_def token_check_def split: if_splits)
    then show ?thesis using live1 pend1 fail1 Inl by simp
  next
    case (Inr u)
    obtain st2 b where pop: "pop_batch K st1 = (st2, b)" by fastforce
    have nb: "st' = st2" "r = Ok b"
      using st' f tok inv(4) items Inr pop
      by (auto simp: next_batch_def token_check_def split: if_splits)
    have p: "queue_inv K st2" "same_settings st1 st2" "rs_reader st2 = Some rest"
      "rs_eof st2 = rs_eof st1"
      "case b of None \<Rightarrow> rs_queue st1 = [] \<and> rs_queue st2 = []
       | Some b \<Rightarrow> rs_queue st1 = b # rs_queue st2"
      using pop_batch_spec [OF inv1] pop rest(1) by auto
    have live2: "reader_live K st2"
      using p live1 rest by (auto simp: reader_live_def reader_inv_def same_settings_def unread_def)
    have f2: "reader_failures K st2 = reader_failures K st1"
      using p rest by (simp add: reader_failures_def unread_def same_settings_ready [OF p(2)])
    show ?thesis
    proof (cases b)
      case (Some x)
      then have "reader_pending K st1 = x # reader_pending K st2"
        using p rest by (simp add: reader_pending_def unread_def same_settings_ready [OF p(2)])
      then show ?thesis using nb Some live2 pend1 fail1 Inr f2 by simp
    next
      case None
      have "rs_queue st1 = []" using p(5) None by simp
      then have "rs_eof st1"
        using fail1 Inr set1 inv(2) by (auto simp: wants_more_def same_settings_def)
      then have "rest = []" using rest(2) by simp
      then have "reader_pending K st2 = []" "reader_failures K st2 = 0" "reader_pending K st1 = []"
        using p None rest by (simp_all add: reader_pending_def reader_failures_def unread_def)
      then show ?thesis using nb None live2 pend1 fail1 Inr f2 by simp
    qed
  qed
qed

interpretation rs: batch_source "next_batch K" "reader_pending K" "reader_failures K" "reader_live K"
  for K
proof
  fix s :: reader_state and b :: record_batch and e :: native_failure
  assume live: "reader_live K s"
  note spec = next_batch_spec [OF live surjective_pairing]
  show "reader_live K (fst (next_batch K s))" using spec by blast
  show "snd (next_batch K s) = Ok (Some b) \<Longrightarrow>
      reader_pending K s = b # reader_pending K (fst (next_batch K s)) \<and>
      reader_failures K (fst (next_batch K s)) = reader_failures K s"
    using spec by simp
  show "snd (next_batch K s) = Ok None \<Longrightarrow>
      reader_pending K s = [] \<and> reader_failures K s = 0 \<and>
      reader_pending K (fst (next_batch K s)) = [] \<and>
      reader_failures K (fst (next_batch K s)) = 0"
    using spec by simp
  show "snd (next_batch K s) = Err e \<Longrightarrow>
      reader_pending K (fst (next_batch K s)) = reader_pending K s \<and>
      reader_failures K s = Suc (reader_failures K (fst (next_batch K s)))"
    using spec by simp
qed

end
