(* ===== verification/Reader_System.thy ===== *)
theory Reader_System
  imports Reader_Proofs
begin

text \<open>
  The reader resources the Erlang runtime holds (\<^verbatim>\<open>ReaderResource\<close> of \<^verbatim>\<open>reader.rs\<close>): the lock, the
  owner-down callback, the destructor and the global count of active readers, as a step
  relation over all readers of the process.
\<close>

section \<open>A resource\<close>

text \<open>A mutex is poisoned when a holder panicked.\<close>

record reader_resource =
  res_state :: reader_state
  res_poisoned :: bool

definition reader_lock :: "reader_resource \<Rightarrow> operation \<Rightarrow> reader_state native_result" where
  "reader_lock r p =
     (if res_poisoned r then Err (failure_expected p ''native reader state is unavailable'')
      else Ok (res_state r))"

definition resource_next_batch ::
  "arrow_kernels \<Rightarrow> reader_resource \<Rightarrow> reader_resource \<times> record_batch option native_result" where
  "resource_next_batch K r =
     (case reader_lock r OpReaderNext of
        Inl e \<Rightarrow> (r, Err e)
      | Inr st \<Rightarrow> (case next_batch K st of (st, result) \<Rightarrow> (r\<lparr>res_state := st\<rparr>, result)))"

definition resource_close ::
  "reader_resource \<Rightarrow> usize \<Rightarrow> (reader_resource \<times> usize) \<times> bool native_result" where
  "resource_close r active_readers =
     (case reader_lock r OpReaderClose of
        Inl e \<Rightarrow> ((r, active_readers), Err e)
      | Inr st \<Rightarrow>
          (case reader_close st active_readers of ((st, n), was_open) \<Rightarrow>
             ((r\<lparr>res_state := st\<rparr>, n), Ok was_open)))"

definition resource_stats :: "reader_resource \<Rightarrow> reader_stats native_result" where
  "resource_stats r = and_then (reader_lock r OpReaderStats) (\<lambda>st. Ok (reader_stats_of st))"

text \<open>\<^verbatim>\<open>down\<close>: the token is cancelled without the lock, then the state is closed under it.\<close>

definition resource_cancel :: "reader_resource \<Rightarrow> reader_resource" where
  "resource_cancel r =
     r\<lparr>res_state := (res_state r)\<lparr>rs_cancellation := token_cancel (rs_cancellation (res_state r))\<rparr>\<rparr>"

definition resource_down_close :: "reader_resource \<Rightarrow> usize \<Rightarrow> reader_resource \<times> usize" where
  "resource_down_close r active_readers =
     (if res_poisoned r then (r, active_readers)
      else
        (case reader_close (res_state r) active_readers of ((st, n), _) \<Rightarrow>
           (r\<lparr>res_state := st\<rparr>, n)))"

text \<open>The destructor of the state closes it whatever the lock says.\<close>

definition resource_drop :: "reader_resource \<Rightarrow> usize \<Rightarrow> usize" where
  "resource_drop r active_readers = snd (fst (reader_close (res_state r) active_readers))"

section \<open>All readers of the process\<close>

record reader_world =
  reader_handles :: "reader_resource option list"
  active_readers :: usize

definition reader_world_init :: reader_world where
  "reader_world_init = \<lparr>reader_handles = [], active_readers = 0\<rparr>"

definition handle :: "reader_world \<Rightarrow> nat \<Rightarrow> reader_resource option" where
  "handle w i = (if i < length (reader_handles w) then reader_handles w ! i else None)"

definition set_handle :: "reader_world \<Rightarrow> nat \<Rightarrow> reader_resource option \<Rightarrow> usize \<Rightarrow> reader_world" where
  "set_handle w i r n = \<lparr>reader_handles = (reader_handles w)[i := r], active_readers = n\<rparr>"

text \<open>
  \<open>poison\<close> is a panic of the code that holds the lock. The callers validate the prefetch depth
  to be positive.
\<close>

inductive reader_step :: "arrow_kernels \<Rightarrow> parquet_lib \<Rightarrow> reader_world \<Rightarrow> reader_world \<Rightarrow> bool"
  for K P where
  open_ok: "open_backend P backend obj_size token_default settings (active_readers w) =
       Returned (n, Ok (st, fs)) \<Longrightarrow> 0 < set_prefetch_depth settings \<Longrightarrow>
     reader_step K P w
       \<lparr>reader_handles = reader_handles w @ [Some \<lparr>res_state = st, res_poisoned = False\<rparr>],
        active_readers = n\<rparr>"
| next_step: "handle w i = Some r \<Longrightarrow> resource_next_batch K r = (r', result) \<Longrightarrow>
     reader_step K P w (set_handle w i (Some r') (active_readers w))"
| close_step: "handle w i = Some r \<Longrightarrow> resource_close r (active_readers w) = ((r', n), result) \<Longrightarrow>
     reader_step K P w (set_handle w i (Some r') n)"
| down_cancel: "handle w i = Some r \<Longrightarrow>
     reader_step K P w (set_handle w i (Some (resource_cancel r)) (active_readers w))"
| down_close: "handle w i = Some r \<Longrightarrow> resource_down_close r (active_readers w) = (r', n) \<Longrightarrow>
     reader_step K P w (set_handle w i (Some r') n)"
| poison: "handle w i = Some r \<Longrightarrow>
     reader_step K P w (set_handle w i (Some (r\<lparr>res_poisoned := True\<rparr>)) (active_readers w))"
| drop_step: "handle w i = Some r \<Longrightarrow>
     reader_step K P w (set_handle w i None (resource_drop r (active_readers w)))"

inductive_cases reader_stepE: "reader_step K P w w'"

definition reader_reachable :: "arrow_kernels \<Rightarrow> parquet_lib \<Rightarrow> reader_world \<Rightarrow> bool" where
  "reader_reachable K P w = (reader_step K P)\<^sup>*\<^sup>* reader_world_init w"

section \<open>The invariant\<close>

definition counts :: "reader_resource option \<Rightarrow> nat" where
  "counts r = (case r of None \<Rightarrow> 0 | Some r \<Rightarrow> if rs_active (res_state r) then 1 else 0)"

definition open_readers :: "reader_world \<Rightarrow> nat" where
  "open_readers w = sum_list (map counts (reader_handles w))"

definition world_inv :: "arrow_kernels \<Rightarrow> reader_world \<Rightarrow> bool" where
  "world_inv K w \<longleftrightarrow>
     active_readers w = word_of_nat (open_readers w) \<and>
     (\<forall>r. Some r \<in> set (reader_handles w) \<longrightarrow> reader_inv K (res_state r))"

lemma handle_inv: "world_inv K w \<Longrightarrow> handle w i = Some r \<Longrightarrow> reader_inv K (res_state r)"
  by (auto simp: handle_def world_inv_def in_set_conv_nth split: if_splits)

text \<open>The one argument of every step on a handle.\<close>

lemma world_inv_update:
  assumes inv: "world_inv K w" and h: "handle w i = Some r"
    and n: "n = active_readers w - word_of_nat (counts (Some r)) + word_of_nat (counts r')"
    and r': "\<And>q. r' = Some q \<Longrightarrow> reader_inv K (res_state q)"
  shows "world_inv K (set_handle w i r' n)"
proof -
  have i: "i < length (reader_handles w)" and ri: "reader_handles w ! i = Some r"
    using h by (auto simp: handle_def split: if_splits)
  have sum: "open_readers (set_handle w i r' n) + counts (Some r) = open_readers w + counts r'"
    using sum_list_update_nat [OF i, of counts r'] ri by (simp add: open_readers_def set_handle_def)
  have eq: "(word_of_nat (open_readers (set_handle w i r' n)) :: usize) + word_of_nat (counts (Some r)) =
      word_of_nat (open_readers w) + word_of_nat (counts r')"
    using sum by (metis of_nat_add)
  have "n + word_of_nat (counts (Some r)) =
      word_of_nat (open_readers w) + (word_of_nat (counts r') :: usize)"
    using inv by (simp add: n world_inv_def)
  then have "n = word_of_nat (open_readers (set_handle w i r' n))"
    using eq by (metis add_right_cancel)
  moreover have "reader_inv K (res_state q)"
    if "Some q \<in> set (reader_handles (set_handle w i r' n))" for q
    using that inv r' set_update_subset_insert [of "reader_handles w" i r']
    by (auto simp: set_handle_def world_inv_def)
  ultimately show ?thesis by (simp add: world_inv_def set_handle_def)
qed

lemma reader_close_spec:
  assumes "reader_inv K st" and "reader_close st n = ((st', n'), b)"
  shows "reader_inv K st' \<and> \<not> rs_active st' \<and> rs_queue st' = [] \<and> b = rs_active st \<and>
    n' = n - (if rs_active st then 1 else 0)"
proof (cases "rs_active st")
  case True
  then show ?thesis
    using assms by (auto simp: reader_close_def reader_inv_def queue_inv_def unread_def)
next
  case False
  then show ?thesis using assms by (auto simp: reader_close_def reader_inv_def)
qed

lemma reader_close_parts:
  assumes "reader_inv K st"
  obtains st' n' where "reader_close st n = ((st', n'), rs_active st)" "reader_inv K st'"
    "\<not> rs_active st'" "n' = n - (if rs_active st then 1 else 0)"
proof -
  obtain st' n' b where c: "reader_close st n = ((st', n'), b)" by (metis surj_pair)
  from reader_close_spec [OF assms c] c show ?thesis using that by blast
qed

lemma next_batch_inv:
  assumes "reader_inv K st" and "next_batch K st = (st', r)"
  shows "reader_inv K st' \<and> rs_active st' = rs_active st"
proof (cases "reader_live K st")
  case True
  then show ?thesis using next_batch_spec [OF True assms(2)] by (simp add: reader_live_def)
next
  case False
  then have "st' = st"
    using assms by (auto simp: next_batch_def reader_live_def token_check_def split: if_splits)
  then show ?thesis using assms(1) by simp
qed

lemma initial_reader_inv:
  assumes "0 < depth"
  shows "reader_inv K (initial_reader items token metrics depth md predicate outputs n)"
  using assms by (simp add: initial_reader_def reader_inv_def queue_inv_def)

lemma open_backend_Ok:
  assumes "open_backend P backend obj_size token settings active = Returned (n, Ok (st, fs))"
  obtains items metrics md placed outputs k where
    "st = initial_reader items token metrics (set_prefetch_depth settings) md placed outputs k"
    "n = active + 1"
  using assms
  by (fastforce simp: open_backend_def Let_def unwind_then_def split: option.splits sum.splits
      prod.splits unwind.splits)

lemma world_inv_step:
  assumes "reader_step K P v w" and "world_inv K v"
  shows "world_inv K w"
  using assms(1)
proof cases
  case (open_ok backend obj_size settings n st fs)
  obtain items metrics md placed outputs k where st:
      "st = initial_reader items token_default metrics (set_prefetch_depth settings) md placed
        outputs k" and n: "n = active_readers v + 1"
    by (rule open_backend_Ok [OF open_ok(2)])
  have "reader_inv K st" unfolding st by (rule initial_reader_inv [OF open_ok(3)])
  moreover have "rs_active st" by (simp add: st initial_reader_def)
  ultimately show ?thesis
    using assms(2) n open_ok(1) by (auto simp: world_inv_def open_readers_def counts_def)
next
  case (next_step i r r' result)
  note inv = handle_inv [OF assms(2) next_step(2)]
  then have "reader_inv K (res_state r') \<and> rs_active (res_state r') = rs_active (res_state r)"
    using next_step(3) next_batch_inv [OF inv]
    by (auto simp: resource_next_batch_def reader_lock_def split: if_splits prod.splits)
  then show ?thesis
    unfolding next_step(1) by (intro world_inv_update [OF assms(2) next_step(2)]) (simp_all add: counts_def)
next
  case (close_step i r r' n result)
  note inv = handle_inv [OF assms(2) close_step(2)]
  have "reader_inv K (res_state r') \<and>
      n = active_readers v - word_of_nat (counts (Some r)) + word_of_nat (counts (Some r'))"
    using close_step(3) inv
    by (rule_tac reader_close_parts [OF inv, of "active_readers v"])
      (auto simp: resource_close_def reader_lock_def counts_def split: if_splits)
  then show ?thesis
    unfolding close_step(1) by (intro world_inv_update [OF assms(2) close_step(2)]) simp_all
next
  case (down_cancel i r)
  note inv = handle_inv [OF assms(2) down_cancel(2)]
  then have "reader_inv K (res_state (resource_cancel r))"
    by (simp add: resource_cancel_def reader_inv_def queue_inv_def unread_def)
  then show ?thesis
    unfolding down_cancel(1)
    by (intro world_inv_update [OF assms(2) down_cancel(2)])
      (auto simp: counts_def resource_cancel_def)
next
  case (down_close i r r' n)
  note inv = handle_inv [OF assms(2) down_close(2)]
  have "reader_inv K (res_state r') \<and>
      n = active_readers v - word_of_nat (counts (Some r)) + word_of_nat (counts (Some r'))"
    using down_close(3) inv
    by (rule_tac reader_close_parts [OF inv, of "active_readers v"])
      (auto simp: resource_down_close_def counts_def split: if_splits)
  then show ?thesis
    unfolding down_close(1) by (intro world_inv_update [OF assms(2) down_close(2)]) simp_all
next
  case (poison i r)
  note inv = handle_inv [OF assms(2) poison(2)]
  then show ?thesis
    unfolding poison(1)
    by (intro world_inv_update [OF assms(2) poison(2)]) (auto simp: counts_def)
next
  case (drop_step i r)
  note inv = handle_inv [OF assms(2) drop_step(2)]
  have "resource_drop r (active_readers v) = active_readers v - word_of_nat (counts (Some r))"
    by (simp add: resource_drop_def counts_def reader_close_def)
  then show ?thesis
    unfolding drop_step(1)
    by (intro world_inv_update [OF assms(2) drop_step(2)]) (simp_all add: counts_def)
qed

lemma world_inv_reachable: "reader_reachable K P w \<Longrightarrow> world_inv K w"
  unfolding reader_reachable_def
proof (induction rule: rtranclp_induct)
  case base
  then show ?case by (simp add: world_inv_def reader_world_init_def open_readers_def)
next
  case (step v w)
  show ?case by (rule world_inv_step [OF step(2,3)])
qed

end
