(* ===== verification/Reader_Properties.thy ===== *)
theory Reader_Properties
  imports Reader_System
begin

text \<open>
  What a reader of a Parquet file promises to its caller: the batches in order whatever the
  prefetch depth, the requested columns of the matching rows of the whole file, and the bounds
  and counts of the process.
\<close>

section \<open>Rows\<close>

text \<open>The rows of a batch, each a list of the slots of its columns.\<close>

definition batch_row_list :: "record_batch \<Rightarrow> slot list list" where
  "batch_row_list b =
     map (\<lambda>j. map (\<lambda>a. array_slots a ! j) (batch_columns b)) [0..<batch_rows b]"

definition row_matches :: "compiled_predicate option \<Rightarrow> slot list \<Rightarrow> bool" where
  "row_matches predicate row =
     (case predicate of
        None \<Rightarrow> True
      | Some p \<Rightarrow> slot_matches (cp_literal p) (cp_operator p) (row ! root_index p))"

definition select_rows ::
  "compiled_predicate option \<Rightarrow> nat list \<Rightarrow> slot list list \<Rightarrow> slot list list" where
  "select_rows predicate requested rows =
     map (\<lambda>row. map (\<lambda>i. row ! i) requested) (filter (row_matches predicate) rows)"

lemma select_rows_append [simp]:
  "select_rows p req (xs @ ys) = select_rows p req xs @ select_rows p req ys"
  by (simp add: select_rows_def)

lemma select_rows_concat: "select_rows p req (concat xss) = concat (map (select_rows p req) xss)"
  by (induction xss) (simp_all add: select_rows_def)

lemma wanted_rows_match:
  assumes b: "batch_ok full" and root: "\<And>p. predicate = Some p \<Longrightarrow> root_index p < length (batch_columns full)"
  shows "wanted_rows full predicate =
    filter (\<lambda>j. row_matches predicate (batch_row_list full ! j)) [0..<batch_rows full]"
proof (cases predicate)
  case (Some p)
  have "batch_row_list full ! j ! root_index p = array_slots (batch_columns full ! root_index p) ! j"
    if "j < batch_rows full" for j
    using root [OF Some] that by (simp add: batch_row_list_def)
  then have "filter (\<lambda>j. slot_matches (cp_literal p) (cp_operator p)
        (array_slots (batch_columns full ! root_index p) ! j)) [0..<batch_rows full] =
      filter (\<lambda>j. slot_matches (cp_literal p) (cp_operator p)
        (batch_row_list full ! j ! root_index p)) [0..<batch_rows full]"
    by (intro filter_cong) simp_all
  then show ?thesis
    using Some batch_ok_nth [OF b root [OF Some]]
    by (simp add: wanted_rows_def matching_rows_def row_matches_def)
qed (simp add: wanted_rows_def row_matches_def)

lemma selected_row_list:
  assumes b: "batch_ok full" and root: "\<And>p. predicate = Some p \<Longrightarrow> root_index p < length (batch_columns full)"
    and req: "\<forall>i \<in> set requested. i < length (batch_columns full)"
  shows "batch_row_list (selected_columns full (wanted_rows full predicate) requested) =
    select_rows predicate requested (batch_row_list full)"
proof -
  let ?rows = "wanted_rows full predicate"
  let ?L = "batch_row_list full"
  have len: "length ?L = batch_rows full" by (simp add: batch_row_list_def)
  have small: "j < batch_rows full" if "j \<in> set ?rows" for j
    using that by (simp add: wanted_rows_match [OF b root])
  have cell: "array_slots (batch_columns full ! i) ! j = ?L ! j ! i"
    if "j < batch_rows full" "i < length (batch_columns full)" for i j
    using that by (simp add: batch_row_list_def)
  have "batch_row_list (selected_columns full ?rows requested) =
      map (\<lambda>k. map (\<lambda>i. array_slots (batch_columns full ! i) ! (?rows ! k)) requested)
        [0..<length ?rows]"
    by (simp add: batch_row_list_def selected_columns_def rows_of_def)
  also have "\<dots> = map (\<lambda>j. map (\<lambda>i. array_slots (batch_columns full ! i) ! j) requested) ?rows"
    by (intro nth_equalityI) simp_all
  also have "\<dots> = map (\<lambda>j. map (\<lambda>i. ?L ! j ! i) requested) ?rows"
    using small cell req by simp
  also have "\<dots> = map (\<lambda>row. map (\<lambda>i. row ! i) requested) (map (\<lambda>j. ?L ! j) ?rows)"
    by simp
  also have "map (\<lambda>j. ?L ! j) ?rows = filter (row_matches predicate) ?L"
  proof -
    have "filter (row_matches predicate) (map (\<lambda>j. ?L ! j) [0..<length ?L]) = map (\<lambda>j. ?L ! j) ?rows"
      by (simp add: filter_map o_def len wanted_rows_match [OF b root])
    then show ?thesis by (simp add: map_nth)
  qed
  finally show ?thesis by (simp add: select_rows_def)
qed

lemma selected_batch_rows: "length (batch_row_list b) = batch_rows b"
  by (simp add: batch_row_list_def)

section \<open>What the Parquet decoder promises\<close>

text \<open>
  The documented behaviour of the batch iterator: for the row groups it is given it returns
  batches of the projected columns whose rows are, in order, the rows of those groups. How rows
  are split into batches is its own choice. The statistics of a row group describe its rows.
\<close>

definition decoder_reads ::
  "parquet_lib \<Rightarrow> opened_file \<Rightarrow> (nat \<Rightarrow> slot list list) \<Rightarrow> bool" where
  "decoder_reads P file group_rows \<longleftrightarrow>
     (\<forall>size mask_roots groups. 0 < size \<longrightarrow>
        set groups \<subseteq> {..<length (md_row_groups (file_metadata file))} \<longrightarrow> (\<exists>items fulls.
        reader_build P file size mask_roots groups = Some items \<and>
        map item_result items = map (\<lambda>full. Inr (read_batch mask_roots full)) fulls \<and>
        (\<forall>full \<in> set fulls. batch_ok full \<and> batch_fields full = file_schema file) \<and>
        concat (map batch_row_list fulls) = concat (map group_rows groups)))"

definition rows_described :: "opened_file \<Rightarrow> (nat \<Rightarrow> slot list list) \<Rightarrow> bool" where
  "rows_described file group_rows \<longleftrightarrow>
     metadata_ok (file_metadata file) \<and>
     (\<forall>root column i.
        position (\<lambda>f. field_name f = field_name (file_schema file ! root)) (file_schema file) =
          Some root \<longrightarrow>
        field_data_type (file_schema file ! root) \<in> {Int32, Int64} \<longrightarrow>
        position (\<lambda>path. path \<noteq> [] \<and> hd path = field_name (file_schema file ! root))
          (md_leaf_paths (file_metadata file)) = Some column \<longrightarrow>
        i < length (md_row_groups (file_metadata file)) \<longrightarrow>
        group_described (md_row_groups (file_metadata file) ! i) column
          (map (\<lambda>row. row ! root) (group_rows i)))"

text \<open>A predicate that was compiled against the schema and placed.\<close>

definition predicate_compiled :: "field list \<Rightarrow> compiled_predicate option \<Rightarrow> bool" where
  "predicate_compiled schema predicate \<longleftrightarrow>
     (\<forall>p. predicate = Some p \<longrightarrow>
        position (\<lambda>f. field_name f = cp_column p) schema = Some (root_index p) \<and>
        (cp_prune_kind p \<noteq> None \<longrightarrow> field_data_type (schema ! root_index p) \<in> {Int32, Int64}))"

lemma predicate_compiledD:
  "predicate_compiled schema predicate \<Longrightarrow> predicate = Some p \<Longrightarrow>
     root_index p < length schema \<and> field_name (schema ! root_index p) = cp_column p"
  by (simp add: predicate_compiled_def position_Some_iff)

section \<open>The queue over the decoder\<close>

lemma initial_reader_live:
  assumes "0 < depth"
  shows "reader_live K (initial_reader items token_default metrics depth md predicate outputs n)"
  using initial_reader_inv [OF assms] by (simp add: reader_live_def initial_reader_def)

lemma initial_reader_fields [simp]:
  "rs_queue (initial_reader items token metrics depth md predicate outputs n) = []"
  "unread (initial_reader items token metrics depth md predicate outputs n) = items"
  "rs_predicate (initial_reader items token metrics depth md predicate outputs n) = predicate"
  "rs_output_indices (initial_reader items token metrics depth md predicate outputs n) = outputs"
  by (simp_all add: initial_reader_def unread_def)

lemma ready_of_batches:
  assumes "map item_result items = map (\<lambda>full. Inr (rb full)) fulls"
    and "\<And>full. full \<in> set fulls \<Longrightarrow> apply_predicate_and_projection K (rb full) (rs_predicate st)
      (rs_output_indices st) = Ok (sel full)"
  shows "ready K st items = filter (\<lambda>b. batch_rows b \<noteq> 0) (map sel fulls) \<and> failing K st items = 0"
  using assms
proof (induction items arbitrary: fulls)
  case (Cons item items)
  then obtain full rest where f: "fulls = full # rest" by (cases fulls) auto
  with Cons have "outcome K st item = Ok (sel full)" by (simp add: outcome_def)
  with Cons.IH [of rest] Cons.prems f show ?case by simp
qed simp

lemma concat_nonempty_rows:
  "concat (map batch_row_list (filter (\<lambda>b. batch_rows b \<noteq> 0) bs)) = concat (map batch_row_list bs)"
  by (induction bs) (auto simp: batch_row_list_def)

lemma select_pruned:
  assumes d: "rows_described file group_rows"
    and c: "predicate_compiled (file_schema file) predicate"
  obtains groups where "select_row_groups (file_metadata file) predicate = Returned groups"
    "set groups \<subseteq> {..<length (md_row_groups (file_metadata file))}"
    "select_rows predicate requested (concat (map group_rows groups)) =
     select_rows predicate requested
       (concat (map group_rows [0..<length (md_row_groups (file_metadata file))]))"
proof (cases predicate)
  case None
  show ?thesis
    by (rule that [of "[0..<length (md_row_groups (file_metadata file))]"])
      (simp_all add: select_row_groups_def Let_def None lessThan_atLeast0)
next
  case (Some p)
  let ?md = "file_metadata file"
  let ?rows = "\<lambda>i. map (\<lambda>row. (row ! root_index p, row)) (group_rows i)"
  have name: "field_name (file_schema file ! root_index p) = cp_column p"
    using predicate_compiledD [OF c Some] by simp
  have "group_described (md_row_groups ?md ! i) column (map fst (?rows i))"
    if "cp_prune_kind p \<noteq> None"
      and "position (\<lambda>path. path \<noteq> [] \<and> hd path = cp_column p) (md_leaf_paths ?md) = Some column"
      and "i < length (md_row_groups ?md)" for column i
    using d c Some that name by (auto simp: rows_described_def predicate_compiled_def o_def)
  then obtain groups where g: "select_row_groups ?md (Some p) = Returned groups"
    and sub: "set groups \<subseteq> {..<length (md_row_groups ?md)}"
    and scan: "scan p ?rows groups = scan p ?rows [0..<length (md_row_groups ?md)]"
    using pruned_scan [of ?md p ?rows] d by (auto simp: rows_described_def)
  have matches: "row_matches (Some p) =
      (\<lambda>row. slot_matches (cp_literal p) (cp_operator p) (row ! root_index p))"
    by (simp add: fun_eq_iff row_matches_def)
  have scan_select: "select_rows predicate requested (concat (map group_rows gs)) =
      map (\<lambda>r. map (\<lambda>i. snd r ! i) requested) (scan p ?rows gs)" for gs
    by (induction gs)
      (simp_all add: scan_def select_rows_def Some matches filter_map o_def)
  show ?thesis
    by (rule that [of groups]) (use g sub Some in simp, use sub in simp, simp only: scan_select scan)
qed

section \<open>Opening and draining\<close>

lemma open_columns_Ok:
  assumes "open_columns schema columns predicate = Ok (requested, compiled, read, fs)"
  shows "projection_indices schema columns = Ok requested \<and> read = read_indices requested compiled \<and>
    predicate_fits schema compiled \<and> predicate_compiled schema compiled"
proof -
  have req: "projection_indices schema columns = Ok requested"
    and read: "read = read_indices requested compiled"
    and c: "compile_optional predicate schema = Ok compiled"
    using assms by (auto simp: open_columns_def result_simps Let_def)
  show ?thesis
  proof (cases compiled)
    case None
    then show ?thesis using req read by (simp add: predicate_fits_def predicate_compiled_def)
  next
    case (Some p)
    then obtain q where q: "compile_predicate q schema = Ok p"
      using c by (auto simp: compile_optional_def result_simps split: option.splits)
    show ?thesis
      using req read Some compiled_fits [OF q] compile_predicate_Ok [OF q]
      by (cases "the (cp_prune_kind p)") (auto simp: predicate_compiled_def)
  qed
qed

lemma place_predicate_select:
  assumes "place_predicate columns read predicate = Returned placed"
  shows "select_rows placed requested rows = select_rows predicate requested rows \<and>
    (predicate_compiled schema predicate \<longrightarrow> predicate_compiled schema placed)"
proof (cases predicate)
  case None
  then show ?thesis using assms by (simp add: place_predicate_def)
next
  case (Some p)
  then obtain k where "placed = Some (p\<lparr>column_index := k\<rparr>)"
    using assms by (auto simp: place_predicate_def unwind_then_def split: unwind.splits)
  moreover have "row_matches (Some (p\<lparr>column_index := k\<rparr>)) = row_matches (Some p)"
    by (simp add: fun_eq_iff row_matches_def)
  ultimately show ?thesis using Some by (simp add: select_rows_def predicate_compiled_def)
qed

definition empty_batch :: "field list \<Rightarrow> record_batch" where
  "empty_batch schema =
     \<lparr>batch_fields = schema,
      batch_columns = map (\<lambda>f. \<lparr>array_type = field_data_type f, array_slots = []\<rparr>) schema,
      batch_rows = 0\<rparr>"

lemma empty_batch_ok: "batch_ok (empty_batch schema)" "batch_fields (empty_batch schema) = schema"
  by (simp_all add: batch_ok_def empty_batch_def)

text \<open>The settings of an opened chunk reader, as \<^verbatim>\<open>open_backend\<close> builds it.\<close>

definition fresh_chunks :: "chunk_backend \<Rightarrow> u64 \<Rightarrow> reader_open_settings \<Rightarrow> object_chunk_reader" where
  "fresh_chunks backend obj_size settings =
     \<lparr>chunk_backend_of = backend, chunk_size = obj_size,
      max_range_bytes = set_max_range_bytes settings, chunk_cancellation = token_default,
      chunk_metrics = metrics_default\<rparr>"

lemma selected_rows_all:
  assumes ok: "\<forall>full \<in> set fulls. batch_ok full \<and> batch_fields full = schema"
    and names: "predicate_compiled schema compiled"
    and req: "\<forall>i \<in> set requested. i < length schema"
  shows "concat (map batch_row_list (filter (\<lambda>b. batch_rows b \<noteq> 0)
      (map (\<lambda>full. selected_columns full (wanted_rows full compiled) requested) fulls))) =
    select_rows compiled requested (concat (map batch_row_list fulls))"
proof -
  let ?sel = "\<lambda>full. selected_columns full (wanted_rows full compiled) requested"
  have sel_rows: "batch_row_list (?sel full) = select_rows compiled requested (batch_row_list full)"
    if "full \<in> set fulls" for full
  proof -
    have b: "batch_ok full" and f: "batch_fields full = schema" using ok that by auto
    have n: "length (batch_columns full) = length schema" using batch_ok_lengths [OF b] f by simp
    show ?thesis
      using predicate_compiledD [OF names] req n by (intro selected_row_list [OF b]) auto
  qed
  have "concat (map batch_row_list (filter (\<lambda>b. batch_rows b \<noteq> 0) (map ?sel fulls))) =
      concat (map (\<lambda>full. batch_row_list (?sel full)) fulls)"
    by (simp only: concat_nonempty_rows map_map o_def)
  also have "\<dots> = concat (map (\<lambda>full. select_rows compiled requested (batch_row_list full)) fulls)"
    using sel_rows by (simp cong: map_cong)
  also have "\<dots> = select_rows compiled requested (concat (map batch_row_list fulls))"
    by (simp only: select_rows_concat map_map o_def)
  finally show ?thesis .
qed

lemma open_backend_selects:
  assumes K: "kernels_ok K"
    and try_new: "builder_try_new P (fresh_chunks backend obj_size settings) = Some file"
    and dec: "decoder_reads P file group_rows" and desc: "rows_described file group_rows"
    and cols: "open_columns (file_schema file) (set_columns settings) (set_predicate settings) =
      Ok (requested, compiled, read, fs)"
    and dist: "distinct (set_columns settings)" and size: "0 < set_batch_size settings"
  obtains items metrics placed outputs n batches where
    "open_backend P backend obj_size token_default settings active =
       Returned (active + 1, Ok (initial_reader items token_default metrics
         (set_prefetch_depth settings) (file_metadata file) placed outputs n, fs))"
    "\<And>st. rs_predicate st = placed \<Longrightarrow> rs_output_indices st = outputs \<Longrightarrow>
       ready K st items = batches \<and> failing K st items = 0"
    "concat (map batch_row_list batches) = select_rows compiled requested
       (concat (map group_rows [0..<length (md_row_groups (file_metadata file))]))"
proof -
  let ?S = "file_schema file" and ?C = "set_columns settings"
  let ?all = "[0..<length (md_row_groups (file_metadata file))]"
  let ?sel = "\<lambda>full. selected_columns full (wanted_rows full compiled) requested"
  have req: "projection_indices ?S ?C = Ok requested" and read: "read = read_indices requested compiled"
    and fits: "predicate_fits ?S compiled"
    and names: "predicate_compiled ?S compiled"
    using open_columns_Ok [OF cols] by auto
  note push = pushdown_selects [OF K _ _ req dist fits read]
  obtain outputs placed where outs: "output_indices_of ?S ?C requested read = Returned outputs"
    and placed: "place_predicate ?C read compiled = Returned placed"
    using push [OF empty_batch_ok] by blast
  have apply_sel: "apply_predicate_and_projection K (read_batch (projection_mask ?C read) full)
      placed outputs = Ok (?sel full)" if "batch_ok full" "batch_fields full = ?S" for full
    using push [OF that] outs placed by auto
  note place = place_predicate_select [OF placed, where schema = "file_schema file"]
  have "predicate_compiled ?S placed" using place names by blast
  then obtain groups where groups: "select_row_groups (file_metadata file) placed = Returned groups"
      "set groups \<subseteq> {..<length (md_row_groups (file_metadata file))}"
      "select_rows placed requested (concat (map group_rows groups)) =
       select_rows placed requested (concat (map group_rows ?all))"
    by (rule select_pruned [OF desc]) blast+
  obtain items fulls where items: "reader_build P file (set_batch_size settings)
        (projection_mask ?C read) groups = Some items"
      and res: "map item_result items =
        map (\<lambda>full. Inr (read_batch (projection_mask ?C read) full)) fulls"
      and ok: "\<forall>full \<in> set fulls. batch_ok full \<and> batch_fields full = ?S"
      and rows: "concat (map batch_row_list fulls) = concat (map group_rows groups)"
    using dec size groups(2) unfolding decoder_reads_def by blast
  let ?batches = "filter (\<lambda>b. batch_rows b \<noteq> 0) (map ?sel fulls)"
  have selected: "concat (map batch_row_list ?batches) =
      select_rows compiled requested (concat (map group_rows ?all))"
    using selected_rows_all [OF ok names] requested_bounds [OF req] rows groups(3) place
    by simp
  have opened: "open_backend P backend obj_size token_default settings active =
      Returned (active + 1, Ok (initial_reader items token_default (chunk_metrics (file_chunks file))
        (set_prefetch_depth settings) (file_metadata file) placed outputs (length groups), fs))"
    using try_new cols outs placed groups(1) items
    by (simp add: open_backend_def Let_def fresh_chunks_def)
  have ready: "ready K st items = ?batches \<and> failing K st items = 0"
    if "rs_predicate st = placed" "rs_output_indices st = outputs" for st
    using ready_of_batches [OF res, of K st ?sel] apply_sel ok that by simp
  show ?thesis by (rule that [OF opened ready selected])
qed

section \<open>Properties\<close>

text \<open>C2: opening a file and draining the reader: with the projection, the predicate, the row group
  pruning and the prefetch queue in between, the calls of \<open>next_batch\<close> return batches whose rows,
  together and in order, are the requested columns of exactly the matching rows of the whole
  file, and then the end of the stream for ever.\<close>

theorem reader_selects:
  assumes "kernels_ok K"
    and "builder_try_new P (fresh_chunks backend obj_size settings) = Some opened"
    and "decoder_reads P opened group_rows" and "rows_described opened group_rows"
    and "open_columns (file_schema opened) (set_columns settings) (set_predicate settings) =
      Ok (requested, compiled, read, fs)"
    and "distinct (set_columns settings)" and "0 < set_batch_size settings"
    and depth: "0 < set_prefetch_depth settings"
  shows "\<exists>st batches.
    open_backend P backend obj_size token_default settings active = Returned (active + 1, Ok (st, fs)) \<and>
    (\<forall>k. call_results (next_batch K) (length batches + k) st =
       map (\<lambda>b. Ok (Some b)) batches @ replicate k (Ok None)) \<and>
    concat (map batch_row_list batches) = select_rows compiled requested
      (concat (map group_rows [0..<length (md_row_groups (file_metadata opened))]))"
proof -
  obtain items metrics placed outputs n batches where
    opened: "open_backend P backend obj_size token_default settings active =
       Returned (active + 1, Ok (initial_reader items token_default metrics
         (set_prefetch_depth settings) (file_metadata opened) placed outputs n, fs))"
    and r: "\<And>st. rs_predicate st = placed \<Longrightarrow> rs_output_indices st = outputs \<Longrightarrow>
       ready K st items = batches \<and> failing K st items = 0"
    and rows: "concat (map batch_row_list batches) = select_rows compiled requested
       (concat (map group_rows [0..<length (md_row_groups (file_metadata opened))]))"
    by (rule open_backend_selects [OF assms(1-7), where active = active]) blast
  let ?st = "initial_reader items token_default metrics (set_prefetch_depth settings)
    (file_metadata opened) placed outputs n"
  have p: "reader_pending K ?st = batches" and f: "reader_failures K ?st = 0"
    using r [of ?st] by (simp_all add: reader_pending_def reader_failures_def)
  have live: "reader_live K ?st" by (rule initial_reader_live [OF depth])
  have "call_results (next_batch K) (length batches + k) ?st =
      map (\<lambda>b. Ok (Some b)) batches @ replicate k (Ok None)" for k
    using rs.clean_results [OF live f, of k] by (simp add: p)
  with opened rows show ?thesis by blast
qed

text \<open>A file of three row groups and two columns; the first two groups are pruned.\<close>

definition two_column_metadata :: parquet_metadata where
  "two_column_metadata =
     \<lparr>md_row_groups =
        map (\<lambda>rg. rg\<lparr>row_group_columns := row_group_columns rg @
              [\<lparr>chunk_compression = SNAPPY, chunk_statistics = None\<rparr>]\<rparr>)
          (md_row_groups sample_metadata),
      md_leaf_paths = [[''id''], [''ok'']], md_key_values = []\<rparr>"

definition two_column_schema :: "field list" where
  "two_column_schema = [Field ''id'' Int64 True, Field ''ok'' Boolean True]"

definition two_column_batch :: "nat \<Rightarrow> record_batch" where
  "two_column_batch g =
     \<lparr>batch_fields = two_column_schema,
      batch_columns =
        [\<lparr>array_type = Int64, array_slots = map fst (sample_rows g)\<rparr>,
         \<lparr>array_type = Boolean, array_slots = map (\<lambda>r. BoolSlot (odd (snd r))) (sample_rows g)\<rparr>],
      batch_rows = length (sample_rows g)\<rparr>"

definition sample_file :: "object_chunk_reader \<Rightarrow> opened_file" where
  "sample_file chunks =
     \<lparr>file_schema = two_column_schema, file_metadata = two_column_metadata, file_chunks = chunks\<rparr>"

text \<open>One batch for each row group.\<close>

definition sample_lib :: parquet_lib where
  "sample_lib =
     \<lparr>builder_try_new = (\<lambda>chunks. Some (sample_file chunks)),
      reader_build = (\<lambda>opened size roots groups.
        Some (map (\<lambda>g. DecodedItem [] (Inr (read_batch roots (two_column_batch g)))) groups))\<rparr>"

definition sample_backend :: chunk_backend where
  "sample_backend = \<lparr>backend_fetch = (\<lambda>_ _ _. Ok []), backend_key = ''t.parquet''\<rparr>"

definition sample_literal :: native_literal where
  "sample_literal =
     \<lparr>literal_kind = ''integer'', literal_integer = Some 5, literal_float = None,
      literal_string = None, literal_boolean = None\<rparr>"

definition sample_settings :: reader_open_settings where
  "sample_settings =
     \<lparr>set_max_range_bytes = 1024, set_batch_size = 8, set_prefetch_depth = 2,
      set_columns = [''ok''],
      set_predicate = Some \<lparr>np_column = ''id'', np_operator = ''gt'', np_literal = sample_literal\<rparr>\<rparr>"

lemma sample_open_columns:
  "open_columns two_column_schema [''ok'']
     (Some \<lparr>np_column = ''id'', np_operator = ''gt'', np_literal = sample_literal\<rparr>) =
   Ok ([1], Some sample_predicate, [0, 1],
     [NativeField ''ok'' True (simple_type ''boolean'')])"
  by (simp add: open_columns_def two_column_schema_def projection_indices_def compile_optional_def
      compile_predicate_def sample_literal_def parse_operator_def typed_literal_def
      integer_literal_def projected_fields_def read_indices_def sample_predicate_def
      native_data_type.simps integer_type_def)

lemma sample_group_described:
  assumes "i < 3"
  shows "group_described (md_row_groups two_column_metadata ! i) 0 (map fst (sample_rows i))"
proof -
  have "i = 0 \<or> i = 1 \<or> i = 2" using assms by auto
  then show ?thesis
    by (elim disjE) (simp_all add: two_column_metadata_def sample_metadata_def sample_rows_def
        group_described_def stats_describe_def stats_bounds_def chunk_of_def)
qed

lemma sample_file_described: "rows_described (sample_file chunks) (\<lambda>g. batch_row_list (two_column_batch g))"
proof -
  have ok: "metadata_ok two_column_metadata"
    by (simp add: metadata_ok_def two_column_metadata_def sample_metadata_def)
  have col: "map (\<lambda>row. row ! 0) (batch_row_list (two_column_batch i)) = map fst (sample_rows i)" for i
    using map_nth [of "map fst (sample_rows i)"]
    by (simp add: batch_row_list_def two_column_batch_def o_def)
  have n: "length (md_row_groups two_column_metadata) = 3"
    by (simp add: two_column_metadata_def sample_metadata_def)
  have root0: "root = 0 \<and> column = 0"
    if "position (\<lambda>f. field_name f = field_name (two_column_schema ! root)) two_column_schema = Some root"
      and "field_data_type (two_column_schema ! root) \<in> {Int32, Int64}"
      and "position (\<lambda>path. path \<noteq> [] \<and> hd path = field_name (two_column_schema ! root))
        (md_leaf_paths two_column_metadata) = Some column" for root column
  proof -
    have "root < 2" using that(1) unfolding position_Some_iff by (simp add: two_column_schema_def)
    then have "root = 0 \<or> root = 1" by linarith
    then show ?thesis
      using that(2,3) by (elim disjE) (simp_all add: two_column_schema_def two_column_metadata_def)
  qed
  show ?thesis
    unfolding rows_described_def
  proof (intro conjI allI impI)
    show "metadata_ok (file_metadata (sample_file chunks))" using ok by (simp add: sample_file_def)
  next
    fix root column i
    assume pos: "position (\<lambda>f. field_name f = field_name (file_schema (sample_file chunks) ! root))
        (file_schema (sample_file chunks)) = Some root"
      and t: "field_data_type (file_schema (sample_file chunks) ! root) \<in> {Int32, Int64}"
      and leaf: "position (\<lambda>path. path \<noteq> [] \<and>
          hd path = field_name (file_schema (sample_file chunks) ! root))
        (md_leaf_paths (file_metadata (sample_file chunks))) = Some column"
      and i: "i < length (md_row_groups (file_metadata (sample_file chunks)))"
    have "root = 0 \<and> column = 0"
      by (rule root0) (use pos t leaf in \<open>simp_all add: sample_file_def\<close>)
    then show "group_described (md_row_groups (file_metadata (sample_file chunks)) ! i) column
        (map (\<lambda>row. row ! root) (batch_row_list (two_column_batch i)))"
      using sample_group_described [of i] i by (simp add: sample_file_def n col)
  qed
qed

lemma sample_lib_reads:
  "decoder_reads sample_lib (sample_file chunks) (\<lambda>g. batch_row_list (two_column_batch g))"
proof -
  have "batch_ok (two_column_batch g) \<and> batch_fields (two_column_batch g) = two_column_schema" for g
    by (auto simp: batch_ok_def two_column_batch_def two_column_schema_def less_Suc_eq)
  then show ?thesis
    unfolding decoder_reads_def
    by (intro allI impI exI [of _ "map two_column_batch _"] exI)
      (auto simp: sample_lib_def sample_file_def o_def)
qed

theorem reader_selects_witness:
  "\<exists>st batches.
    open_backend sample_lib sample_backend 100 token_default sample_settings 0 =
      Returned (1, Ok (st, [NativeField ''ok'' True (simple_type ''boolean'')])) \<and>
    call_results (next_batch plain_kernels) (length batches + 1) st =
      map (\<lambda>b. Ok (Some b)) batches @ [Ok None] \<and>
    concat (map batch_row_list batches) = [[BoolSlot True]]"
proof -
  let ?chunks = "fresh_chunks sample_backend 100 sample_settings"
  have "open_columns (file_schema (sample_file ?chunks)) (set_columns sample_settings)
      (set_predicate sample_settings) =
    Ok ([1], Some sample_predicate, [0, 1], [NativeField ''ok'' True (simple_type ''boolean'')])"
    using sample_open_columns by (simp add: sample_file_def sample_settings_def)
  note columns = this
  have lib: "builder_try_new sample_lib ?chunks = Some (sample_file ?chunks)"
    by (simp add: sample_lib_def)
  have set: "distinct (set_columns sample_settings)" "0 < set_batch_size sample_settings"
    "0 < set_prefetch_depth sample_settings"
    by (simp_all add: sample_settings_def)
  obtain st batches where st: "open_backend sample_lib sample_backend 100 token_default sample_settings 0 =
        Returned (0 + 1, Ok (st, [NativeField ''ok'' True (simple_type ''boolean'')]))"
      and res: "\<And>k. call_results (next_batch plain_kernels) (length batches + k) st =
        map (\<lambda>b. Ok (Some b)) batches @ replicate k (Ok None)"
      and rows: "concat (map batch_row_list batches) = select_rows (Some sample_predicate) [1]
        (concat (map (\<lambda>g. batch_row_list (two_column_batch g))
          [0..<length (md_row_groups (file_metadata (sample_file ?chunks)))]))"
    using reader_selects [OF plain_kernels_ok lib sample_lib_reads sample_file_described columns set,
      where active = 0] by blast
  have "select_rows (Some sample_predicate) [1] (concat (map (\<lambda>g. batch_row_list (two_column_batch g))
      [0, 1, 2])) = [[BoolSlot True]]"
    by (simp add: select_rows_def row_matches_def sample_predicate_def batch_row_list_def
        two_column_batch_def sample_rows_def upt_rec)
  moreover have "[0..<length (md_row_groups (file_metadata (sample_file ?chunks)))] = [0, 1, 2]"
    by (simp add: sample_file_def two_column_metadata_def sample_metadata_def upt_rec)
  ultimately have "concat (map batch_row_list batches) = [[BoolSlot True]]" using rows by simp
  with st res [of 1] show ?thesis by auto
qed

text \<open>C14: the calls of an open reader deliver the pending batches in order, each once, and report
  each failure once, at any prefetch depth; a number of calls of at least the pending batches
  and failures drains it.\<close>

theorem reader_delivers_in_order:
  assumes "reader_live K st"
  shows "delivered (call_results (next_batch K) n st) @ reader_pending K (after_calls (next_batch K) n st)
      = reader_pending K st \<and>
    reported_errors (call_results (next_batch K) n st) +
      reader_failures K (after_calls (next_batch K) n st) = reader_failures K st \<and>
    (length (reader_pending K st) + reader_failures K st \<le> n \<longrightarrow>
      delivered (call_results (next_batch K) n st) = reader_pending K st)"
  using rs.delivered_pending [OF assms] rs.errors_failures [OF assms] rs.drained [OF assms] by simp

text \<open>One good batch, one that does not decode, and one without rows.\<close>

definition sample_items :: batch_reader where
  "sample_items =
     [DecodedItem [16, 32] (Inr (two_column_batch 0)), DecodedItem [] (Inl ()),
      DecodedItem [8] (Inr (empty_batch two_column_schema))]"

definition sample_reader :: "nat \<Rightarrow> reader_state" where
  "sample_reader depth =
     initial_reader sample_items token_default metrics_default depth two_column_metadata None [0, 1] 3"

lemma two_column_batch_ok: "batch_ok (two_column_batch g)"
  by (auto simp: batch_ok_def two_column_batch_def two_column_schema_def less_Suc_eq)

lemma sample_projection:
  assumes "batch_ok b" and "batch_fields b = two_column_schema"
  shows "apply_predicate_and_projection plain_kernels b None [0, 1] =
    Ok (projected_batch b [0, 1])"
  using assms batch_ok_lengths [OF assms(1)]
  by (intro apply_projection [OF plain_kernels_ok]) (simp_all add: two_column_schema_def)

lemma sample_reader_pending:
  "reader_pending plain_kernels (sample_reader depth) = [projected_batch (two_column_batch 0) [0, 1]]"
  "reader_failures plain_kernels (sample_reader depth) = 1"
proof -
  have "apply_predicate_and_projection plain_kernels (two_column_batch 0) None [0, 1] =
      Ok (projected_batch (two_column_batch 0) [0, 1])"
    by (intro sample_projection two_column_batch_ok) (simp add: two_column_batch_def)
  moreover have "batch_rows (projected_batch (two_column_batch 0) [0, 1]) = 2"
    by (simp add: projected_batch_def two_column_batch_def sample_rows_def)
  moreover note sample_projection [OF empty_batch_ok]
  moreover have "batch_rows (projected_batch (empty_batch two_column_schema) [0, 1]) = 0"
    by (simp add: projected_batch_def empty_batch_def)
  ultimately show "reader_pending plain_kernels (sample_reader depth) =
      [projected_batch (two_column_batch 0) [0, 1]]"
    and "reader_failures plain_kernels (sample_reader depth) = 1"
    by (simp_all add: reader_pending_def reader_failures_def sample_reader_def sample_items_def
        outcome_def)
qed

theorem reader_delivers_in_order_witness:
  "delivered (call_results (next_batch plain_kernels) 3 (sample_reader 2)) =
     [projected_batch (two_column_batch 0) [0, 1]]"
proof -
  have "reader_live plain_kernels (sample_reader 2)"
    unfolding sample_reader_def by (rule initial_reader_live) simp
  from reader_delivers_in_order [OF this, of 3] show ?thesis
    by (simp add: sample_reader_pending)
qed

lemma ready_cong:
  assumes "rs_predicate s = rs_predicate t" and "rs_output_indices s = rs_output_indices t"
  shows "ready K s items = ready K t items \<and> failing K s items = failing K t items"
proof -
  have "outcome K s item = outcome K t item" for item
    using assms by (simp add: outcome_def split: sum.splits)
  then show ?thesis by (induction items) (simp_all split: sum.splits)
qed

lemma call_results_take: "take m (call_results step (k + m) s) = call_results step m s"
proof (induction m arbitrary: s)
  case (Suc m)
  have "call_results step (k + Suc m) s = snd (step s) # call_results step (k + m) (fst (step s))"
    by simp
  then show ?case using Suc by simp
qed simp

text \<open>C10: the prefetch depth is invisible: two readers of the same results of the decoder, none of
  which fails, answer every sequence of calls with the same results, whatever their depths.\<close>

theorem prefetch_depth_invisible:
  assumes "0 < d" and "0 < e"
    and "failing K (initial_reader items token_default metrics d md predicate outputs n) items = 0"
  shows "call_results (next_batch K) calls
      (initial_reader items token_default metrics d md predicate outputs n) =
    call_results (next_batch K) calls
      (initial_reader items token_default metrics e md predicate outputs n)"
proof -
  let ?s = "\<lambda>depth. initial_reader items token_default metrics depth md predicate outputs n"
  have same: "reader_pending K (?s e) = reader_pending K (?s d)"
    "reader_failures K (?s e) = reader_failures K (?s d)"
    using ready_cong [of "?s e" "?s d" K items]
    by (simp_all add: reader_pending_def reader_failures_def)
  have none: "reader_failures K (?s d) = 0" using assms(3) by (simp add: reader_failures_def)
  let ?all = "call_results (next_batch K) (length (reader_pending K (?s d)) + calls)"
  note clean = rs.clean_results [OF initial_reader_live]
  have "?all (?s d) = ?all (?s e)"
    using clean [OF assms(1) none, of calls] clean [OF assms(2), of K items metrics md predicate outputs n]
      same none by simp
  then have "take calls (?all (?s d)) = take calls (?all (?s e))" by simp
  then show ?thesis by (simp add: call_results_take)
qed

definition good_items :: batch_reader where
  "good_items =
     [DecodedItem [16] (Inr (two_column_batch 0)), DecodedItem [] (Inr (empty_batch two_column_schema)),
      DecodedItem [8] (Inr (two_column_batch 2))]"

theorem prefetch_depth_invisible_witness:
  "call_results (next_batch plain_kernels) 4
     (initial_reader good_items token_default metrics_default 1 two_column_metadata None [0, 1] 3) =
   call_results (next_batch plain_kernels) 4
     (initial_reader good_items token_default metrics_default 64 two_column_metadata None [0, 1] 3)"
proof (rule prefetch_depth_invisible)
  have "batch_ok b \<and> batch_fields b = two_column_schema"
    if "b = two_column_batch 0 \<or> b = empty_batch two_column_schema \<or> b = two_column_batch 2" for b
    using that two_column_batch_ok empty_batch_ok by (auto simp: two_column_batch_def)
  then have "apply_predicate_and_projection plain_kernels b None [0, 1] = Ok (projected_batch b [0, 1])"
    if "b = two_column_batch 0 \<or> b = empty_batch two_column_schema \<or> b = two_column_batch 2" for b
    using that by (intro sample_projection) blast+
  then show "failing plain_kernels (initial_reader good_items token_default metrics_default 1
      two_column_metadata None [0, 1] 3) good_items = 0"
    by (simp add: good_items_def outcome_def)
qed simp_all

lemma sample_world:
  obtains st where "rs_active st" "\<not> cancelled_flag (rs_cancellation st)"
    "reader_reachable plain_kernels sample_lib
      \<lparr>reader_handles = [Some \<lparr>res_state = st, res_poisoned = False\<rparr>], active_readers = 1\<rparr>"
proof -
  let ?chunks = "fresh_chunks sample_backend 100 sample_settings"
  have columns: "open_columns (file_schema (sample_file ?chunks)) (set_columns sample_settings)
      (set_predicate sample_settings) =
    Ok ([1], Some sample_predicate, [0, 1], [NativeField ''ok'' True (simple_type ''boolean'')])"
    using sample_open_columns by (simp add: sample_file_def sample_settings_def)
  have lib: "builder_try_new sample_lib ?chunks = Some (sample_file ?chunks)"
    by (simp add: sample_lib_def)
  have set: "distinct (set_columns sample_settings)" "0 < set_batch_size sample_settings"
    "0 < set_prefetch_depth sample_settings"
    by (simp_all add: sample_settings_def)
  obtain items metrics placed outputs n where
    op: "open_backend sample_lib sample_backend 100 token_default sample_settings 0 =
       Returned (0 + 1, Ok (initial_reader items token_default metrics
         (set_prefetch_depth sample_settings) (file_metadata (sample_file ?chunks)) placed outputs n,
         [NativeField ''ok'' True (simple_type ''boolean'')]))"
    by (rule open_backend_selects [OF plain_kernels_ok lib sample_lib_reads sample_file_described
        columns set(1,2), where active = 0]) blast
  let ?st = "initial_reader items token_default metrics (set_prefetch_depth sample_settings)
    (file_metadata (sample_file ?chunks)) placed outputs n"
  have "reader_step plain_kernels sample_lib reader_world_init
      \<lparr>reader_handles = reader_handles reader_world_init @
         [Some \<lparr>res_state = ?st, res_poisoned = False\<rparr>], active_readers = 0 + 1\<rparr>"
    by (rule open_ok [OF _ set(3)]) (use op in \<open>simp add: reader_world_init_def\<close>)
  then have "reader_reachable plain_kernels sample_lib
      \<lparr>reader_handles = [Some \<lparr>res_state = ?st, res_poisoned = False\<rparr>], active_readers = 1\<rparr>"
    by (auto simp: reader_reachable_def reader_world_init_def)
  then show ?thesis
    by (rule that [rotated 2]) (simp_all add: initial_reader_def token_default_def)
qed

text \<open>C19: in every state the process can reach, a reader buffers at most its prefetch depth of
  batches, none of them empty; the reported byte count is the sum of their sizes and the peaks
  cover the current values; a closed reader holds nothing; and the global counter is the number
  of open readers.\<close>

theorem reader_bounds:
  assumes "reader_reachable K P w" and "handle w i = Some r"
  shows "length (rs_queue (res_state r)) \<le> prefetch_depth (res_state r) \<and>
    (\<forall>b \<in> set (rs_queue (res_state r)). 0 < batch_rows b) \<and>
    stat_buffered_bytes (reader_stats_of (res_state r)) =
      sum_list (map (memory_size K) (rs_queue (res_state r))) \<and>
    current_buffered_bytes (res_state r) \<le> peak_buffered_bytes (res_state r) \<and>
    length (rs_queue (res_state r)) \<le> peak_buffered_batches (res_state r) \<and>
    peak_buffered_batches (res_state r) \<le> prefetch_depth (res_state r) \<and>
    (\<not> rs_active (res_state r) \<longrightarrow> rs_reader (res_state r) = None \<and> rs_queue (res_state r) = [] \<and>
       current_buffered_bytes (res_state r) = 0) \<and>
    active_readers w = word_of_nat (open_readers w)"
proof -
  note inv = world_inv_reachable [OF assms(1)]
  from handle_inv [OF inv assms(2)] inv show ?thesis
    by (auto simp: reader_inv_def queue_inv_def world_inv_def reader_stats_of_def)
qed

theorem reader_bounds_witness:
  "\<exists>w r. reader_reachable plain_kernels sample_lib w \<and> handle w 0 = Some r \<and>
     rs_active (res_state r) \<and> length (rs_queue (res_state r)) \<le> prefetch_depth (res_state r) \<and>
     active_readers w = word_of_nat (open_readers w) \<and> open_readers w = 1"
proof -
  obtain st where a: "rs_active st" and "\<not> cancelled_flag (rs_cancellation st)"
    and w: "reader_reachable plain_kernels sample_lib
      \<lparr>reader_handles = [Some \<lparr>res_state = st, res_poisoned = False\<rparr>], active_readers = 1\<rparr>"
      (is "reader_reachable _ _ ?w")
    by (rule sample_world)
  have h: "handle ?w 0 = Some \<lparr>res_state = st, res_poisoned = False\<rparr>" by (simp add: handle_def)
  have "open_readers ?w = 1" using a by (simp add: open_readers_def counts_def)
  with reader_bounds [OF w h] w h a show ?thesis by auto
qed

text \<open>C37: closing: in every reachable state, closing an open reader frees its buffers and lowers
  the count by one, closing it again is answered with false and changes nothing, and every later
  request for a batch is refused as cancelled.\<close>

theorem reader_close_final:
  assumes "reader_reachable K P w" and "handle w i = Some r"
    and "resource_close r (active_readers w) = ((r', n), Ok was_open)"
  shows "was_open = rs_active (res_state r) \<and>
    (if was_open then n = active_readers w - 1 else r' = r \<and> n = active_readers w) \<and>
    n = word_of_nat (open_readers (set_handle w i (Some r') n)) \<and>
    resource_close r' n = ((r', n), Ok False) \<and>
    resource_next_batch K r' = (r', Err (failure_cancelled OpReaderNext)) \<and>
    rs_queue (res_state r') = [] \<and> rs_reader (res_state r') = None"
proof -
  note winv = world_inv_reachable [OF assms(1)]
  note inv = handle_inv [OF winv assms(2)]
  have step: "reader_step K P w (set_handle w i (Some r') n)"
    by (rule close_step [OF assms(2,3)])
  have count: "n = word_of_nat (open_readers (set_handle w i (Some r') n))"
    using world_inv_step [OF step winv] by (simp add: world_inv_def set_handle_def)
  have "\<not> res_poisoned r" using assms(3) by (auto simp: resource_close_def reader_lock_def split: if_splits)
  with assms(3) inv count show ?thesis
    by (auto simp: resource_close_def reader_lock_def reader_close_def resource_next_batch_def
        next_batch_def token_check_def reader_inv_def token_cancel_def split: if_splits)
qed

theorem reader_close_final_witness:
  "\<exists>w r r'. reader_reachable plain_kernels sample_lib w \<and> handle w 0 = Some r \<and>
     resource_close r (active_readers w) = ((r', 0), Ok True) \<and>
     resource_close r' 0 = ((r', 0), Ok False) \<and>
     resource_next_batch plain_kernels r' = (r', Err (failure_cancelled OpReaderNext))"
proof -
  obtain st where a: "rs_active st" and "\<not> cancelled_flag (rs_cancellation st)"
    and w: "reader_reachable plain_kernels sample_lib
      \<lparr>reader_handles = [Some \<lparr>res_state = st, res_poisoned = False\<rparr>], active_readers = 1\<rparr>"
      (is "reader_reachable _ _ ?w")
    by (rule sample_world)
  have h: "handle ?w 0 = Some \<lparr>res_state = st, res_poisoned = False\<rparr>" by (simp add: handle_def)
  obtain r' n where c: "resource_close \<lparr>res_state = st, res_poisoned = False\<rparr> (active_readers ?w) =
      ((r', n), Ok True)"
    using a by (simp add: resource_close_def reader_lock_def reader_close_def)
  from reader_close_final [OF w h c] c w h show ?thesis by auto
qed

end
