(* ===== verification/Filesystem.thy ===== *)
theory Filesystem
  imports Errors Text_Codec "HOL-Library.AList"
begin

text \<open>
  The file system behind \<^verbatim>\<open>local.rs\<close> and \<^verbatim>\<open>store.rs\<close>, as far as they use \<^verbatim>\<open>std::path\<close> and
  \<^verbatim>\<open>std::fs\<close> on a Unix target: paths and their components, directories, regular files as
  inodes, symbolic links, and the calls with their errors. Every call consumes one entry of a
  schedule of injected failures, so a theorem over all states is a theorem over all failures of
  the operating system. An injected failure stands for every refusal that the tree does not
  show: permissions, space, input and output errors, and names that are too long or contain a
  NUL. A theorem about an empty schedule is about calls that are not refused for such a reason.
\<close>

section \<open>Actions\<close>

text \<open>A fallible operation on a state: the state is kept when it fails.\<close>

type_synonym ('s, 'e, 'a) action = "'s \<Rightarrow> 's \<times> ('e + 'a)"

definition act_ok :: "'a \<Rightarrow> ('s, 'e, 'a) action" where
  "act_ok x s = (s, Ok x)"

definition act_err :: "'e \<Rightarrow> ('s, 'e, 'a) action" where
  "act_err e s = (s, Err e)"

definition act_bind :: "('s, 'e, 'a) action \<Rightarrow> ('a \<Rightarrow> ('s, 'e, 'b) action) \<Rightarrow> ('s, 'e, 'b) action"
where
  "act_bind m f s = (case m s of (s', Inl e) \<Rightarrow> (s', Err e) | (s', Inr x) \<Rightarrow> f x s')"

text \<open>A pure check or computation, and a change of the error type.\<close>

definition act_lift :: "'e + 'a \<Rightarrow> ('s, 'e, 'a) action" where
  "act_lift r s = (s, r)"

definition act_map_err :: "('e \<Rightarrow> 'f) \<Rightarrow> ('s, 'e, 'a) action \<Rightarrow> ('s, 'f, 'a) action" where
  "act_map_err f m s = (case m s of (s', r) \<Rightarrow> (s', map_err f r))"

abbreviation map_io :: "operation \<Rightarrow> ('s, io_kind, 'a) action \<Rightarrow> ('s, native_failure, 'a) action" where
  "map_io operation \<equiv> act_map_err (from_io operation)"

lemma act_simps [simp]:
  "act_ok x s = (s, Ok x)" "act_err e s = (s, Err e)" "act_lift r s = (s, r)"
  by (simp_all add: act_ok_def act_err_def act_lift_def)

lemma act_bind_eq [simp]:
  "m s = (s', Ok x) \<Longrightarrow> act_bind m f s = f x s'"
  "m s = (s', Err e) \<Longrightarrow> act_bind m f s = (s', Err e)"
  by (simp_all add: act_bind_def)

lemma act_bind_cases:
  assumes "act_bind m f s = (t, r)"
  obtains (err) e where "m s = (t, Err e)" "r = Err e"
    | (ok) u x where "m s = (u, Ok x)" "f x u = (t, r)"
  using assms by (auto simp: act_bind_def split: prod.splits sum.splits)

lemma act_map_err_iff:
  "act_map_err f m s = (t, r) \<longleftrightarrow> (\<exists>q. m s = (t, q) \<and> r = map_err f q)"
  by (auto simp: act_map_err_def split: prod.splits)

section \<open>Paths\<close>

datatype path_component = RootDir | CurDir | ParentDir | Normal string

text \<open>
  \<^verbatim>\<open>Path::components\<close>: repeated separators, a trailing separator and \<^verbatim>\<open>.\<close> in the middle are
  dropped.
\<close>

definition part_component :: "string \<Rightarrow> path_component" where
  "part_component p = (if p = ''..'' then ParentDir else Normal p)"

definition path_components :: "string \<Rightarrow> path_component list" where
  "path_components s =
     (let parts = split_on CHR ''/'' s in
      (if starts_with s ''/'' then [RootDir] else if hd parts = ''.'' then [CurDir] else []) @
      map part_component (filter (\<lambda>p. p \<noteq> [] \<and> p \<noteq> ''.'') parts))"

text \<open>
  What the system sees of a path. Repeated separators and a \<^verbatim>\<open>.\<close> in the middle make no difference
  to it either, but a final separator or \<^verbatim>\<open>.\<close> demands a directory, as a final \<^const>\<open>CurDir\<close> does in
  the resolution below. Calls that get a string resolve its \<open>system_path\<close>; calls that get the result
  of \<^verbatim>\<open>Path::parent\<close> or a canonical path get its components, which never end that way.
\<close>

definition names_directory :: "string \<Rightarrow> bool" where
  "names_directory s \<longleftrightarrow> s \<noteq> [] \<and> last (split_on CHR ''/'' s) \<in> {[], ''.''}"

definition system_path :: "string \<Rightarrow> path_component list" where
  "system_path s = path_components s @ (if names_directory s then [CurDir] else [])"

definition path_parent :: "path_component list \<Rightarrow> path_component list option" where
  "path_parent cs = (if cs = [] \<or> last cs = RootDir then None else Some (butlast cs))"

definition path_file_name :: "path_component list \<Rightarrow> string option" where
  "path_file_name cs =
     (if cs = [] then None else (case last cs of Normal n \<Rightarrow> Some n | _ \<Rightarrow> None))"

text \<open>A canonical path is the list of its names; it is displayed from the root.\<close>

definition path_string :: "string list \<Rightarrow> string" where
  "path_string names = CHR ''/'' # join_with CHR ''/'' names"

text \<open>\<^verbatim>\<open>Path::join\<close>: an absolute right-hand side replaces the left.\<close>

definition path_join :: "string \<Rightarrow> string \<Rightarrow> string" where
  "path_join base s =
     (if starts_with s ''/'' then s
      else if base = [] then s
      else if last base = CHR ''/'' then base @ s
      else base @ CHR ''/'' # s)"

definition is_prefix_of :: "'a list \<Rightarrow> 'a list \<Rightarrow> bool" where
  "is_prefix_of xs ys \<longleftrightarrow> take (length xs) ys = xs"

lemma is_prefix_of_iff: "is_prefix_of xs ys \<longleftrightarrow> (\<exists>zs. ys = xs @ zs)"
  by (metis append_eq_conv_conj append_take_drop_id is_prefix_of_def)

section \<open>The state\<close>

text \<open>
  Directory entries name inodes, so a file that is open or renamed keeps its bytes. A
  modification time is in nanoseconds since the Unix epoch, absent where the platform has none.
\<close>

datatype entry = DirEntry | FileEntry nat | LinkEntry string

record file_data =
  file_bytes :: bytes
  file_modified :: "int option"

record filesystem =
  entries :: "(string list \<times> entry) list"
  inodes :: "nat \<Rightarrow> file_data"
  next_inode :: nat
  fs_cwd :: "string list"
  fs_clock :: "int option"
  fs_faults :: "(io_kind \<times> nat) option list"

definition lookup :: "'z filesystem_scheme \<Rightarrow> string list \<Rightarrow> entry option" where
  "lookup fs p = (if p = [] then Some DirEntry else map_of (entries fs) p)"

text \<open>
  Resolution of a path, at most forty symbolic links deep, as on Linux: \<open>cur\<close> is the canonical
  path of the components already resolved.
\<close>

function resolve_path ::
  "(string list \<Rightarrow> entry option) \<Rightarrow> nat \<Rightarrow> string list \<Rightarrow> path_component list \<Rightarrow> io_kind + string list"
where
  "resolve_path look links cur [] = Ok cur"
| "resolve_path look links cur (RootDir # cs) = resolve_path look links [] cs"
| "resolve_path look links cur (CurDir # cs) = resolve_path look links cur cs"
| "resolve_path look links cur (ParentDir # cs) = resolve_path look links (butlast cur) cs"
| "resolve_path look links cur (Normal n # cs) =
     (case look (cur @ [n]) of
        None \<Rightarrow> Err IoNotFound
      | Some DirEntry \<Rightarrow> resolve_path look links (cur @ [n]) cs
      | Some (FileEntry i) \<Rightarrow> if cs = [] then Ok (cur @ [n]) else Err IoOther
      | Some (LinkEntry target) \<Rightarrow>
          if links = 0 then Err IoOther
          else resolve_path look (links - 1) cur (system_path target @ cs))"
  by pat_completeness auto
termination
  by (relation "measures [\<lambda>(look, links, cur, cs). links, \<lambda>(look, links, cur, cs). length cs]") auto

definition max_links :: nat where
  "max_links = 40"

section \<open>The calls\<close>

definition take_fault ::
  "'z filesystem_scheme \<Rightarrow> 'z filesystem_scheme \<times> (io_kind \<times> nat) option" where
  "take_fault fs =
     (case fs_faults fs of [] \<Rightarrow> (fs, None) | f # rest \<Rightarrow> (fs\<lparr>fs_faults := rest\<rparr>, f))"

definition syscall ::
  "('z filesystem_scheme, io_kind, 'a) action \<Rightarrow> ('z filesystem_scheme, io_kind, 'a) action" where
  "syscall f fs =
     (case take_fault fs of
        (fs, Some (kind, _)) \<Rightarrow> (fs, Err kind)
      | (fs, None) \<Rightarrow> f fs)"

definition query ::
  "('z filesystem_scheme \<Rightarrow> io_kind + 'a) \<Rightarrow> ('z filesystem_scheme, io_kind, 'a) action" where
  "query f = syscall (\<lambda>fs. (fs, f fs))"

text \<open>Calls whose effect the model does not see: \<^verbatim>\<open>flush\<close>, \<^verbatim>\<open>sync_data\<close>, \<^verbatim>\<open>sync_all\<close>, \<^verbatim>\<open>seek\<close>.\<close>

definition fs_barrier :: "('z filesystem_scheme, io_kind, unit) action" where
  "fs_barrier = query (\<lambda>_. Ok ())"

definition fs_canonicalize ::
  "path_component list \<Rightarrow> ('z filesystem_scheme, io_kind, string list) action" where
  "fs_canonicalize cs =
     query (\<lambda>fs. if cs = [] then Err IoNotFound
       else resolve_path (lookup fs) max_links (fs_cwd fs) cs)"

datatype file_kind = KindDir | KindFile | KindLink

record file_info =
  info_kind :: file_kind
  info_len :: u64
  info_modified :: "int option"

definition info_of :: "'z filesystem_scheme \<Rightarrow> entry \<Rightarrow> file_info" where
  "info_of fs e =
     (case e of
        DirEntry \<Rightarrow> \<lparr>info_kind = KindDir, info_len = 0, info_modified = None\<rparr>
      | FileEntry i \<Rightarrow>
          \<lparr>info_kind = KindFile, info_len = word_of_nat (length (file_bytes (inodes fs i))),
           info_modified = file_modified (inodes fs i)\<rparr>
      | LinkEntry _ \<Rightarrow> \<lparr>info_kind = KindLink, info_len = 0, info_modified = None\<rparr>)"

text \<open>\<^verbatim>\<open>fs::metadata\<close> follows links, \<^verbatim>\<open>fs::symlink_metadata\<close> does not follow the last one.\<close>

definition fs_metadata :: "path_component list \<Rightarrow> ('z filesystem_scheme, io_kind, file_info) action"
where
  "fs_metadata cs =
     query (\<lambda>fs. and_then
       (if cs = [] then Err IoNotFound else resolve_path (lookup fs) max_links (fs_cwd fs) cs)
       (\<lambda>p. and_then (ok_or (lookup fs p) IoNotFound) (\<lambda>e. Ok (info_of fs e))))"

definition fs_symlink_metadata :: "string list \<Rightarrow> ('z filesystem_scheme, io_kind, file_info) action"
where
  "fs_symlink_metadata p =
     query (\<lambda>fs. and_then (ok_or (lookup fs p) IoNotFound) (\<lambda>e. Ok (info_of fs e)))"

definition fs_open :: "string list \<Rightarrow> ('z filesystem_scheme, io_kind, entry) action" where
  "fs_open p =
     query (\<lambda>fs. and_then (resolve_path (lookup fs) max_links [] (map Normal p))
       (\<lambda>q. ok_or (lookup fs q) IoNotFound))"

definition fs_read :: "nat \<Rightarrow> u64 \<Rightarrow> u64 \<Rightarrow> ('z filesystem_scheme, io_kind, bytes) action" where
  "fs_read i offset len =
     query (\<lambda>fs. Ok (take (unat len) (drop (unat offset) (file_bytes (inodes fs i)))))"

definition fs_read_dir :: "string list \<Rightarrow> ('z filesystem_scheme, io_kind, string list) action" where
  "fs_read_dir p =
     query (\<lambda>fs. case lookup fs p of
         None \<Rightarrow> Err IoNotFound
       | Some DirEntry \<Rightarrow>
           Ok (map (\<lambda>x. last (fst x))
             (filter (\<lambda>x. fst x \<noteq> [] \<and> butlast (fst x) = p) (entries fs)))
       | Some _ \<Rightarrow> Err IoOther)"

definition parent_is_dir :: "'z filesystem_scheme \<Rightarrow> string list \<Rightarrow> bool" where
  "parent_is_dir fs p \<longleftrightarrow> p \<noteq> [] \<and> lookup fs (butlast p) = Some DirEntry"

definition fs_create_new :: "string list \<Rightarrow> ('z filesystem_scheme, io_kind, nat) action" where
  "fs_create_new p =
     syscall (\<lambda>fs.
       if lookup fs p \<noteq> None then (fs, Err IoAlreadyExists)
       else if \<not> parent_is_dir fs p then (fs, Err IoNotFound)
       else
         (fs\<lparr>entries := (p, FileEntry (next_inode fs)) # entries fs,
             inodes := (inodes fs)(next_inode fs := \<lparr>file_bytes = [], file_modified = fs_clock fs\<rparr>),
             next_inode := Suc (next_inode fs)\<rparr>,
          Ok (next_inode fs)))"

definition append_bytes :: "nat \<Rightarrow> bytes \<Rightarrow> 'z filesystem_scheme \<Rightarrow> 'z filesystem_scheme" where
  "append_bytes i bs fs =
     fs\<lparr>inodes := (inodes fs)(i :=
          \<lparr>file_bytes = file_bytes (inodes fs i) @ bs, file_modified = fs_clock fs\<rparr>)\<rparr>"

text \<open>A failing \<^verbatim>\<open>write_all\<close> may have written any prefix.\<close>

definition fs_write_all :: "nat \<Rightarrow> bytes \<Rightarrow> ('z filesystem_scheme, io_kind, unit) action" where
  "fs_write_all i bs fs =
     (case take_fault fs of
        (fs, Some (kind, n)) \<Rightarrow> (append_bytes i (take n bs) fs, Err kind)
      | (fs, None) \<Rightarrow> (append_bytes i bs fs, Ok ()))"

definition fs_remove_file :: "string list \<Rightarrow> ('z filesystem_scheme, io_kind, unit) action" where
  "fs_remove_file p =
     syscall (\<lambda>fs.
       case lookup fs p of
         None \<Rightarrow> (fs, Err IoNotFound)
       | Some DirEntry \<Rightarrow> (fs, Err IoOther)
       | Some _ \<Rightarrow> (fs\<lparr>entries := AList.delete p (entries fs)\<rparr>, Ok ()))"

text \<open>
  \<^verbatim>\<open>fs::rename\<close> of a file: it replaces a file or a link at the destination and fails on a
  directory. The code renames files only; a directory source is refused here.
\<close>

definition fs_rename :: "string list \<Rightarrow> string list \<Rightarrow> ('z filesystem_scheme, io_kind, unit) action"
where
  "fs_rename source dest =
     syscall (\<lambda>fs.
       case lookup fs source of
         None \<Rightarrow> (fs, Err IoNotFound)
       | Some DirEntry \<Rightarrow> (fs, Err IoOther)
       | Some e \<Rightarrow>
           if lookup fs dest = Some DirEntry then (fs, Err IoOther)
           else if \<not> parent_is_dir fs dest then (fs, Err IoNotFound)
           else (fs\<lparr>entries := AList.update dest e (AList.delete source (entries fs))\<rparr>, Ok ()))"

definition fs_create_dir :: "string list \<Rightarrow> ('z filesystem_scheme, io_kind, unit) action" where
  "fs_create_dir p =
     syscall (\<lambda>fs.
       if lookup fs p \<noteq> None then (fs, Err IoAlreadyExists)
       else if \<not> parent_is_dir fs p then (fs, Err IoNotFound)
       else (fs\<lparr>entries := (p, DirEntry) # entries fs\<rparr>, Ok ()))"

end
