(* ===== verification/Local_Store.thy ===== *)
theory Local_Store
  imports Filesystem Range_Reader "HOL-Library.List_Lexorder" "HOL-Library.Char_ord"
begin

text \<open>
  The local backend (\<^verbatim>\<open>local.rs\<close>): resolution of locations beneath the allowed root, the
  read-only operations, and the staged writer that builds a sibling file and renames it over
  the destination. The world is the file system with the process's counters. A canonical
  \<^verbatim>\<open>PathBuf\<close> is the list of its names; names are taken to be valid UTF-8, so that
  \<^verbatim>\<open>to_string_lossy\<close> loses nothing.
\<close>

section \<open>The world\<close>

record local_world = filesystem +
  active_writers :: usize
  bytes_read :: u64
  stage_sequence :: u64
  process_id :: nat

section \<open>Locations\<close>

definition canonical_allowed_root ::
  "object_location \<Rightarrow> operation
   \<Rightarrow> ('z local_world_scheme, native_failure, string list option) action" where
  "canonical_allowed_root location operation =
     (case location_allowed_root location of
        None \<Rightarrow> act_ok None
      | Some root \<Rightarrow>
          act_bind (map_io operation (fs_canonicalize (system_path root)))
            (\<lambda>p. act_ok (Some p)))"

definition enforce_allowed_root ::
  "object_location \<Rightarrow> string list \<Rightarrow> operation
   \<Rightarrow> ('z local_world_scheme, native_failure, unit) action" where
  "enforce_allowed_root location canonical operation =
     act_bind (canonical_allowed_root location operation) (\<lambda>root.
       case root of
         Some r \<Rightarrow>
           if \<not> is_prefix_of r canonical
           then act_err (failure_new PermissionDenied operation
                  ''object is outside the configured allowed root'')
           else act_ok ()
       | None \<Rightarrow> act_ok ())"

definition resolve_existing ::
  "object_location \<Rightarrow> operation \<Rightarrow> ('z local_world_scheme, native_failure, string list) action"
where
  "resolve_existing location operation =
     act_bind (map_io operation (fs_canonicalize (system_path (location_key location))))
       (\<lambda>canonical. act_bind (enforce_allowed_root location canonical operation)
         (\<lambda>_. act_ok canonical))"

definition resolve_destination ::
  "object_location \<Rightarrow> operation \<Rightarrow> ('z local_world_scheme, native_failure, string list) action"
where
  "resolve_destination location operation =
     (let requested = path_components (location_key location) in
      act_bind (act_lift (ok_or (path_parent requested)
          (failure_invalid operation ''destination requires a parent directory''))) (\<lambda>parent.
      act_bind (act_lift (ok_or (path_file_name requested)
          (failure_invalid operation ''destination requires a file name''))) (\<lambda>file_name.
      act_bind (map_io operation (fs_canonicalize parent)) (\<lambda>canonical_parent.
      act_bind (enforce_allowed_root location canonical_parent operation) (\<lambda>_.
      act_ok (canonical_parent @ [file_name]))))))"

definition system_time_ns :: "int \<Rightarrow> u64 option" where
  "system_time_ns t = (if t < 0 then None else map_option word_of_int (try_unsigned 64 t))"

definition metadata_for ::
  "string list \<Rightarrow> operation \<Rightarrow> ('z local_world_scheme, native_failure, object_metadata) action"
where
  "metadata_for path operation =
     act_bind (map_io operation (fs_metadata (RootDir # map Normal path))) (\<lambda>info.
       if info_kind info \<noteq> KindFile
       then act_err (failure_invalid operation ''object operation requires a regular file'')
       else act_ok
         \<lparr>object_path = path_string path, object_size = info_len info,
          object_modified_unix_ns = Option.bind (info_modified info) system_time_ns\<rparr>)"

definition validate_prefix :: "string \<Rightarrow> unit native_result" where
  "validate_prefix prefix =
     (if list_all (\<lambda>c. case c of Normal _ \<Rightarrow> True | CurDir \<Rightarrow> True | _ \<Rightarrow> False)
           (path_components prefix)
      then Ok ()
      else Err (failure_invalid OpList ''list prefix must be relative and cannot traverse parents''))"

text \<open>\<^verbatim>\<open>Path::is_dir\<close>: any error counts as no.\<close>

definition path_is_dir ::
  "path_component list \<Rightarrow> ('z local_world_scheme, native_failure, bool) action" where
  "path_is_dir cs s =
     (case fs_metadata cs s of (s, r) \<Rightarrow>
        (s, Ok (case r of Inl _ \<Rightarrow> False | Inr info \<Rightarrow> info_kind info = KindDir)))"

section \<open>Reading\<close>

definition local_head ::
  "object_location \<Rightarrow> cancellation_token
   \<Rightarrow> ('z local_world_scheme, native_failure, object_metadata) action" where
  "local_head location token =
     act_bind (act_lift (token_check token OpHead)) (\<lambda>_.
     act_bind (resolve_existing location OpHead) (\<lambda>path.
     metadata_for path OpHead))"

definition count_bytes_read :: "bytes \<Rightarrow> ('z local_world_scheme, native_failure, unit) action" where
  "count_bytes_read bs s = (s\<lparr>bytes_read := bytes_read s + vec_len bs\<rparr>, Ok ())"

text \<open>On a 64-bit target the conversion of the length to \<^verbatim>\<open>usize\<close> never fails.\<close>

definition local_read_range ::
  "object_location \<Rightarrow> byte_range \<Rightarrow> cancellation_token
   \<Rightarrow> ('z local_world_scheme, native_failure, bytes) action" where
  "local_read_range location requested token =
     act_bind (act_lift (token_check token OpReadRange)) (\<lambda>_.
     act_bind (resolve_existing location OpReadRange) (\<lambda>path.
     act_bind (map_io OpReadRange (fs_metadata (RootDir # map Normal path))) (\<lambda>metadata.
     if info_kind metadata \<noteq> KindFile
     then act_err (failure_invalid OpReadRange ''range reads require a regular file'')
     else if info_len metadata < range_offset requested
     then act_err (failure_invalid OpReadRange ''range offset is beyond end of object'')
     else
       (let available = info_len metadata - range_offset requested;
            read_length = min (range_length requested) available
        in act_bind (map_io OpReadRange (fs_open path)) (\<lambda>entry.
           act_bind (map_io OpReadRange fs_barrier) (\<lambda>_.
           act_bind (map_io OpReadRange
               (case entry of FileEntry i \<Rightarrow> fs_read i (range_offset requested) read_length
                | _ \<Rightarrow> act_err IoOther)) (\<lambda>bytes.
           act_bind (count_bytes_read bytes) (\<lambda>_.
           act_bind (act_lift (token_check token OpReadRange)) (\<lambda>_.
           act_ok bytes)))))))))"

definition local_delete ::
  "object_location \<Rightarrow> cancellation_token \<Rightarrow> ('z local_world_scheme, native_failure, unit) action"
where
  "local_delete location token =
     act_bind (act_lift (token_check token OpDelete)) (\<lambda>_.
     act_bind (resolve_existing location OpDelete) (\<lambda>path.
     map_io OpDelete (fs_remove_file path)))"

section \<open>Listing\<close>

text \<open>
  \<^verbatim>\<open>visit_directory\<close>, with the loop over the entries of a directory. The recursion goes into
  subdirectories, so its depth is bounded by the number of entries of the file system; the
  first argument is that bound. A failing \<^verbatim>\<open>file_type\<close> or the entry itself is one call.
\<close>

fun visit_directory ::
    "nat \<Rightarrow> string list \<Rightarrow> string list \<Rightarrow> string list option \<Rightarrow> string \<Rightarrow> cancellation_token
     \<Rightarrow> ('z local_world_scheme, native_failure, object_metadata list) action"
  and visit_entries ::
    "nat \<Rightarrow> string list \<Rightarrow> string list \<Rightarrow> string list option \<Rightarrow> string \<Rightarrow> cancellation_token
     \<Rightarrow> string list \<Rightarrow> ('z local_world_scheme, native_failure, object_metadata list) action" where
  "visit_directory 0 directory root allowed prefix token =
     act_err (failure_expected OpList ''unreachable'')"
| "visit_directory (Suc depth) directory root allowed prefix token =
     act_bind (act_lift (token_check token OpList)) (\<lambda>_.
     act_bind (map_io OpList (fs_read_dir directory)) (\<lambda>names.
     visit_entries depth directory root allowed prefix token names))"
| "visit_entries depth directory root allowed prefix token [] = act_ok []"
| "visit_entries depth directory root allowed prefix token (name # names) =
     act_bind (act_lift (token_check token OpList)) (\<lambda>_.
     act_bind (map_io OpList (fs_symlink_metadata (directory @ [name]))) (\<lambda>info.
     act_bind
       (case info_kind info of
          KindLink \<Rightarrow>
            act_bind (map_io OpList (fs_canonicalize (RootDir # map Normal (directory @ [name]))))
              (\<lambda>target.
                case allowed of
                  Some r \<Rightarrow>
                    if \<not> is_prefix_of r target
                    then act_err (failure_new PermissionDenied OpList
                           ''listed symlink escapes the configured allowed root'')
                    else act_ok []
                | None \<Rightarrow> act_ok [])
        | KindDir \<Rightarrow> visit_directory depth (directory @ [name]) root allowed prefix token
        | KindFile \<Rightarrow>
            if starts_with (join_with CHR ''/'' (drop (length root) (directory @ [name]))) prefix
            then act_bind (metadata_for (directory @ [name]) OpList) (\<lambda>m. act_ok [m])
            else act_ok [])
       (\<lambda>found.
     act_bind (visit_entries depth directory root allowed prefix token names) (\<lambda>rest.
     act_ok (found @ rest)))))"

definition local_list ::
  "object_location \<Rightarrow> string \<Rightarrow> cancellation_token
   \<Rightarrow> ('z local_world_scheme, native_failure, object_metadata list) action" where
  "local_list location prefix token =
     act_bind (act_lift (token_check token OpList)) (\<lambda>_.
     act_bind (act_lift (validate_prefix prefix)) (\<lambda>_.
     act_bind (resolve_existing location OpList) (\<lambda>root.
     act_bind (path_is_dir (RootDir # map Normal root)) (\<lambda>is_dir.
     if \<not> is_dir
     then act_err (failure_invalid OpList ''listing requires a directory location'')
     else
       act_bind (canonical_allowed_root location OpList) (\<lambda>allowed.
       act_bind (\<lambda>s. visit_directory (Suc (length (entries s))) root root allowed prefix token s)
         (\<lambda>found. act_ok (sort_key object_path found)))))))"

section \<open>The staged writer\<close>

record local_writer =
  lw_file :: "nat option"
  lw_stage_path :: "string list"
  lw_destination :: "string list"
  lw_flush :: flush_policy
  lw_sync :: sync_policy
  lw_cancellation :: cancellation_token
  lw_active :: bool

definition stage_name :: "nat \<Rightarrow> string \<Rightarrow> u64 \<Rightarrow> string" where
  "stage_name pid file_name seq_number =
     ''.'' @ file_name @ ''.parquex-'' @ nat_to_string pid @ ''-'' @
     nat_to_string (unat seq_number) @ ''.tmp''"

text \<open>The loop over at most 64 sequence numbers; the counter wraps.\<close>

fun allocate_stage ::
  "nat \<Rightarrow> string list \<Rightarrow> string
   \<Rightarrow> ('z local_world_scheme, native_failure, string list \<times> nat) action" where
  "allocate_stage 0 parent file_name s =
     (s, Err (failure_new Conflict OpWriterOpen ''could not allocate a unique staging file''))"
| "allocate_stage (Suc n) parent file_name s =
     (let stage_path = parent @ [stage_name (process_id s) file_name (stage_sequence s)]
      in case fs_create_new stage_path (s\<lparr>stage_sequence := stage_sequence s + 1\<rparr>) of
           (s, Inr handle) \<Rightarrow>
             (s\<lparr>active_writers := active_writers s + 1\<rparr>, Ok (stage_path, handle))
         | (s, Inl kind) \<Rightarrow>
             if kind = IoAlreadyExists then allocate_stage n parent file_name s
             else (s, Err (from_io OpWriterOpen kind)))"

definition writer_open ::
  "string list \<Rightarrow> write_options \<Rightarrow> cancellation_token
   \<Rightarrow> ('z local_world_scheme, native_failure, local_writer) action" where
  "writer_open destination options token =
     (if destination = []
      then act_err (failure_invalid OpWriterOpen ''destination requires a parent directory'')
      else
        act_bind (allocate_stage 64 (butlast destination) (last destination))
          (\<lambda>(stage_path, handle). act_ok
            \<lparr>lw_file = Some handle, lw_stage_path = stage_path, lw_destination = destination,
             lw_flush = option_flush options, lw_sync = option_sync options,
             lw_cancellation = token, lw_active = True\<rparr>))"

definition local_stage ::
  "object_location \<Rightarrow> write_options \<Rightarrow> cancellation_token
   \<Rightarrow> ('z local_world_scheme, native_failure, local_writer) action" where
  "local_stage location options token =
     act_bind (resolve_destination location OpWriterOpen)
       (\<lambda>destination. writer_open destination options token)"

text \<open>The operations of an open writer act on the writer and the world.\<close>

type_synonym 'z writer_world = "local_writer \<times> 'z local_world_scheme"

definition writer_finish :: "'z writer_world \<Rightarrow> 'z writer_world" where
  "writer_finish ws =
     (case ws of (w, s) \<Rightarrow>
        if lw_active w
        then (w\<lparr>lw_active := False\<rparr>, s\<lparr>active_writers := active_writers s - 1\<rparr>)
        else (w, s))"

definition cleanup_stage :: "'z writer_world \<Rightarrow> 'z writer_world" where
  "cleanup_stage ws =
     (case ws of (w, s) \<Rightarrow>
        writer_finish (w\<lparr>lw_file := None\<rparr>, fst (fs_remove_file (lw_stage_path w) s)))"

definition ensure_open :: "local_writer \<Rightarrow> operation \<Rightarrow> unit native_result" where
  "ensure_open w operation =
     and_then (token_check (lw_cancellation w) operation) (\<lambda>_.
       if lw_active w \<and> lw_file w \<noteq> None then Ok () else Err (failure_cancelled operation))"

definition write_file ::
  "nat \<Rightarrow> flush_policy \<Rightarrow> bytes \<Rightarrow> ('z local_world_scheme, native_failure, usize) action" where
  "write_file handle flush bs =
     act_bind (map_io OpWriterWrite (fs_write_all handle bs)) (\<lambda>_.
     act_bind (if flush = FlushEachChunk then map_io OpWriterWrite fs_barrier else act_ok ())
       (\<lambda>_. act_ok (vec_len bs)))"

definition writer_write :: "bytes \<Rightarrow> ('z writer_world, native_failure, usize) action" where
  "writer_write bs ws =
     (case ws of (w, s) \<Rightarrow>
        (case and_then (ensure_open w OpWriterWrite)
                (\<lambda>_. ok_or (lw_file w) (failure_cancelled OpWriterWrite)) of
           Inl e \<Rightarrow> ((w, s), Err e)
         | Inr handle \<Rightarrow>
             (case write_file handle (lw_flush w) bs s of (s, r) \<Rightarrow> ((w, s), r))))"

definition prepare_publish ::
  "local_writer \<Rightarrow> ('z local_world_scheme, native_failure, unit) action" where
  "prepare_publish w =
     act_bind (act_lift (ok_or (lw_file w) (failure_cancelled OpWriterPublish))) (\<lambda>_.
     act_bind (if lw_flush w \<noteq> FlushNone then map_io OpWriterPublish fs_barrier else act_ok ()) (\<lambda>_.
     case lw_sync w of
       SyncNone \<Rightarrow> act_ok ()
     | SyncData \<Rightarrow> map_io OpWriterPublish fs_barrier
     | SyncAll \<Rightarrow> map_io OpWriterPublish fs_barrier))"

definition sync_parent :: "string list \<Rightarrow> ('z local_world_scheme, io_kind, unit) action" where
  "sync_parent destination =
     (if destination = [] then act_err IoNotFound
      else act_bind (fs_open (butlast destination)) (\<lambda>_. fs_barrier))"

text \<open>\<^verbatim>\<open>replace_file\<close> of every target but Windows.\<close>

definition replace_file ::
  "string list \<Rightarrow> string list \<Rightarrow> ('z local_world_scheme, io_kind, unit) action" where
  "replace_file source destination = fs_rename source destination"

definition writer_publish :: "('z writer_world, native_failure, object_metadata) action" where
  "writer_publish ws =
     (case ws of (w, s) \<Rightarrow>
        (case ensure_open w OpWriterPublish of
           Inl e \<Rightarrow> ((w, s), Err e)
         | Inr _ \<Rightarrow>
        (case prepare_publish w s of
           (s, Inl e) \<Rightarrow> (cleanup_stage (w, s), Err e)
         | (s, Inr _) \<Rightarrow>
        (case metadata_for (lw_stage_path w) OpWriterPublish s of
           (s, Inl e) \<Rightarrow> (cleanup_stage (w, s), Err e)
         | (s, Inr metadata) \<Rightarrow>
        (let w = w\<lparr>lw_file := None\<rparr>
         in case replace_file (lw_stage_path w) (lw_destination w) s of
           (s, Inl kind) \<Rightarrow> (cleanup_stage (w, s), Err (from_io OpWriterPublish kind))
         | (s, Inr _) \<Rightarrow>
        (case (if lw_sync w = SyncAll then sync_parent (lw_destination w) s else (s, Ok ())) of
           (s, Inl _) \<Rightarrow>
             (writer_finish (w, s),
              Err (failure_new NativeFailure OpWriterPublish ''destination directory sync failed''))
         | (s, Inr _) \<Rightarrow>
             (writer_finish (w, s),
              Ok (metadata\<lparr>object_path := path_string (lw_destination w)\<rparr>))))))))"

definition writer_abort :: "('z writer_world, native_failure, bool) action" where
  "writer_abort ws =
     (case ws of (w, s) \<Rightarrow>
        if \<not> lw_active w then ((w, s), Ok False)
        else
          (let w = w\<lparr>lw_cancellation := token_cancel (lw_cancellation w), lw_file := None\<rparr>
           in case fs_remove_file (lw_stage_path w) s of (s, removed) \<Rightarrow>
                (writer_finish (w, s),
                 case removed of
                   Inr _ \<Rightarrow> Ok True
                 | Inl kind \<Rightarrow>
                     if kind = IoNotFound then Ok True else Err (from_io OpWriterAbort kind))))"

text \<open>\<^verbatim>\<open>std::io::Write\<close> for the writer, and its destructor.\<close>

definition writer_io_write :: "bytes \<Rightarrow> ('z writer_world, io_error, usize) action" where
  "writer_io_write bs = act_map_err (\<lambda>_. IoOtherError ''staged object write failed'') (writer_write bs)"

definition writer_io_flush :: "('z writer_world, io_error, unit) action" where
  "writer_io_flush ws =
     (case ws of (w, s) \<Rightarrow>
        (case ensure_open w OpWriterWrite of
           Inl _ \<Rightarrow> ((w, s), Err (IoOtherError ''staged object write failed''))
         | Inr _ \<Rightarrow>
             (case lw_file w of
                None \<Rightarrow> ((w, s), Err (IoOtherError ''staged object writer is closed''))
              | Some _ \<Rightarrow>
                  (case fs_barrier s of (s, r) \<Rightarrow> ((w, s), map_err IoOsError r)))))"

definition writer_drop :: "'z writer_world \<Rightarrow> 'z writer_world" where
  "writer_drop ws =
     (case ws of (w, s) \<Rightarrow>
        if lw_active w
        then cleanup_stage (w\<lparr>lw_cancellation := token_cancel (lw_cancellation w)\<rparr>, s)
        else (w, s))"

definition local_resource_snapshot :: "'z local_world_scheme \<Rightarrow> usize \<times> u64" where
  "local_resource_snapshot s = (active_writers s, bytes_read s)"

end
