(* ===== verification/Filesystem_Laws.thy ===== *)
theory Filesystem_Laws
  imports Filesystem
begin

text \<open>
  What the calls of the file system do: reading calls change nothing, a resolved path goes
  through directories only, and every call keeps the tree of directories well formed.
\<close>

section \<open>Failures and reading calls\<close>

lemma lookup_faults [simp]: "lookup (fs\<lparr>fs_faults := fl\<rparr>) = lookup fs"
  by (simp add: lookup_def fun_eq_iff)

lemma take_fault_cases:
  obtains fl where "take_fault fs = (fs\<lparr>fs_faults := fl\<rparr>, None)"
    | fl k n where "take_fault fs = (fs\<lparr>fs_faults := fl\<rparr>, Some (k, n))"
proof (cases "fs_faults fs")
  case Nil
  then have "take_fault fs = (fs\<lparr>fs_faults := fs_faults fs\<rparr>, None)" by (simp add: take_fault_def)
  then show ?thesis by (rule that(1))
next
  case (Cons f rest)
  then have "take_fault fs = (fs\<lparr>fs_faults := rest\<rparr>, f)" by (simp add: take_fault_def)
  then show ?thesis using that by (cases f) auto
qed

lemma syscall_cases:
  assumes "syscall f s = (t, r)"
  obtains (fault) fl k where "t = s\<lparr>fs_faults := fl\<rparr>" "r = Err k"
    | (run) fl where "f (s\<lparr>fs_faults := fl\<rparr>) = (t, r)"
  by (rule take_fault_cases [of s]) (use assms that in \<open>auto simp: syscall_def\<close>)

lemma syscall_no_fault: "fs_faults s = [] \<Longrightarrow> syscall f s = f s"
  by (simp add: syscall_def take_fault_def)

lemma query_cases:
  assumes "query f s = (t, r)"
  obtains (fault) fl k where "t = s\<lparr>fs_faults := fl\<rparr>" "r = Err k"
    | (run) fl where "t = s\<lparr>fs_faults := fl\<rparr>" "r = f t"
  using assms unfolding query_def by (rule syscall_cases) (use that in auto)

lemma query_no_fault: "fs_faults s = [] \<Longrightarrow> query f s = (s, f s)"
  by (simp add: query_def syscall_no_fault)

section \<open>Resolution\<close>

definition all_dirs :: "(string list \<Rightarrow> entry option) \<Rightarrow> string list \<Rightarrow> bool" where
  "all_dirs look p \<longleftrightarrow> (\<forall>k \<le> length p. look (take k p) = Some DirEntry)"

text \<open>A canonical path: directories down to a directory or a file.\<close>

definition canonical :: "(string list \<Rightarrow> entry option) \<Rightarrow> string list \<Rightarrow> bool" where
  "canonical look p \<longleftrightarrow>
     all_dirs look p \<or> (p \<noteq> [] \<and> all_dirs look (butlast p) \<and> (\<exists>i. look p = Some (FileEntry i)))"

lemma all_dirs_Nil [simp]: "all_dirs look [] \<longleftrightarrow> look [] = Some DirEntry"
  by (simp add: all_dirs_def)

lemma all_dirs_snoc: "all_dirs look (p @ [n]) \<longleftrightarrow> all_dirs look p \<and> look (p @ [n]) = Some DirEntry"
  by (auto simp: all_dirs_def le_Suc_eq)

lemma all_dirs_last: "all_dirs look p \<Longrightarrow> look p = Some DirEntry"
  unfolding all_dirs_def by (metis order_refl take_all)

lemma all_dirs_butlast: "all_dirs look p \<Longrightarrow> all_dirs look (butlast p)"
  by (cases p rule: rev_cases) (simp_all add: all_dirs_snoc)

lemma resolve_canonical:
  "look [] = Some DirEntry \<Longrightarrow> all_dirs look cur \<Longrightarrow>
     resolve_path look links cur cs = Ok p \<Longrightarrow> canonical look p"
proof (induction look links cur cs rule: resolve_path.induct)
  case (1 look links cur)
  then show ?case by (simp add: canonical_def)
next
  case (2 look links cur cs)
  then show ?case by simp
next
  case (5 look links cur n cs)
  show ?case
  proof (cases "look (cur @ [n])")
    case None
    with 5(5) show ?thesis by simp
  next
    case (Some e)
    then show ?thesis
    proof (cases e)
      case DirEntry
      then show ?thesis using 5 Some by (simp add: all_dirs_snoc)
    next
      case (FileEntry i)
      then have "p = cur @ [n]" using 5(5) Some by (simp split: if_splits)
      then show ?thesis using 5(4) Some FileEntry by (simp add: canonical_def)
    next
      case (LinkEntry target)
      then show ?thesis using 5 Some by (simp split: if_splits)
    qed
  qed
qed (simp_all add: all_dirs_butlast)

lemma resolve_dirs:
  "all_dirs look (cur @ ns) \<Longrightarrow> resolve_path look links cur (map Normal ns @ cs) =
     resolve_path look links (cur @ ns) cs"
proof (induction ns arbitrary: cur)
  case (Cons n ns)
  have "look (take (Suc (length cur)) (cur @ n # ns)) = Some DirEntry"
    using Cons.prems unfolding all_dirs_def by (rule allE [of _ "Suc (length cur)"]) simp
  then have "look (cur @ [n]) = Some DirEntry" by simp
  then show ?case using Cons.IH [of "cur @ [n]"] Cons.prems by simp
qed simp

lemma resolve_self:
  assumes "canonical look p"
  shows "resolve_path look links [] (map Normal p) = Ok p"
  using assms unfolding canonical_def
proof
  assume "all_dirs look p"
  then show ?thesis using resolve_dirs [of look "[]" p links "[]"] by simp
next
  assume a: "p \<noteq> [] \<and> all_dirs look (butlast p) \<and> (\<exists>i. look p = Some (FileEntry i))"
  then obtain q n i where p: "p = q @ [n]" and q: "all_dirs look q" and i: "look p = Some (FileEntry i)"
    by (cases p rule: rev_cases) auto
  then show ?thesis using resolve_dirs [of look "[]" q links "[Normal n]"] by simp
qed

lemma canonical_lookup: "canonical look p \<Longrightarrow> \<exists>e. look p = Some e"
  unfolding canonical_def using all_dirs_last by blast

section \<open>Well-formed trees\<close>

text \<open>The parent of every entry is a directory, and so is the working directory.\<close>

definition tree_ok :: "'z filesystem_scheme \<Rightarrow> bool" where
  "tree_ok fs \<longleftrightarrow>
     (\<forall>p n. lookup fs (p @ [n]) \<noteq> None \<longrightarrow> lookup fs p = Some DirEntry) \<and>
     lookup fs (fs_cwd fs) = Some DirEntry \<and>
     (\<forall>p i. lookup fs p = Some (FileEntry i) \<longrightarrow> i < next_inode fs)"

lemma lookup_Nil [simp]: "lookup fs [] = Some DirEntry"
  by (simp add: lookup_def)

lemma tree_dirs:
  assumes "tree_ok fs" and "lookup fs p = Some DirEntry"
  shows "all_dirs (lookup fs) p"
  using assms(2)
proof (induction p rule: rev_induct)
  case (snoc n p)
  then have "lookup fs p = Some DirEntry" using assms(1) by (auto simp: tree_ok_def)
  with snoc show ?case by (simp add: all_dirs_snoc)
qed simp

lemma tree_file_canonical:
  assumes "tree_ok fs" and "lookup fs p = Some (FileEntry i)"
  shows "canonical (lookup fs) p"
proof -
  obtain q n where p: "p = q @ [n]" using assms(2) by (cases p rule: rev_cases) auto
  then have "lookup fs q = Some DirEntry" using assms by (auto simp: tree_ok_def)
  then show ?thesis using tree_dirs [OF assms(1)] assms(2) p by (simp add: canonical_def)
qed

lemma tree_resolve:
  assumes "tree_ok fs" and "lookup fs p = Some (FileEntry i) \<or> lookup fs p = Some DirEntry"
  shows "resolve_path (lookup fs) links cur (RootDir # map Normal p) = Ok p"
    and "resolve_path (lookup fs) links [] (map Normal p) = Ok p"
proof -
  have "canonical (lookup fs) p"
    using assms(2) tree_file_canonical [OF assms(1)] tree_dirs [OF assms(1)]
    by (auto simp: canonical_def)
  then show "resolve_path (lookup fs) links [] (map Normal p) = Ok p"
    and "resolve_path (lookup fs) links cur (RootDir # map Normal p) = Ok p"
    by (simp_all add: resolve_self)
qed

text \<open>The same with a demand for a directory at the end.\<close>

lemma tree_resolve_directory:
  assumes "tree_ok fs"
  shows "lookup fs p = Some DirEntry \<Longrightarrow>
      resolve_path (lookup fs) links cur (RootDir # map Normal p @ [CurDir]) = Ok p"
    and "lookup fs p = Some (FileEntry i) \<Longrightarrow>
      resolve_path (lookup fs) links cur (RootDir # map Normal p @ [CurDir]) = Err IoOther"
proof -
  assume "lookup fs p = Some DirEntry"
  then have "all_dirs (lookup fs) ([] @ p)" using tree_dirs [OF assms] by simp
  from resolve_dirs [OF this, of links "[CurDir]"]
  show "resolve_path (lookup fs) links cur (RootDir # map Normal p @ [CurDir]) = Ok p" by simp
next
  assume p: "lookup fs p = Some (FileEntry i)"
  then obtain q n where q: "p = q @ [n]" by (cases p rule: rev_cases) auto
  then have "lookup fs q = Some DirEntry" using assms p by (auto simp: tree_ok_def)
  then have "all_dirs (lookup fs) ([] @ q)" using tree_dirs [OF assms] by simp
  from resolve_dirs [OF this, of links "[Normal n, CurDir]"]
  show "resolve_path (lookup fs) links cur (RootDir # map Normal p @ [CurDir]) = Err IoOther"
    using p q by simp
qed

lemma canonicalize_canonical:
  assumes "tree_ok s" and "fs_canonicalize cs s = (t, Ok p)"
  shows "canonical (lookup s) p"
  using assms(2) unfolding fs_canonicalize_def
proof (cases rule: query_cases)
  case (run fl)
  have "all_dirs (lookup s) (fs_cwd s)" using assms(1) tree_dirs by (auto simp: tree_ok_def)
  with run show ?thesis using resolve_canonical [of "lookup s" "fs_cwd s" max_links cs p]
    by (auto split: if_splits)
qed simp

section \<open>Writing calls\<close>

definition file_at :: "'z filesystem_scheme \<Rightarrow> string list \<Rightarrow> bytes option" where
  "file_at fs p =
     (case lookup fs p of Some (FileEntry i) \<Rightarrow> Some (file_bytes (inodes fs i)) | _ \<Rightarrow> None)"

lemma file_at_faults [simp]: "file_at (s\<lparr>fs_faults := fl\<rparr>) = file_at s"
  by (simp add: file_at_def fun_eq_iff split: option.splits entry.splits)

lemma tree_ok_faults [simp]: "tree_ok (s\<lparr>fs_faults := fl\<rparr>) \<longleftrightarrow> tree_ok s"
  by (simp add: tree_ok_def)

lemma lookup_append_bytes [simp]: "lookup (append_bytes i bs s) = lookup s"
  by (simp add: append_bytes_def lookup_def fun_eq_iff)

lemma append_bytes_fields [simp]:
  "next_inode (append_bytes i bs s) = next_inode s" "fs_cwd (append_bytes i bs s) = fs_cwd s"
  "fs_faults (append_bytes i bs s) = fs_faults s" "entries (append_bytes i bs s) = entries s"
  "file_bytes (inodes (append_bytes i bs s) i) = file_bytes (inodes s i) @ bs"
  "j \<noteq> i \<Longrightarrow> inodes (append_bytes i bs s) j = inodes s j"
  by (simp_all add: append_bytes_def)

lemma tree_ok_append_bytes [simp]: "tree_ok (append_bytes i bs s) \<longleftrightarrow> tree_ok s"
  by (simp add: tree_ok_def)

lemma write_all_cases:
  assumes "fs_write_all i bs s = (t, r)"
  obtains fl n where "t = append_bytes i (take n bs) (s\<lparr>fs_faults := fl\<rparr>)"
    "r = Ok () \<longrightarrow> take n bs = bs"
proof (rule take_fault_cases [of s])
  fix fl
  assume "take_fault s = (s\<lparr>fs_faults := fl\<rparr>, None)"
  then have "t = append_bytes i (take (length bs) bs) (s\<lparr>fs_faults := fl\<rparr>)"
    using assms by (simp add: fs_write_all_def)
  then show thesis by (rule that) simp
next
  fix fl k n
  assume "take_fault s = (s\<lparr>fs_faults := fl\<rparr>, Some (k, n))"
  then show thesis using assms that by (auto simp: fs_write_all_def)
qed

lemma lookup_cons:
  "p \<noteq> [] \<Longrightarrow> lookup (s\<lparr>entries := (p, e) # entries s\<rparr>) = (lookup s)(p \<mapsto> e)"
  by (auto simp: lookup_def fun_eq_iff)

lemma lookup_delete:
  "p \<noteq> [] \<Longrightarrow> lookup (s\<lparr>entries := AList.delete p (entries s)\<rparr>) = (lookup s)(p := None)"
  by (auto simp: lookup_def fun_eq_iff delete_conv')

lemma lookup_move:
  "p \<noteq> [] \<Longrightarrow> q \<noteq> [] \<Longrightarrow>
     lookup (s\<lparr>entries := AList.update q e (AList.delete p (entries s))\<rparr>) =
     (lookup s)(p := None, q \<mapsto> e)"
  by (auto simp: lookup_def fun_eq_iff delete_conv' update_conv')

lemma lookup_other_fields [simp]:
  "lookup (s\<lparr>inodes := x\<rparr>) = lookup s" "lookup (s\<lparr>next_inode := n\<rparr>) = lookup s"
  by (simp_all add: lookup_def fun_eq_iff)

lemma create_new_cases:
  assumes "fs_create_new p s = (t, r)"
  obtains (fault) fl k where "t = s\<lparr>fs_faults := fl\<rparr>" "r = Err k"
    | (ok) fl where "r = Ok (next_inode s)" "lookup s p = None" "parent_is_dir s p"
        "t = s\<lparr>fs_faults := fl, entries := (p, FileEntry (next_inode s)) # entries s,
          inodes := (inodes s)(next_inode s := \<lparr>file_bytes = [], file_modified = fs_clock s\<rparr>),
          next_inode := Suc (next_inode s)\<rparr>"
  using assms unfolding fs_create_new_def
  by (rule syscall_cases) (auto simp: parent_is_dir_def split: if_splits intro: that)

lemma create_dir_cases:
  assumes "fs_create_dir p s = (t, r)"
  obtains (fault) fl k where "t = s\<lparr>fs_faults := fl\<rparr>" "r = Err k"
    | (ok) fl where "r = Ok ()" "lookup s p = None" "parent_is_dir s p"
        "t = s\<lparr>fs_faults := fl, entries := (p, DirEntry) # entries s\<rparr>"
  using assms unfolding fs_create_dir_def
  by (rule syscall_cases) (auto simp: parent_is_dir_def split: if_splits intro: that)

lemma remove_file_cases:
  assumes "fs_remove_file p s = (t, r)"
  obtains (fault) fl k where "t = s\<lparr>fs_faults := fl\<rparr>" "r = Err k"
    | (ok) fl e where "r = Ok ()" "lookup s p = Some e" "e \<noteq> DirEntry" "p \<noteq> []"
        "t = s\<lparr>fs_faults := fl, entries := AList.delete p (entries s)\<rparr>"
  using assms unfolding fs_remove_file_def
proof (rule syscall_cases)
  fix fl
  let ?u = "s\<lparr>fs_faults := fl\<rparr>"
  assume run: "(case lookup ?u p of None \<Rightarrow> (?u, Err IoNotFound) | Some DirEntry \<Rightarrow> (?u, Err IoOther)
      | Some _ \<Rightarrow> (?u\<lparr>entries := AList.delete p (entries ?u)\<rparr>, Ok ())) = (t, r)"
  show thesis
  proof (cases "lookup s p")
    case None
    then show thesis using run fault by auto
  next
    case (Some e)
    then have "p \<noteq> []" if "e \<noteq> DirEntry" using that by auto
    then show thesis using run fault ok Some by (cases e) auto
  qed
qed (use fault in auto)

lemma rename_cases:
  assumes "fs_rename p q s = (t, r)"
  obtains (fault) fl k where "t = s\<lparr>fs_faults := fl\<rparr>" "r = Err k"
    | (ok) fl e where "r = Ok ()" "lookup s p = Some e" "e \<noteq> DirEntry" "p \<noteq> []" "q \<noteq> []"
        "lookup s q \<noteq> Some DirEntry" "parent_is_dir s q"
        "t = s\<lparr>fs_faults := fl, entries := AList.update q e (AList.delete p (entries s))\<rparr>"
  using assms unfolding fs_rename_def
proof (rule syscall_cases)
  fix fl
  let ?u = "s\<lparr>fs_faults := fl\<rparr>"
  let ?run = "\<lambda>e. if lookup ?u q = Some DirEntry then (?u, Err IoOther)
     else if \<not> parent_is_dir ?u q then (?u, Err IoNotFound)
     else (?u\<lparr>entries := AList.update q e (AList.delete p (entries ?u))\<rparr>, Ok ())"
  assume run: "(case lookup ?u p of None \<Rightarrow> (?u, Err IoNotFound) | Some DirEntry \<Rightarrow> (?u, Err IoOther)
      | Some e \<Rightarrow> ?run e) = (t, r)"
  show thesis
  proof (cases "lookup s p")
    case None
    then show thesis using run fault by auto
  next
    case (Some e)
    show thesis
    proof (cases "e = DirEntry")
      case True
      then show thesis using run fault Some by auto
    next
      case False
      then have "?run e = (t, r)" using run Some False by (cases e) (auto split del: if_split)
      moreover have "p \<noteq> []" using Some False by auto
      moreover have "parent_is_dir ?u q \<longleftrightarrow> parent_is_dir s q" by (simp add: parent_is_dir_def)
      ultimately show thesis
        using fault ok Some False by (auto simp: parent_is_dir_def split: if_splits)
    qed
  qed
qed (use fault in auto)

text \<open>The tree stays well formed.\<close>

lemma tree_ok_child: "tree_ok s \<Longrightarrow> lookup s (p @ [n]) = Some e \<Longrightarrow> lookup s p = Some DirEntry"
  by (auto simp: tree_ok_def)

lemma tree_ok_inode: "tree_ok s \<Longrightarrow> lookup s p = Some (FileEntry i) \<Longrightarrow> i < next_inode s"
  by (auto simp: tree_ok_def)

lemma tree_ok_add:
  assumes ok: "tree_ok s" and parent: "parent_is_dir s p" and fresh: "lookup s p = None"
    and t: "lookup t = (lookup s)(p \<mapsto> e)" and cwd: "fs_cwd t = fs_cwd s"
    and n: "next_inode s \<le> next_inode t" and e: "\<And>i. e = FileEntry i \<Longrightarrow> i < next_inode t"
  shows "tree_ok t"
  unfolding tree_ok_def
proof (intro conjI allI impI)
  fix q n
  assume "lookup t (q @ [n]) \<noteq> None"
  then have "lookup s q = Some DirEntry"
    using t parent tree_ok_child [OF ok, of q n] by (auto simp: parent_is_dir_def split: if_splits)
  then show "lookup t q = Some DirEntry" using t fresh by auto
next
  have "lookup s (fs_cwd s) = Some DirEntry" using ok by (simp add: tree_ok_def)
  then show "lookup t (fs_cwd t) = Some DirEntry" using t cwd fresh by auto
next
  fix q i
  assume "lookup t q = Some (FileEntry i)"
  then show "i < next_inode t"
    using t e tree_ok_inode [OF ok, of q i] n by (auto split: if_splits)
qed

lemma tree_ok_remove:
  assumes ok: "tree_ok s" and p: "lookup s p = Some e" "e \<noteq> DirEntry"
    and t: "lookup t = (lookup s)(p := None)" and cwd: "fs_cwd t = fs_cwd s"
    and n: "next_inode t = next_inode s"
  shows "tree_ok t"
  unfolding tree_ok_def
proof (intro conjI allI impI)
  fix q n
  assume "lookup t (q @ [n]) \<noteq> None"
  then have "lookup s q = Some DirEntry"
    using t tree_ok_child [OF ok, of q n] by (auto split: if_splits)
  then show "lookup t q = Some DirEntry" using t p by auto
next
  have "lookup s (fs_cwd s) = Some DirEntry" using ok by (simp add: tree_ok_def)
  then show "lookup t (fs_cwd t) = Some DirEntry" using t cwd p by auto
next
  fix q i
  assume "lookup t q = Some (FileEntry i)"
  then show "i < next_inode t"
    using t tree_ok_inode [OF ok, of q i] n by (auto split: if_splits)
qed

text \<open>A rename is a removal and an addition, or a replacement of a file or a link.\<close>

lemma tree_ok_move:
  assumes ok: "tree_ok s" and p: "lookup s p = Some e" "e \<noteq> DirEntry"
    and q: "parent_is_dir s q" "lookup s q \<noteq> Some DirEntry"
    and t: "lookup t = (lookup s)(p := None, q \<mapsto> e)" and cwd: "fs_cwd t = fs_cwd s"
    and n: "next_inode t = next_inode s"
  shows "tree_ok t"
  unfolding tree_ok_def
proof (intro conjI allI impI)
  fix r n
  assume "lookup t (r @ [n]) \<noteq> None"
  then have "lookup s r = Some DirEntry"
    using t q tree_ok_child [OF ok, of r n] by (auto simp: parent_is_dir_def split: if_splits)
  then show "lookup t r = Some DirEntry" using t p q by auto
next
  have "lookup s (fs_cwd s) = Some DirEntry" using ok by (simp add: tree_ok_def)
  then show "lookup t (fs_cwd t) = Some DirEntry" using t cwd p q by auto
next
  fix r i
  assume "lookup t r = Some (FileEntry i)"
  then show "i < next_inode t"
    using t p tree_ok_inode [OF ok, of r i] tree_ok_inode [OF ok, of p i] n by (auto split: if_splits)
qed

end
