(* ===== verification/Local_Proofs.thy ===== *)
theory Local_Proofs
  imports Local_Store Filesystem_Laws
begin

text \<open>
  What the operations of the local store do to the tree: reading calls leave it alone, resolved
  locations are canonical and beneath the allowed root, and each step of a staged writer touches
  its own staging file and, when it publishes, its destination.
\<close>

section \<open>Quiet actions\<close>

lemma act_map_err_Ok: "act_map_err f m s = (t, Ok x) \<longleftrightarrow> m s = (t, Ok x)"
  by (cases "m s"; cases "snd (m s)") (auto simp: act_map_err_def)

lemma act_map_err_Err: "act_map_err f m s = (t, Err e) \<longleftrightarrow> (\<exists>k. m s = (t, Err k) \<and> e = f k)"
  by (cases "m s"; cases "snd (m s)") (auto simp: act_map_err_def)

named_theorems quiet_intros

text \<open>A quiet action changes nothing but the schedule of failures.\<close>

definition quiet :: "('z filesystem_scheme, 'e, 'a) action \<Rightarrow> bool" where
  "quiet m \<longleftrightarrow> (\<forall>s. \<exists>fl. fst (m s) = s\<lparr>fs_faults := fl\<rparr>)"

lemma quietD: "quiet m \<Longrightarrow> m s = (t, r) \<Longrightarrow> \<exists>fl. t = s\<lparr>fs_faults := fl\<rparr>"
  unfolding quiet_def by (metis fst_conv)

lemma quiet_query [quiet_intros]: "quiet (query f)"
  unfolding quiet_def
proof
  fix s
  show "\<exists>fl. fst (query f s) = s\<lparr>fs_faults := fl\<rparr>"
    by (rule query_cases [of f s, OF surjective_pairing]) blast+
qed

lemma faults_self: "\<exists>fl. s = s\<lparr>fs_faults := fl\<rparr>"
  by (rule exI [of _ "fs_faults s"]) simp

lemma quiet_simple [quiet_intros]: "quiet (act_ok x)" "quiet (act_err e)" "quiet (act_lift r)"
  by (simp_all add: quiet_def faults_self)

lemma quiet_map_err [quiet_intros]: "quiet m \<Longrightarrow> quiet (act_map_err f m)"
  by (simp add: quiet_def act_map_err_def split: prod.splits) (metis fst_conv)

lemma quiet_bind [quiet_intros]:
  assumes "quiet m" and "\<And>x. quiet (f x)"
  shows "quiet (act_bind m f)"
  unfolding quiet_def
proof
  fix s
  obtain fl where fl: "fst (m s) = s\<lparr>fs_faults := fl\<rparr>" using assms(1) by (auto simp: quiet_def)
  show "\<exists>fl. fst (act_bind m f s) = s\<lparr>fs_faults := fl\<rparr>"
  proof (cases "snd (m s)")
    case (Inl e)
    then have "m s = (s\<lparr>fs_faults := fl\<rparr>, Err e)" using fl by (metis prod.collapse)
    then show ?thesis by auto
  next
    case (Inr x)
    then have m: "m s = (s\<lparr>fs_faults := fl\<rparr>, Ok x)" using fl by (metis prod.collapse)
    obtain fl' where "fst (f x (s\<lparr>fs_faults := fl\<rparr>)) = (s\<lparr>fs_faults := fl\<rparr>)\<lparr>fs_faults := fl'\<rparr>"
      using assms(2) unfolding quiet_def by blast
    with m show ?thesis by auto
  qed
qed

lemma quiet_if [quiet_intros]: "quiet m \<Longrightarrow> quiet n \<Longrightarrow> quiet (if b then m else n)"
  by simp

lemma quiet_calls [quiet_intros]:
  "quiet fs_barrier" "quiet (fs_canonicalize cs)" "quiet (fs_metadata cs)"
  "quiet (fs_symlink_metadata p)" "quiet (fs_open p)" "quiet (fs_read i a b)" "quiet (fs_read_dir p)"
  by (simp_all add: fs_barrier_def fs_canonicalize_def fs_metadata_def fs_symlink_metadata_def
      fs_open_def fs_read_def fs_read_dir_def quiet_query)

lemma quiet_allowed [quiet_intros]: "quiet (canonical_allowed_root location p)"
  by (auto simp: canonical_allowed_root_def intro!: quiet_intros split: option.splits)

lemma quiet_enforce [quiet_intros]: "quiet (enforce_allowed_root location c p)"
  by (auto simp: enforce_allowed_root_def intro!: quiet_intros split: option.splits)

lemma quiet_resolve [quiet_intros]:
  "quiet (resolve_existing location p)" "quiet (resolve_destination location p)"
  by (auto simp: resolve_existing_def resolve_destination_def Let_def intro!: quiet_intros)

lemma quiet_metadata_for [quiet_intros]: "quiet (metadata_for path p)"
  by (auto simp: metadata_for_def intro!: quiet_intros)

lemma quiet_prepare [quiet_intros]: "quiet (prepare_publish w)"
  by (auto simp: prepare_publish_def intro!: quiet_intros split: sync_policy.splits)

lemma quiet_sync_parent [quiet_intros]: "quiet (sync_parent d)"
  by (auto simp: sync_parent_def intro!: quiet_intros)

section \<open>Confinement\<close>

definition canonical_root :: "object_location \<Rightarrow> 'z filesystem_scheme \<Rightarrow> string list \<Rightarrow> bool" where
  "canonical_root location s root \<longleftrightarrow>
     (\<exists>r. location_allowed_root location = Some r \<and> system_path r \<noteq> [] \<and>
        resolve_path (lookup s) max_links (fs_cwd s) (system_path r) = Ok root)"

lemma canonicalize_Ok:
  assumes "fs_canonicalize cs s = (t, Ok p)"
  shows "cs \<noteq> [] \<and> resolve_path (lookup s) max_links (fs_cwd s) cs = Ok p"
  using assms unfolding fs_canonicalize_def
  by (rule query_cases) (auto split: if_splits)

lemma enforce_allowed_root_Ok:
  assumes "enforce_allowed_root location c p s = (t, Ok ())"
    and "location_allowed_root location = Some r"
  shows "\<exists>root. canonical_root location s root \<and> is_prefix_of root c"
proof -
  have "act_bind (canonical_allowed_root location p) (\<lambda>root. case root of
       Some r \<Rightarrow>
         if \<not> is_prefix_of r c
         then act_err (failure_new PermissionDenied p
                ''object is outside the configured allowed root'')
         else act_ok ()
     | None \<Rightarrow> act_ok ()) s = (t, Ok ())"
    using assms(1) by (simp add: enforce_allowed_root_def)
  then obtain u x where c: "canonical_allowed_root location p s = (u, Ok x)"
    and x: "\<And>root. x = Some root \<Longrightarrow> is_prefix_of root c"
    by (rule act_bind_cases) (auto split: option.splits if_splits)
  from c obtain root where root: "x = Some root"
    "fs_canonicalize (system_path r) s = (u, Ok root)"
    using assms(2) unfolding canonical_allowed_root_def
    by (auto elim!: act_bind_cases simp: act_map_err_Ok)
  then show ?thesis
    using canonicalize_Ok [OF root(2)] assms(2) x by (auto simp: canonical_root_def)
qed

lemma canonical_root_faults [simp]:
  "canonical_root location (s\<lparr>fs_faults := fl\<rparr>) = canonical_root location s"
  by (simp add: canonical_root_def fun_eq_iff)

lemma resolve_existing_Ok:
  assumes ok: "tree_ok s" and "resolve_existing location p s = (t, Ok c)"
    and root: "location_allowed_root location = Some r"
  obtains root fl where "canonical_root location s root" "is_prefix_of root c"
    "canonical (lookup s) c" "t = s\<lparr>fs_faults := fl\<rparr>"
    "resolve_path (lookup s) max_links (fs_cwd s) (system_path (location_key location)) = Ok c"
proof -
  obtain u where c: "fs_canonicalize (system_path (location_key location)) s = (u, Ok c)"
    and e: "enforce_allowed_root location c p u = (t, Ok ())"
    using assms(2) unfolding resolve_existing_def
    by (auto elim!: act_bind_cases simp: act_map_err_Ok)
  obtain fl where u: "u = s\<lparr>fs_faults := fl\<rparr>" using quietD [OF quiet_calls(2) c] by blast
  obtain fl' where t: "t = s\<lparr>fs_faults := fl'\<rparr>"
    using quietD [OF quiet_resolve(1) assms(2)] by blast
  show ?thesis
    using enforce_allowed_root_Ok [OF e root] u t canonicalize_canonical [OF ok c] canonicalize_Ok [OF c]
    by (auto intro: that)
qed

section \<open>Staged writers\<close>

lemma lookup_counters [simp]:
  "lookup (s\<lparr>stage_sequence := k\<rparr>) = lookup s" "lookup (s\<lparr>active_writers := n\<rparr>) = lookup s"
  "lookup (s\<lparr>bytes_read := b\<rparr>) = lookup s"
  by (simp_all add: lookup_def fun_eq_iff)

text \<open>An open writer whose staging file holds \<open>content\<close>.\<close>

definition staged :: "local_writer \<Rightarrow> 'z local_world_scheme \<Rightarrow> nat \<Rightarrow> bytes \<Rightarrow> bool" where
  "staged w s h content \<longleftrightarrow>
     lw_active w \<and> lw_file w = Some h \<and> lw_stage_path w \<noteq> [] \<and> lw_destination w \<noteq> [] \<and>
     lw_stage_path w \<noteq> lw_destination w \<and>
     lookup s (lw_stage_path w) = Some (FileEntry h) \<and> file_bytes (inodes s h) = content"

lemma allocate_stage_spec:
  assumes "allocate_stage n parent file_name s = (t, r)"
  shows "(\<exists>fl k. t = s\<lparr>fs_faults := fl, stage_sequence := k\<rparr> \<and> isl r) \<or>
    (\<exists>fl k q. r = Ok (parent @ [stage_name (process_id s) file_name q], next_inode s) \<and>
       lookup s (parent @ [stage_name (process_id s) file_name q]) = None \<and>
       lookup s parent = Some DirEntry \<and>
       t = s\<lparr>fs_faults := fl, stage_sequence := k, active_writers := active_writers s + 1,
         entries := (parent @ [stage_name (process_id s) file_name q], FileEntry (next_inode s))
           # entries s,
         inodes := (inodes s)(next_inode s := \<lparr>file_bytes = [], file_modified = fs_clock s\<rparr>),
         next_inode := Suc (next_inode s)\<rparr>)"
  using assms
proof (induction n arbitrary: s)
  case 0
  then have "t = s" "isl r" by auto
  then have "t = s\<lparr>fs_faults := fs_faults s, stage_sequence := stage_sequence s\<rparr> \<and> isl r" by simp
  then show ?case by blast
next
  case (Suc n)
  let ?p = "parent @ [stage_name (process_id s) file_name (stage_sequence s)]"
  let ?s = "s\<lparr>stage_sequence := stage_sequence s + 1\<rparr>"
  obtain u q where c: "fs_create_new ?p ?s = (u, q)" by fastforce
  from c show ?case
  proof (cases rule: create_new_cases)
    case (fault fl k)
    show ?thesis
    proof (cases "k = IoAlreadyExists")
      case True
      then have "allocate_stage n parent file_name (?s\<lparr>fs_faults := fl\<rparr>) = (t, r)"
        using Suc.prems c fault by (simp add: Let_def)
      from Suc.IH [OF this] show ?thesis by simp
    next
      case False
      then have "t = s\<lparr>fs_faults := fl, stage_sequence := stage_sequence s + 1\<rparr> \<and> isl r"
        using Suc.prems c fault by (auto simp: Let_def)
      then show ?thesis by blast
    qed
  next
    case (ok fl)
    have "lookup s ?p = None" "lookup s parent = Some DirEntry"
      using ok(2,3) by (simp_all add: parent_is_dir_def)
    moreover have "r = Ok (?p, next_inode s)"
      "t = s\<lparr>fs_faults := fl, stage_sequence := stage_sequence s + 1,
         active_writers := active_writers s + 1,
         entries := (?p, FileEntry (next_inode s)) # entries s,
         inodes := (inodes s)(next_inode s := \<lparr>file_bytes = [], file_modified = fs_clock s\<rparr>),
         next_inode := Suc (next_inode s)\<rparr>"
      using Suc.prems c ok(1,4) by (auto simp: Let_def)
    ultimately show ?thesis by blast
  qed
qed

text \<open>While the 64-bit counter does not wrap, every staging name carries a fresh number.\<close>

lemma allocate_stage_sequence:
  assumes "allocate_stage n parent file_name s = (t, r)"
    and "unat (stage_sequence s) + n < 2 ^ 64"
  shows "stage_sequence s \<le> stage_sequence t \<and>
    (\<forall>p h. r = Ok (p, h) \<longrightarrow> (\<exists>q. p = parent @ [stage_name (process_id s) file_name q] \<and>
       stage_sequence s \<le> q \<and> q < stage_sequence t))"
  using assms
proof (induction n arbitrary: s)
  case (Suc n)
  let ?p = "parent @ [stage_name (process_id s) file_name (stage_sequence s)]"
  let ?s = "s\<lparr>stage_sequence := stage_sequence s + 1\<rparr>"
  have step: "unat (stage_sequence s + 1) = Suc (unat (stage_sequence s))"
    using Suc.prems(2) unat_add_u64 [of "stage_sequence s" 1] by simp
  then have less: "stage_sequence s < stage_sequence s + 1" by (simp add: word_less_nat_alt)
  obtain u q where c: "fs_create_new ?p ?s = (u, q)" by fastforce
  from c show ?case
  proof (cases rule: create_new_cases)
    case (fault fl k)
    show ?thesis
    proof (cases "k = IoAlreadyExists")
      case True
      then have "allocate_stage n parent file_name (?s\<lparr>fs_faults := fl\<rparr>) = (t, r)"
        using Suc.prems c fault by (simp add: Let_def)
      then have "stage_sequence s + 1 \<le> stage_sequence t \<and>
          (\<forall>p h. r = Ok (p, h) \<longrightarrow> (\<exists>q. p = parent @ [stage_name (process_id s) file_name q] \<and>
             stage_sequence s + 1 \<le> q \<and> q < stage_sequence t))"
        using Suc.IH [of "?s\<lparr>fs_faults := fl\<rparr>"] Suc.prems(2) step by simp
      moreover have "stage_sequence s \<le> q" if "stage_sequence s + 1 \<le> q" for q
        using less that by simp
      ultimately show ?thesis using less by fastforce
    next
      case False
      then show ?thesis using Suc.prems c fault less by (auto simp: Let_def)
    qed
  next
    case (ok fl)
    then show ?thesis using Suc.prems c less by (auto simp: Let_def)
  qed
qed auto

definition writer_ready :: "local_writer \<Rightarrow> bool" where
  "writer_ready w \<longleftrightarrow>
     \<not> cancelled_flag (lw_cancellation w) \<and> lw_active w \<and> lw_file w \<noteq> None"

lemma ensure_open_eq:
  "ensure_open w p = (if writer_ready w then Ok () else Err (failure_cancelled p))"
  by (simp add: ensure_open_def token_check_def writer_ready_def)

lemma writer_write_cases:
  assumes "writer_write bs (w, s) = ((w', s'), r)"
  obtains (closed) e where "w' = w" "s' = s" "r = Err e"
      "\<not> writer_ready w"
    | (written) h fl n where "w' = w" "writer_ready w" "lw_file w = Some h"
      "s' = append_bytes h (take n bs) (s\<lparr>fs_faults := fl\<rparr>)"
      "\<not> isl r \<longrightarrow> take n bs = bs \<and> r = Ok (vec_len bs)"
proof (cases "writer_ready w")
  case False
  then have "w' = w \<and> s' = s \<and> r = Err (failure_cancelled OpWriterWrite)"
    using assms by (auto simp: writer_write_def ensure_open_eq)
  with False show ?thesis using closed by auto
next
  case True
  then obtain h where h: "lw_file w = Some h" by (auto simp: writer_ready_def)
  have m: "write_file h (lw_flush w) bs s = (s', r)" and w': "w' = w"
    using assms True h by (auto simp: writer_write_def ensure_open_eq split: prod.splits)
  obtain u q where wa: "fs_write_all h bs s = (u, q)" by fastforce
  obtain fl n where u: "u = append_bytes h (take n bs) (s\<lparr>fs_faults := fl\<rparr>)"
      and n: "q = Ok () \<longrightarrow> take n bs = bs"
    by (rule write_all_cases [OF wa]) blast
  have after: "\<exists>fl'. s' = u\<lparr>fs_faults := fl'\<rparr> \<and>
      (\<not> isl r \<longrightarrow> q = Ok () \<and> r = Ok (vec_len bs))"
  proof (cases q)
    case (Inl k)
    then have "s' = u" "isl r"
      using m wa unfolding write_file_def by (auto simp: act_bind_def act_map_err_def)
    then show ?thesis using faults_self [of u] by auto
  next
    case (Inr x)
    let ?rest = "act_bind (if lw_flush w = FlushEachChunk then map_io OpWriterWrite fs_barrier
      else act_ok ()) (\<lambda>_. act_ok (vec_len bs))"
    have "map_io OpWriterWrite (fs_write_all h bs) s = (u, Ok ())"
      using wa Inr by (simp add: act_map_err_Ok)
    then have rest: "?rest u = (s', r)" using m by (simp add: write_file_def)
    have "quiet ?rest" by (intro quiet_intros)
    with rest obtain fl' where "s' = u\<lparr>fs_faults := fl'\<rparr>" using quietD by blast
    moreover have "r = Ok (vec_len bs)" if "\<not> isl r"
      using rest that by (auto elim!: act_bind_cases)
    ultimately show ?thesis using Inr by auto
  qed
  show ?thesis
    using after w' h True n u
    by (intro written [of h n "fs_faults s'"]) (auto simp: append_bytes_def)
qed

text \<open>The effect of an attempt to remove a file.\<close>

definition dropped :: "'z filesystem_scheme \<Rightarrow> string list \<Rightarrow> 'z filesystem_scheme \<Rightarrow> bool" where
  "dropped s p t \<longleftrightarrow>
     (\<exists>fl. t = s\<lparr>fs_faults := fl\<rparr>) \<or>
     (\<exists>fl e. lookup s p = Some e \<and> e \<noteq> DirEntry \<and> p \<noteq> [] \<and>
        t = s\<lparr>fs_faults := fl, entries := AList.delete p (entries s)\<rparr>)"

lemma remove_file_dropped:
  assumes "fs_remove_file p s = (t, r)"
  shows "dropped s p t"
  using assms by (rule remove_file_cases) (auto simp: dropped_def)

lemma dropped_faults: "dropped (s\<lparr>fs_faults := fl\<rparr>) p t \<longleftrightarrow> dropped s p t"
  by (simp add: dropped_def)

lemma dropped_tree:
  assumes "dropped s p t"
  shows "(lookup t = lookup s \<or> lookup t = (lookup s)(p := None)) \<and> inodes t = inodes s \<and>
    next_inode t = next_inode s \<and> fs_cwd t = fs_cwd s \<and> (tree_ok s \<longrightarrow> tree_ok t)"
  using assms unfolding dropped_def
proof
  assume "\<exists>fl e. lookup s p = Some e \<and> e \<noteq> DirEntry \<and> p \<noteq> [] \<and>
    t = s\<lparr>fs_faults := fl, entries := AList.delete p (entries s)\<rparr>"
  then obtain fl e where e: "lookup s p = Some e" "e \<noteq> DirEntry" "p \<noteq> []"
    and t: "t = s\<lparr>fs_faults := fl, entries := AList.delete p (entries s)\<rparr>"
    by blast
  then have l: "lookup t = (lookup s)(p := None)"
    using lookup_delete [of p "s\<lparr>fs_faults := fl\<rparr>"] by simp
  with t tree_ok_remove [OF _ e(1,2) l] show ?thesis by simp
qed auto

lemma dropped_local:
  assumes "dropped s p t"
  shows "active_writers t = active_writers s \<and> bytes_read t = bytes_read s \<and>
    stage_sequence t = stage_sequence s \<and> process_id t = process_id s"
  using assms by (auto simp: dropped_def)

lemma writer_finish_eq:
  "writer_finish (w, s) =
     (w\<lparr>lw_active := False\<rparr>,
      s\<lparr>active_writers := active_writers s - (if lw_active w then 1 else 0)\<rparr>)"
  by (simp add: writer_finish_def)

definition closed_writer :: "local_writer \<Rightarrow> local_writer" where
  "closed_writer w = w\<lparr>lw_file := None, lw_active := False\<rparr>"

lemma cleanup_stage_spec:
  assumes "cleanup_stage (w, s) = (w', s')" and "lw_active w"
  shows "w' = closed_writer w \<and>
    (\<exists>t. dropped s (lw_stage_path w) t \<and> s' = t\<lparr>active_writers := active_writers s - 1\<rparr>)"
proof -
  obtain t r where t: "fs_remove_file (lw_stage_path w) s = (t, r)" by fastforce
  note d = remove_file_dropped [OF t]
  have "w' = closed_writer w \<and> s' = t\<lparr>active_writers := active_writers s - 1\<rparr>"
    using assms t dropped_local [OF d] by (auto simp: cleanup_stage_def writer_finish_eq closed_writer_def)
  with d show ?thesis by blast
qed

lemma metadata_for_Ok:
  assumes "metadata_for p operation s = (t, Ok md)" and "tree_ok s"
    and "lookup s p = Some (FileEntry h)"
  shows "object_path md = path_string p \<and>
    object_size md = word_of_nat (length (file_bytes (inodes s h)))"
proof -
  obtain info where i: "fs_metadata (RootDir # map Normal p) s = (t, Ok info)"
    and md: "object_path md = path_string p" "object_size md = info_len info"
    using assms(1) unfolding metadata_for_def
    by (auto elim!: act_bind_cases simp: act_map_err_Ok split: if_splits)
  from i have "info = info_of s (FileEntry h)"
    unfolding fs_metadata_def
    by (rule query_cases) (use tree_resolve(1) [OF assms(2)] assms(3) in \<open>auto simp: info_of_def\<close>)
  with md show ?thesis by (simp add: info_of_def)
qed

text \<open>Every way a publication ends.\<close>

definition dir_sync_failure :: native_failure where
  "dir_sync_failure = failure_new NativeFailure OpWriterPublish ''destination directory sync failed''"

lemma writer_publish_cases:
  assumes pub: "writer_publish (w, s) = ((w', s'), r)"
  obtains (closed) "w' = w" "s' = s" "r = Err (failure_cancelled OpWriterPublish)" "\<not> writer_ready w"
    | (failed) t where "writer_ready w" "w' = closed_writer w" "dropped s (lw_stage_path w) t"
        "s' = t\<lparr>active_writers := active_writers s - 1\<rparr>" "isl r"
    | (renamed) fl e where "writer_ready w" "w' = closed_writer w"
        "lookup s (lw_stage_path w) = Some e" "e \<noteq> DirEntry"
        "lw_stage_path w \<noteq> []" "lw_destination w \<noteq> []"
        "lookup s (lw_destination w) \<noteq> Some DirEntry" "parent_is_dir s (lw_destination w)"
        "s' = s\<lparr>fs_faults := fl,
           entries := AList.update (lw_destination w) e (AList.delete (lw_stage_path w) (entries s)),
           active_writers := active_writers s - 1\<rparr>"
        "(\<exists>md u v. r = Ok (md\<lparr>object_path := path_string (lw_destination w)\<rparr>) \<and>
            metadata_for (lw_stage_path w) OpWriterPublish (s\<lparr>fs_faults := u\<rparr>) = (v, Ok md)) \<or>
         (lw_sync w = SyncAll \<and> r = Err dir_sync_failure)"
proof (cases "writer_ready w")
  case False
  then show ?thesis using pub closed by (auto simp: writer_publish_def ensure_open_eq)
next
  case ready: True
  then have active: "lw_active w" by (simp add: writer_ready_def)
  have fail: thesis if c: "cleanup_stage (w, s\<lparr>fs_faults := fl\<rparr>) = (w', s')" "isl r" for fl
    using cleanup_stage_spec [OF c(1) active] c(2) failed ready by (auto simp: dropped_faults)
  have fail': thesis
    if c: "cleanup_stage (w\<lparr>lw_file := None\<rparr>, s\<lparr>fs_faults := fl\<rparr>) = (w', s')" "isl r" for fl
    using cleanup_stage_spec [OF c(1)] active c(2) failed ready
    by (auto simp: dropped_faults closed_writer_def)
  obtain s1 r1 where p1: "prepare_publish w s = (s1, r1)" by fastforce
  obtain fl1 where s1: "s1 = s\<lparr>fs_faults := fl1\<rparr>" using quietD [OF quiet_prepare p1] by blast
  show ?thesis
  proof (cases r1)
    case (Inl e)
    then show ?thesis
      using pub ready p1 s1 fail by (auto simp: writer_publish_def ensure_open_eq)
  next
    case r1: (Inr x)
    obtain s2 r2 where p2: "metadata_for (lw_stage_path w) OpWriterPublish s1 = (s2, r2)" by fastforce
    obtain fl2 where s2: "s2 = s\<lparr>fs_faults := fl2\<rparr>"
      using quietD [OF quiet_metadata_for p2] s1 by auto
    show ?thesis
    proof (cases r2)
      case (Inl e)
      then show ?thesis
        using pub ready p1 r1 p2 s2 fail by (auto simp: writer_publish_def ensure_open_eq)
    next
      case r2: (Inr md)
      obtain s3 r3 where p3: "fs_rename (lw_stage_path w) (lw_destination w) s2 = (s3, r3)" by fastforce
      from p3 show ?thesis
      proof (cases rule: rename_cases)
        case (fault fl k)
        then show ?thesis
          using pub ready p1 r1 p2 r2 p3 s2 fail'
          by (auto simp: writer_publish_def ensure_open_eq replace_file_def Let_def)
      next
        case (ok fl e)
        obtain s4 r4 where p4: "(if lw_sync w = SyncAll then sync_parent (lw_destination w) s3
            else (s3, Ok ())) = (s4, r4)" by fastforce
        then have p4': "(if lw_sync w = SyncAll then sync_parent (lw_destination (w\<lparr>lw_file := None\<rparr>)) s3
            else (s3, Ok ())) = (s4, r4)"
          by (cases "lw_sync w = SyncAll") simp_all
        have "\<exists>fl. s4 = s3\<lparr>fs_faults := fl\<rparr>"
          using p4 quietD [OF quiet_sync_parent] faults_self [of s3] by (auto split: if_splits)
        then obtain fl4 where "s4 = s3\<lparr>fs_faults := fl4\<rparr>" by blast
        then have s4: "s4 = s\<lparr>fs_faults := fl4,
            entries := AList.update (lw_destination w) e (AList.delete (lw_stage_path w) (entries s))\<rparr>"
          using ok(8) s2 by simp
        have res: "w' = closed_writer w \<and> s' = s4\<lparr>active_writers := active_writers s4 - 1\<rparr> \<and>
            r = (case r4 of Inl _ \<Rightarrow> Err dir_sync_failure
                 | Inr _ \<Rightarrow> Ok (md\<lparr>object_path := path_string (lw_destination w)\<rparr>))"
          using pub ready active p1 r1 p2 r2 p3 ok(1) p4'
          by (auto simp: writer_publish_def ensure_open_eq replace_file_def Let_def writer_finish_eq
              closed_writer_def dir_sync_failure_def split: sum.splits prod.splits)
        have "isl r4 \<Longrightarrow> lw_sync w = SyncAll" using p4 by (auto split: if_splits)
        then show ?thesis
          using ready res s4 s1 p2 r2 ok s2
          by (intro renamed [of e fl4]) (auto simp: parent_is_dir_def split: sum.splits)
      qed
    qed
  qed
qed

lemma writer_abort_cases:
  assumes "writer_abort (w, s) = ((w', s'), r)"
  obtains (inactive) "\<not> lw_active w" "w' = w" "s' = s" "r = Ok False"
    | (aborted) t where "lw_active w" "dropped s (lw_stage_path w) t"
        "w' = (closed_writer w)\<lparr>lw_cancellation := token_cancel (lw_cancellation w)\<rparr>"
        "s' = t\<lparr>active_writers := active_writers s - 1\<rparr>" "r \<noteq> Ok False"
proof (cases "lw_active w")
  case False
  then have "((w', s'), r) = ((w, s), Ok False)" using assms by (simp add: writer_abort_def)
  with False inactive show ?thesis by simp
next
  case True
  obtain t q where t: "fs_remove_file (lw_stage_path w) s = (t, q)" by fastforce
  note d = remove_file_dropped [OF t]
  have "w' = (closed_writer w)\<lparr>lw_cancellation := token_cancel (lw_cancellation w)\<rparr> \<and>
      s' = t\<lparr>active_writers := active_writers s - 1\<rparr> \<and> r \<noteq> Ok False"
    using assms t True dropped_local [OF d]
    by (auto simp: writer_abort_def writer_finish_eq closed_writer_def Let_def split: sum.splits if_splits)
  then show ?thesis by (intro aborted [OF True d]) simp_all
qed

lemma writer_drop_cases:
  assumes "writer_drop (w, s) = (w', s')"
  obtains (inactive) "\<not> lw_active w" "w' = w" "s' = s"
    | (dropped) t where "lw_active w" "dropped s (lw_stage_path w) t"
        "w' = (closed_writer w)\<lparr>lw_cancellation := token_cancel (lw_cancellation w)\<rparr>"
        "s' = t\<lparr>active_writers := active_writers s - 1\<rparr>"
proof (cases "lw_active w")
  case False
  then have "(w', s') = (w, s)" using assms by (simp add: writer_drop_def)
  with False inactive show ?thesis by simp
next
  case True
  then have c: "cleanup_stage (w\<lparr>lw_cancellation := token_cancel (lw_cancellation w)\<rparr>, s) = (w', s')"
    using assms by (simp add: writer_drop_def)
  from cleanup_stage_spec [OF c] True show ?thesis
    using local.dropped by (auto simp: closed_writer_def)
qed

section \<open>Calm actions\<close>

text \<open>A reading operation changes nothing but the schedule of failures and the read counter.\<close>

definition calm :: "('z local_world_scheme, 'e, 'a) action \<Rightarrow> bool" where
  "calm m \<longleftrightarrow> (\<forall>s. \<exists>fl b. fst (m s) = s\<lparr>fs_faults := fl, bytes_read := b\<rparr>)"

lemma calmD: "calm m \<Longrightarrow> m s = (t, r) \<Longrightarrow> \<exists>fl b. t = s\<lparr>fs_faults := fl, bytes_read := b\<rparr>"
  unfolding calm_def by (metis fst_conv)

lemma quiet_calm:
  fixes m :: "('z local_world_scheme, 'e, 'a) action"
  assumes "quiet m"
  shows "calm m"
  unfolding calm_def
proof
  fix s :: "'z local_world_scheme"
  obtain fl where "fst (m s) = s\<lparr>fs_faults := fl\<rparr>" using assms unfolding quiet_def by blast
  then have "fst (m s) = s\<lparr>fs_faults := fl, bytes_read := bytes_read s\<rparr>" by simp
  then show "\<exists>fl b. fst (m s) = s\<lparr>fs_faults := fl, bytes_read := b\<rparr>" by blast
qed

lemma calm_bind:
  assumes "calm m" and "\<And>x. calm (f x)"
  shows "calm (act_bind m f)"
  unfolding calm_def
proof
  fix s
  obtain fl b where fl: "fst (m s) = s\<lparr>fs_faults := fl, bytes_read := b\<rparr>"
    using assms(1) unfolding calm_def by blast
  show "\<exists>fl b. fst (act_bind m f s) = s\<lparr>fs_faults := fl, bytes_read := b\<rparr>"
  proof (cases "snd (m s)")
    case (Inl e)
    then have "m s = (s\<lparr>fs_faults := fl, bytes_read := b\<rparr>, Err e)" using fl by (metis prod.collapse)
    then show ?thesis by auto
  next
    case (Inr x)
    then have m: "m s = (s\<lparr>fs_faults := fl, bytes_read := b\<rparr>, Ok x)" using fl by (metis prod.collapse)
    obtain fl' b' where "fst (f x (s\<lparr>fs_faults := fl, bytes_read := b\<rparr>)) =
        (s\<lparr>fs_faults := fl, bytes_read := b\<rparr>)\<lparr>fs_faults := fl', bytes_read := b'\<rparr>"
      using assms(2) unfolding calm_def by blast
    with m have "fst (act_bind m f s) = s\<lparr>fs_faults := fl', bytes_read := b'\<rparr>" by simp
    then show ?thesis by blast
  qed
qed

lemma calm_read_range: "calm (local_read_range location requested token)"
proof -
  have count: "calm (count_bytes_read bs)" for bs
    unfolding calm_def
  proof
    fix s :: "'z local_world_scheme"
    have "fst (count_bytes_read bs s) =
        s\<lparr>fs_faults := fs_faults s, bytes_read := bytes_read s + vec_len bs\<rparr>"
      by (simp add: count_bytes_read_def)
    then show "\<exists>fl b. fst (count_bytes_read bs s) = s\<lparr>fs_faults := fl, bytes_read := b\<rparr>" by blast
  qed
  show ?thesis
    unfolding local_read_range_def Let_def
    by (intro calm_bind count) (auto intro!: calm_bind count quiet_calm [OF quiet_map_err]
        quiet_calm [OF quiet_simple(1)] quiet_calm [OF quiet_simple(2)] quiet_calm [OF quiet_simple(3)]
        quiet_simple quiet_calls quiet_resolve split: entry.splits
        intro: quiet_calm quiet_resolve)
qed

lemma quiet_path_is_dir [quiet_intros]: "quiet (path_is_dir cs)"
  unfolding quiet_def
proof
  fix s :: "'z local_world_scheme"
  obtain t r where m: "fs_metadata cs s = (t, r)" by fastforce
  then have "fst (path_is_dir cs s) = t" by (simp add: path_is_dir_def)
  then show "\<exists>fl. fst (path_is_dir cs s) = s\<lparr>fs_faults := fl\<rparr>"
    using quietD [OF quiet_calls(3) m] by simp
qed

lemma quiet_visit:
  "quiet (visit_directory depth directory root allowed prefix token
     :: ('z local_world_scheme, native_failure, object_metadata list) action)"
  "quiet (visit_entries depth directory root allowed prefix token names
     :: ('z local_world_scheme, native_failure, object_metadata list) action)"
proof (induction depth directory root allowed prefix token
    and depth directory root allowed prefix token names
    rule: visit_directory_visit_entries.induct)
  case (1 directory root allowed prefix token)
  show ?case unfolding visit_directory.simps by (intro quiet_intros)
next
  case (2 depth directory root allowed prefix token)
  show ?case unfolding visit_directory.simps by (intro quiet_intros 2)
next
  case (3 depth directory root allowed prefix token)
  show ?case unfolding visit_entries.simps by (intro quiet_intros)
next
  case (4 depth directory root allowed prefix token name names)
  then show ?case
    by (auto intro!: quiet_intros split: file_kind.splits option.splits)
qed

lemma quiet_head: "quiet (local_head location token)"
  by (auto simp: local_head_def intro!: quiet_intros)

lemma quiet_list: "quiet (local_list location prefix token)"
proof -
  have "quiet (\<lambda>s. visit_directory (Suc (length (entries s))) root root allowed prefix token s)"
    for root allowed
    using quiet_visit(1) unfolding quiet_def by blast
  then show ?thesis
    unfolding local_list_def by (intro quiet_intros)
qed

section \<open>Staging names\<close>

lemma append_last_separator:
  assumes "xs @ c # as @ t = ys @ c # bs @ t" and "c \<notin> set as" and "c \<notin> set bs"
  shows "as = bs"
proof -
  have "xs @ c # as = ys @ c # bs" using assms(1) by (metis append.assoc append_Cons append_same_eq)
  then have "rev as @ c # rev xs = rev bs @ c # rev ys"
    by (metis append.assoc append_Cons append_Nil rev.simps(2) rev_append)
  then have "takeWhile (\<lambda>x. x \<noteq> c) (rev as @ c # rev xs) = takeWhile (\<lambda>x. x \<noteq> c) (rev bs @ c # rev ys)"
    by simp
  then have "rev as = rev bs" using assms(2,3)
    by (auto simp: takeWhile_append split: if_splits)
  then show ?thesis by simp
qed

lemma stage_name_inj:
  assumes "stage_name pid f q = stage_name pid g r"
  shows "q = r"
proof -
  have no_dash: "CHR ''-'' \<notin> set (nat_to_string n)" for n by (rule nat_to_string_avoids) simp
  have "(''.'' @ f @ ''.parquex-'' @ nat_to_string pid) @ CHR ''-'' # nat_to_string (unat q) @ ''.tmp'' =
      (''.'' @ g @ ''.parquex-'' @ nat_to_string pid) @ CHR ''-'' # nat_to_string (unat r) @ ''.tmp''"
    using assms by (simp add: stage_name_def)
  from append_last_separator [OF this no_dash no_dash]
  have "nat_to_string (unat q) = nat_to_string (unat r)" .
  then have "Some (unat q) = Some (unat r)" by (metis parse_digits_nat_to_string)
  then show ?thesis by (simp add: unsigned_word_eqI)
qed

end
