(* ===== verification/Local_System.thy ===== *)
theory Local_System
  imports Local_Proofs
begin

text \<open>
  All staged writers of a process over one file system: every operation of the local store as
  a step, on any writer and in any order, under every schedule of failures. The invariant says
  that no two writers share a file, that a writer's file is visible at its staging path only,
  and that the global counter is the number of active writers.
\<close>

section \<open>Steps\<close>

record 'z local_system =
  sys_world :: "'z local_world_scheme"
  sys_writers :: "local_writer list"

definition set_writer ::
  "'z local_system \<Rightarrow> nat \<Rightarrow> local_writer \<times> 'z local_world_scheme \<Rightarrow> 'z local_system" where
  "set_writer v i ws = \<lparr>sys_world = snd ws, sys_writers = (sys_writers v)[i := fst ws]\<rparr>"

text \<open>
  \<open>cancel_writer\<close> is the cancellation of the token by the owner's death, \<open>make_dir\<close> the creation
  of a parent directory by the store. The staging counter is taken not to wrap: a process that
  opened a writer every nanosecond would need five centuries.
\<close>

inductive local_step :: "'z local_system \<Rightarrow> 'z local_system \<Rightarrow> bool" where
  stage_ok: "local_stage location options token_default (sys_world v) = (s, Ok w) \<Longrightarrow>
     unat (stage_sequence (sys_world v)) + 64 < 2 ^ 64 \<Longrightarrow>
     local_step v \<lparr>sys_world = s, sys_writers = sys_writers v @ [w]\<rparr>"
| stage_failed: "local_stage location options token_default (sys_world v) = (s, Err e) \<Longrightarrow>
     unat (stage_sequence (sys_world v)) + 64 < 2 ^ 64 \<Longrightarrow>
     local_step v (v\<lparr>sys_world := s\<rparr>)"
| write_step: "i < length (sys_writers v) \<Longrightarrow>
     writer_write bs (sys_writers v ! i, sys_world v) = (ws, r) \<Longrightarrow> local_step v (set_writer v i ws)"
| publish_step: "i < length (sys_writers v) \<Longrightarrow>
     writer_publish (sys_writers v ! i, sys_world v) = (ws, r) \<Longrightarrow> local_step v (set_writer v i ws)"
| abort_step: "i < length (sys_writers v) \<Longrightarrow>
     writer_abort (sys_writers v ! i, sys_world v) = (ws, r) \<Longrightarrow> local_step v (set_writer v i ws)"
| drop_writer: "i < length (sys_writers v) \<Longrightarrow>
     writer_drop (sys_writers v ! i, sys_world v) = ws \<Longrightarrow> local_step v (set_writer v i ws)"
| cancel_writer: "i < length (sys_writers v) \<Longrightarrow> w = sys_writers v ! i \<Longrightarrow>
     local_step v (set_writer v i
       (w\<lparr>lw_cancellation := token_cancel (lw_cancellation w)\<rparr>, sys_world v))"
| head_step: "local_head location token (sys_world v) = (s, md) \<Longrightarrow> local_step v (v\<lparr>sys_world := s\<rparr>)"
| read_range: "local_read_range location requested token (sys_world v) = (s, bs) \<Longrightarrow>
     local_step v (v\<lparr>sys_world := s\<rparr>)"
| list_objects: "local_list location prefix token (sys_world v) = (s, mds) \<Longrightarrow>
     local_step v (v\<lparr>sys_world := s\<rparr>)"
| delete_step: "local_delete location token (sys_world v) = (s, u) \<Longrightarrow> local_step v (v\<lparr>sys_world := s\<rparr>)"
| make_dir: "fs_create_dir p (sys_world v) = (s, k) \<Longrightarrow> local_step v (v\<lparr>sys_world := s\<rparr>)"

definition local_init :: "'z local_system \<Rightarrow> bool" where
  "local_init v \<longleftrightarrow>
     sys_writers v = [] \<and> tree_ok (sys_world v) \<and> active_writers (sys_world v) = 0"

definition local_reachable :: "'z local_system \<Rightarrow> bool" where
  "local_reachable v \<longleftrightarrow> (\<exists>u. local_init u \<and> local_step\<^sup>*\<^sup>* u v)"

section \<open>The invariant\<close>

text \<open>The number of active writers of the process.\<close>

definition active_count :: "local_writer list \<Rightarrow> nat" where
  "active_count ws = sum_list (map (\<lambda>w. if lw_active w then 1 else 0) ws)"

text \<open>
  The inode of a writer is its own: only its staging path may name it. Active writers have
  different inodes and different staging paths, numbered below the counter.
\<close>

definition owns :: "'z local_world_scheme \<Rightarrow> local_writer \<Rightarrow> bool" where
  "owns s w \<longleftrightarrow>
     (lw_active w \<longleftrightarrow> lw_file w \<noteq> None) \<and>
     (\<forall>h. lw_file w = Some h \<longrightarrow> h < next_inode s \<and>
        (\<forall>p. lookup s p = Some (FileEntry h) \<longrightarrow> p = lw_stage_path w))"

definition numbered :: "'z local_world_scheme \<Rightarrow> local_writer \<Rightarrow> bool" where
  "numbered s w \<longleftrightarrow>
     (\<exists>d f q. lw_stage_path w = d @ [stage_name (process_id s) f q] \<and> q < stage_sequence s)"

definition apart :: "local_writer \<Rightarrow> local_writer \<Rightarrow> bool" where
  "apart w x \<longleftrightarrow> lw_file w \<noteq> lw_file x \<and> lw_stage_path w \<noteq> lw_stage_path x"

definition writers_ok :: "'z local_world_scheme \<Rightarrow> local_writer list \<Rightarrow> bool" where
  "writers_ok s ws \<longleftrightarrow>
     (\<forall>w \<in> set ws. owns s w \<and> (lw_active w \<longrightarrow> numbered s w)) \<and>
     (\<forall>i j. i < length ws \<longrightarrow> j < length ws \<longrightarrow> i \<noteq> j \<longrightarrow> lw_active (ws ! i) \<longrightarrow>
        lw_active (ws ! j) \<longrightarrow> apart (ws ! i) (ws ! j))"

definition sys_inv :: "'z local_system \<Rightarrow> bool" where
  "sys_inv v \<longleftrightarrow>
     tree_ok (sys_world v) \<and> writers_ok (sys_world v) (sys_writers v) \<and>
     active_writers (sys_world v) = word_of_nat (active_count (sys_writers v))"

lemma active_count_update:
  assumes "i < length ws"
  shows "active_count (ws[i := w]) + (if lw_active (ws ! i) then 1 else 0) =
    active_count ws + (if lw_active w then 1 else 0)"
  unfolding active_count_def by (rule sum_list_update_nat [OF assms])

text \<open>A step on one writer that ends it, or keeps its file and its staging path.\<close>

definition continues :: "local_writer \<Rightarrow> local_writer \<Rightarrow> bool" where
  "continues w x \<longleftrightarrow>
     (if lw_active x
      then lw_active w \<and> lw_file x = lw_file w \<and> lw_stage_path x = lw_stage_path w
      else lw_file x = None)"

lemma writers_ok_update:
  assumes ok: "writers_ok s ws" and i: "i < length ws" and c: "continues (ws ! i) w"
    and self: "owns t (ws ! i) \<or> \<not> lw_active w"
    and others: "\<And>j. j < length ws \<Longrightarrow> j \<noteq> i \<Longrightarrow> owns t (ws ! j)"
    and same: "process_id t = process_id s" "stage_sequence s \<le> stage_sequence t"
  shows "writers_ok t (ws[i := w])"
proof -
  have num: "numbered t x" if "numbered s x" for x
    using that same by (fastforce simp: numbered_def)
  have "owns t (ws[i := w] ! j) \<and> (lw_active (ws[i := w] ! j) \<longrightarrow> numbered t (ws[i := w] ! j))"
    if j: "j < length ws" for j
  proof (cases "j = i")
    case True
    have "owns t w" using c self by (auto simp: continues_def owns_def split: if_splits)
    moreover have "numbered t w" if "lw_active w"
    proof -
      have "lw_active (ws ! i)" and st: "lw_stage_path w = lw_stage_path (ws ! i)"
        using c that by (auto simp: continues_def)
      then have "numbered t (ws ! i)" using ok i num by (auto simp: writers_ok_def)
      with st show ?thesis by (simp add: numbered_def)
    qed
    ultimately show ?thesis using True i by simp
  next
    case False
    then show ?thesis using ok j others num by (auto simp: writers_ok_def)
  qed
  moreover have "apart (ws[i := w] ! j) (ws[i := w] ! k)"
    if jk: "j < length ws" "k < length ws" "j \<noteq> k"
      and act: "lw_active (ws[i := w] ! j)" "lw_active (ws[i := w] ! k)" for j k
  proof -
    have "lw_active (ws ! l) \<and> lw_file (ws[i := w] ! l) = lw_file (ws ! l) \<and>
        lw_stage_path (ws[i := w] ! l) = lw_stage_path (ws ! l)"
      if "l < length ws" "lw_active (ws[i := w] ! l)" for l
      using that c i by (cases "l = i") (auto simp: continues_def)
    then show ?thesis using ok jk act by (auto simp: writers_ok_def apart_def)
  qed
  ultimately show ?thesis by (auto simp: writers_ok_def in_set_conv_nth)
qed

lemma sys_inv_update:
  assumes inv: "sys_inv v" and i: "i < length (sys_writers v)"
    and tree: "tree_ok s" and ok: "writers_ok s ((sys_writers v)[i := w])"
    and count: "active_writers s = active_writers (sys_world v)
      - (if lw_active (sys_writers v ! i) then 1 else 0) + (if lw_active w then 1 else 0)"
  shows "sys_inv (set_writer v i (w, s))"
proof -
  let ?d = "(if lw_active (sys_writers v ! i) then 1 else 0) :: nat"
  have "(word_of_nat (active_count ((sys_writers v)[i := w]) + ?d) :: usize) =
      word_of_nat (active_count (sys_writers v) + (if lw_active w then 1 else 0))"
    by (simp only: active_count_update [OF i])
  then have "word_of_nat (active_count ((sys_writers v)[i := w])) + word_of_nat ?d =
      active_writers s + (word_of_nat ?d :: usize)"
    using inv count by (simp add: sys_inv_def)
  then have "active_writers s = word_of_nat (active_count ((sys_writers v)[i := w]))"
    by (metis add_right_cancel)
  with tree ok show ?thesis by (simp add: sys_inv_def set_writer_def)
qed

section \<open>Every step keeps it\<close>

text \<open>Files may disappear from the tree or stay, under the same counters.\<close>

definition tree_shrinks :: "'z local_world_scheme \<Rightarrow> 'z local_world_scheme \<Rightarrow> bool" where
  "tree_shrinks s t \<longleftrightarrow>
     next_inode t = next_inode s \<and> process_id t = process_id s \<and>
     stage_sequence s \<le> stage_sequence t \<and>
     (\<forall>p h. lookup t p = Some (FileEntry h) \<longrightarrow> lookup s p = Some (FileEntry h))"

lemma owns_shrinks: "owns s w \<Longrightarrow> tree_shrinks s t \<Longrightarrow> owns t w"
  by (auto simp: owns_def tree_shrinks_def)

lemma dropped_shrinks:
  assumes "dropped s p t"
  shows "tree_shrinks s t" "tree_ok s \<Longrightarrow> tree_ok t" "active_writers t = active_writers s"
  using dropped_tree [OF assms] dropped_local [OF assms]
  by (auto simp: tree_shrinks_def split: if_splits)

lemma writers_ok_shrinks:
  assumes "writers_ok s ws" and "tree_shrinks s t"
  shows "writers_ok t ws"
proof -
  have "numbered t x" if "numbered s x" for x
    using that assms(2) by (fastforce simp: numbered_def tree_shrinks_def)
  with assms owns_shrinks show ?thesis unfolding writers_ok_def by blast
qed

lemma sys_inv_world:
  assumes "sys_inv v" and "tree_shrinks (sys_world v) s" and "tree_ok s"
    and "active_writers s = active_writers (sys_world v)"
  shows "sys_inv (v\<lparr>sys_world := s\<rparr>)"
  using assms writers_ok_shrinks by (auto simp: sys_inv_def)

lemma sys_inv_calm:
  assumes "sys_inv v" and "calm m" and "m (sys_world v) = (s, r)"
  shows "sys_inv (v\<lparr>sys_world := s\<rparr>)"
proof -
  obtain fl b where s: "s = (sys_world v)\<lparr>fs_faults := fl, bytes_read := b\<rparr>"
    using calmD [OF assms(2,3)] by blast
  show ?thesis
    by (rule sys_inv_world [OF assms(1)])
      (use assms(1) s in \<open>simp_all add: tree_shrinks_def sys_inv_def tree_ok_def\<close>)
qed

text \<open>A writer that ends while its staging path is dropped.\<close>

lemma sys_inv_dropped:
  assumes inv: "sys_inv v" and i: "i < length (sys_writers v)"
    and d: "dropped (sys_world v) (lw_stage_path (sys_writers v ! i)) t"
    and act: "lw_active (sys_writers v ! i)" and w: "\<not> lw_active w" "lw_file w = None"
  shows "sys_inv (set_writer v i (w, t\<lparr>active_writers := active_writers (sys_world v) - 1\<rparr>))"
proof (rule sys_inv_update [OF inv i])
  let ?s = "t\<lparr>active_writers := active_writers (sys_world v) - 1\<rparr>"
  show "tree_ok ?s" using dropped_shrinks(2) [OF d] inv by (simp add: sys_inv_def tree_ok_def)
  have "tree_shrinks (sys_world v) ?s" using dropped_shrinks(1) [OF d] by (simp add: tree_shrinks_def)
  then have o: "owns ?s x" if "owns (sys_world v) x" for x using that owns_shrinks by blast
  show "writers_ok ?s ((sys_writers v)[i := w])"
    using inv i o w dropped_local [OF d]
    by (intro writers_ok_update [of "sys_world v"])
      (auto simp: sys_inv_def writers_ok_def continues_def)
qed (use act w in simp)

lemma closed_writer_fields [simp]:
  "\<not> lw_active (closed_writer w)" "lw_file (closed_writer w) = None"
  "lw_stage_path (closed_writer w) = lw_stage_path w" "lw_destination (closed_writer w) = lw_destination w"
  by (simp_all add: closed_writer_def)

lemma set_writer_same: "set_writer v i (sys_writers v ! i, sys_world v) = v"
  by (simp add: set_writer_def)

lemma sys_inv_publish:
  assumes inv: "sys_inv v" and i: "i < length (sys_writers v)"
    and pub: "writer_publish (sys_writers v ! i, sys_world v) = ((w', s'), r)"
  shows "sys_inv (set_writer v i (w', s'))"
  using pub
proof (cases rule: writer_publish_cases)
  case closed
  then show ?thesis using inv by (simp add: set_writer_same)
next
  case (failed t)
  then show ?thesis
    using sys_inv_dropped [OF inv i failed(3)] by (simp add: writer_ready_def)
next
  case (renamed fl e)
  let ?w = "sys_writers v ! i" and ?s = "sys_world v"
  have tree: "tree_ok ?s" using inv by (simp add: sys_inv_def)
  have l: "lookup s' = (lookup ?s)(lw_stage_path ?w := None, lw_destination ?w \<mapsto> e)"
    using renamed(9) lookup_move [OF renamed(5,6), of e "?s\<lparr>fs_faults := fl\<rparr>"] by simp
  have act: "lw_active ?w" using renamed(1) by (simp add: writer_ready_def)
  show ?thesis
  proof (rule sys_inv_update [OF inv i])
    show "tree_ok s'"
      using tree_ok_move [OF tree renamed(3,4,8,7) l] renamed(9) by simp
    have "owns s' (sys_writers v ! j)" if j: "j < length (sys_writers v)" "j \<noteq> i" for j
    proof -
      let ?x = "sys_writers v ! j"
      have x: "owns ?s ?x" using inv j by (simp add: sys_inv_def writers_ok_def)
      have "p = lw_stage_path ?x" if h: "lw_file ?x = Some h" "lookup s' p = Some (FileEntry h)" for h p
      proof -
        have "lw_active ?x" using x h(1) by (auto simp: owns_def)
        then have "apart ?x ?w" using inv i j act by (simp add: sys_inv_def writers_ok_def)
        then have "e \<noteq> FileEntry h" using renamed(3) x h(1) by (auto simp: owns_def apart_def)
        then have "lookup ?s p = Some (FileEntry h)" using h(2) l by (auto split: if_splits)
        then show ?thesis using x h(1) by (auto simp: owns_def)
      qed
      then show ?thesis using x renamed(9) by (auto simp: owns_def)
    qed
    then show "writers_ok s' ((sys_writers v)[i := w'])"
      using inv i renamed(2,9)
      by (intro writers_ok_update [of ?s]) (auto simp: sys_inv_def continues_def)
  qed (use act renamed(2,9) in simp)
qed

lemma sys_inv_write:
  assumes inv: "sys_inv v" and i: "i < length (sys_writers v)"
    and wr: "writer_write bs (sys_writers v ! i, sys_world v) = ((w', s'), r)"
  shows "sys_inv (set_writer v i (w', s'))"
  using wr
proof (cases rule: writer_write_cases)
  case closed
  then show ?thesis using inv by (simp add: set_writer_same)
next
  case (written h fl n)
  then have v': "set_writer v i (w', s') = v\<lparr>sys_world := s'\<rparr>" by (simp add: set_writer_def)
  show ?thesis
    unfolding v'
    by (rule sys_inv_world [OF inv])
      (use written(4) inv in \<open>simp_all add: tree_shrinks_def sys_inv_def append_bytes_def tree_ok_def\<close>)
qed

lemma sys_inv_abort:
  assumes inv: "sys_inv v" and i: "i < length (sys_writers v)"
    and ab: "writer_abort (sys_writers v ! i, sys_world v) = ((w', s'), r)"
  shows "sys_inv (set_writer v i (w', s'))"
  using ab
proof (cases rule: writer_abort_cases)
  case inactive
  then show ?thesis using inv by (simp add: set_writer_same)
next
  case (aborted t)
  then show ?thesis using sys_inv_dropped [OF inv i aborted(2,1)] by simp
qed

lemma sys_inv_drop:
  assumes inv: "sys_inv v" and i: "i < length (sys_writers v)"
    and dr: "writer_drop (sys_writers v ! i, sys_world v) = (w', s')"
  shows "sys_inv (set_writer v i (w', s'))"
  using dr
proof (cases rule: writer_drop_cases)
  case inactive
  then show ?thesis using inv by (simp add: set_writer_same)
next
  case (dropped t)
  then show ?thesis using sys_inv_dropped [OF inv i dropped(2,1)] by simp
qed

text \<open>Opening: what a successful \<^verbatim>\<open>stage\<close> built.\<close>

lemma local_stage_Ok:
  assumes "local_stage location options token s = (t, Ok w)"
    and "unat (stage_sequence s) + 64 < 2 ^ 64"
  obtains fl d f q where
    "lw_stage_path w = d @ [stage_name (process_id s) f q]"
    "lw_destination w = d @ [f]"
    "stage_sequence s \<le> q" "q < stage_sequence t" "lookup s (lw_stage_path w) = None"
    "lookup s d = Some DirEntry" "lw_file w = Some (next_inode s)" "lw_active w"
    "lw_cancellation w = token" "lw_flush w = option_flush options" "lw_sync w = option_sync options"
    "t = s\<lparr>fs_faults := fl, stage_sequence := stage_sequence t, active_writers := active_writers s + 1,
       entries := (lw_stage_path w, FileEntry (next_inode s)) # entries s,
       inodes := (inodes s)(next_inode s := \<lparr>file_bytes = [], file_modified = fs_clock s\<rparr>),
       next_inode := Suc (next_inode s)\<rparr>"
proof -
  from assms(1) obtain u dest where u: "resolve_destination location OpWriterOpen s = (u, Ok dest)"
    and w: "writer_open dest options token u = (t, Ok w)"
    unfolding local_stage_def by (rule act_bind_cases) auto
  obtain fl where fl: "u = s\<lparr>fs_faults := fl\<rparr>" using quietD [OF quiet_resolve(2) u] by blast
  have dest: "dest \<noteq> []" using w by (auto simp: writer_open_def)
  then obtain p h where al: "allocate_stage 64 (butlast dest) (last dest) u = (t, Ok (p, h))"
    and w': "w = \<lparr>lw_file = Some h, lw_stage_path = p, lw_destination = dest,
       lw_flush = option_flush options, lw_sync = option_sync options,
       lw_cancellation = token, lw_active = True\<rparr>"
    using w by (auto simp: writer_open_def elim!: act_bind_cases)
  obtain q where q: "p = butlast dest @ [stage_name (process_id s) (last dest) q]"
      "stage_sequence s \<le> q" "q < stage_sequence t"
    using allocate_stage_sequence [OF al] assms(2) fl by auto
  obtain fl' where sh: "h = next_inode s" "lookup s p = None" "lookup s (butlast dest) = Some DirEntry"
    "t = s\<lparr>fs_faults := fl', stage_sequence := stage_sequence t, active_writers := active_writers s + 1,
       entries := (p, FileEntry (next_inode s)) # entries s,
       inodes := (inodes s)(next_inode s := \<lparr>file_bytes = [], file_modified = fs_clock s\<rparr>),
       next_inode := Suc (next_inode s)\<rparr>"
    using allocate_stage_spec [OF al] fl by auto
  show ?thesis
    by (rule that [of "butlast dest" "last dest" q fl']) (use w' q sh dest in simp_all)
qed

lemma sys_inv_stage:
  assumes inv: "sys_inv v" and st: "local_stage location options token_default (sys_world v) = (s, Ok w)"
    and seq: "unat (stage_sequence (sys_world v)) + 64 < 2 ^ 64"
  shows "sys_inv \<lparr>sys_world = s, sys_writers = sys_writers v @ [w]\<rparr>"
proof -
  let ?s = "sys_world v"
  obtain fl d f q where p: "lw_stage_path w = d @ [stage_name (process_id ?s) f q]"
    and q: "stage_sequence ?s \<le> q" "q < stage_sequence s" and free: "lookup ?s (lw_stage_path w) = None"
    and dir: "lookup ?s d = Some DirEntry" and h: "lw_file w = Some (next_inode ?s)" "lw_active w"
    and t: "s = ?s\<lparr>fs_faults := fl, stage_sequence := stage_sequence s,
       active_writers := active_writers ?s + 1,
       entries := (lw_stage_path w, FileEntry (next_inode ?s)) # entries ?s,
       inodes := (inodes ?s)(next_inode ?s := \<lparr>file_bytes = [], file_modified = fs_clock ?s\<rparr>),
       next_inode := Suc (next_inode ?s)\<rparr>"
    by (rule local_stage_Ok [OF st seq]) blast
  have fields: "next_inode s = Suc (next_inode ?s)" "process_id s = process_id ?s"
    "active_writers s = active_writers ?s + 1" "fs_cwd s = fs_cwd ?s"
    by (subst t, simp)+
  have l: "lookup s = (lookup ?s)(lw_stage_path w \<mapsto> FileEntry (next_inode ?s))"
  proof -
    have "entries s = (lw_stage_path w, FileEntry (next_inode ?s)) # entries ?s" by (subst t) simp
    then show ?thesis by (auto simp: lookup_def fun_eq_iff p)
  qed
  have tree: "tree_ok ?s" using inv by (simp add: sys_inv_def)
  have tree': "tree_ok s"
    by (rule tree_ok_add [OF tree _ free l]) (use p dir fields in \<open>auto simp: parent_is_dir_def\<close>)
  have old: "owns s x \<and> (lw_active x \<longrightarrow> numbered s x \<and> apart x w)"
    if x: "x \<in> set (sys_writers v)" for x
  proof -
    have o: "owns ?s x" and n: "lw_active x \<longrightarrow> numbered ?s x"
      using inv x by (auto simp: sys_inv_def writers_ok_def)
    have "owns s x" using o l fields(1) by (auto simp: owns_def split: if_splits)
    moreover have "numbered s x \<and> apart x w" if act: "lw_active x"
    proof -
      obtain d' f' q' where nx: "lw_stage_path x = d' @ [stage_name (process_id ?s) f' q']"
        "q' < stage_sequence ?s" using n act by (auto simp: numbered_def)
      have "numbered s x"
        unfolding numbered_def using nx q fields(2)
        by (intro exI [of _ d'] exI [of _ f'] exI [of _ q']) auto
      moreover have "lw_stage_path x \<noteq> lw_stage_path w"
        using nx p q stage_name_inj [of "process_id ?s" f' q' f q] by auto
      moreover have "lw_file x \<noteq> lw_file w" using o h by (auto simp: owns_def)
      ultimately show ?thesis by (simp add: apart_def)
    qed
    ultimately show ?thesis by blast
  qed
  have "owns s w" using h l fields(1) tree_ok_inode [OF tree] by (auto simp: owns_def split: if_splits)
  moreover have "numbered s w" using p q fields by (auto simp: numbered_def)
  moreover have "apart (sys_writers v ! j) w \<and> apart w (sys_writers v ! j)"
    if "j < length (sys_writers v)" "lw_active (sys_writers v ! j)" for j
    using old [OF nth_mem [OF that(1)]] that(2) by (auto simp: apart_def)
  ultimately have "writers_ok s (sys_writers v @ [w])"
    using old inv unfolding writers_ok_def sys_inv_def
    by (auto simp: nth_append less_Suc_eq split: if_splits)
  then show ?thesis
    using tree' fields inv h by (simp add: sys_inv_def active_count_def)
qed

lemma stage_failed_shape:
  assumes "local_stage location options token s = (t, Err e)"
  obtains fl k where "t = s\<lparr>fs_faults := fl, stage_sequence := k\<rparr>"
    "unat (stage_sequence s) + 64 < 2 ^ 64 \<Longrightarrow> stage_sequence s \<le> k"
proof -
  note result = that
  have self: thesis if "t = s\<lparr>fs_faults := fl\<rparr>" for fl
    by (rule result [where fl = fl and k = "stage_sequence s"]) (use that in simp_all)
  from assms show thesis
    unfolding local_stage_def
  proof (rule act_bind_cases)
    fix e'
    assume "resolve_destination location OpWriterOpen s = (t, Err e')"
    then show thesis using quietD [OF quiet_resolve(2)] self by blast
  next
    fix u dest
    assume u: "resolve_destination location OpWriterOpen s = (u, Ok dest)"
      and w: "writer_open dest options token u = (t, Err e)"
    obtain fl where fl: "u = s\<lparr>fs_faults := fl\<rparr>" using quietD [OF quiet_resolve(2) u] by blast
    show thesis
    proof (cases "dest = []")
      case True
      then have "t = s\<lparr>fs_faults := fl\<rparr>" using w fl by (auto simp: writer_open_def)
      then show thesis by (rule self)
    next
      case False
      then obtain e' where al: "allocate_stage 64 (butlast dest) (last dest) u = (t, Err e')"
        using w by (auto simp: writer_open_def elim!: act_bind_cases)
      obtain fl' k where t: "t = s\<lparr>fs_faults := fl', stage_sequence := k\<rparr>"
        using allocate_stage_spec [OF al] fl by auto
      then show thesis using allocate_stage_sequence [OF al] fl by (intro that [OF t]) simp
    qed
  qed
qed

lemma stage_failed_shrinks:
  assumes "local_stage location options token s = (t, Err e)"
    and "unat (stage_sequence s) + 64 < 2 ^ 64"
  shows "tree_shrinks s t \<and> (tree_ok s \<longrightarrow> tree_ok t) \<and> active_writers t = active_writers s"
  by (rule stage_failed_shape [OF assms(1)])
    (use assms(2) in \<open>simp add: tree_shrinks_def tree_ok_def\<close>)

lemma delete_dropped:
  assumes "local_delete location token s = (t, r)"
  obtains p where "dropped s p t"
proof -
  have "\<exists>p. dropped s p t"
  proof (cases "token_check token OpDelete")
    case (Inl e)
    then have "t = s\<lparr>fs_faults := fs_faults s\<rparr>" using assms by (auto simp: local_delete_def)
    then show ?thesis unfolding dropped_def by blast
  next
    case (Inr u)
    then have "act_bind (resolve_existing location OpDelete)
        (\<lambda>path. map_io OpDelete (fs_remove_file path)) s = (t, r)"
      using assms by (simp add: local_delete_def)
    then show ?thesis
    proof (rule act_bind_cases)
      fix e
      assume "resolve_existing location OpDelete s = (t, Err e)"
      then show ?thesis using quietD [OF quiet_resolve(1)] unfolding dropped_def by blast
    next
      fix v path
      assume v: "resolve_existing location OpDelete s = (v, Ok path)"
        and rm: "map_io OpDelete (fs_remove_file path) v = (t, r)"
      obtain fl where fl: "v = s\<lparr>fs_faults := fl\<rparr>" using quietD [OF quiet_resolve(1) v] by blast
      obtain q where "fs_remove_file path v = (t, q)" using rm by (auto simp: act_map_err_iff)
      from remove_file_dropped [OF this] show ?thesis using fl by (auto simp: dropped_faults)
    qed
  qed
  then show ?thesis using that by blast
qed

lemma sys_inv_step:
  assumes "local_step v w" and inv: "sys_inv v"
  shows "sys_inv w"
  using assms(1)
proof cases
  case (stage_ok location options s x)
  then show ?thesis using sys_inv_stage [OF inv] by simp
next
  case (stage_failed location options s e)
  show ?thesis
    unfolding stage_failed(1)
    by (rule sys_inv_world [OF inv])
      (use stage_failed_shrinks [OF stage_failed(2,3)] inv in \<open>auto simp: sys_inv_def\<close>)
next
  case (write_step i bs ws r)
  then show ?thesis using sys_inv_write [OF inv write_step(2)] by (cases ws) simp
next
  case (publish_step i ws r)
  then show ?thesis using sys_inv_publish [OF inv publish_step(2)] by (cases ws) simp
next
  case (abort_step i ws r)
  then show ?thesis using sys_inv_abort [OF inv abort_step(2)] by (cases ws) simp
next
  case (drop_writer i ws)
  then show ?thesis using sys_inv_drop [OF inv drop_writer(2)] by (cases ws) simp
next
  case (cancel_writer i x)
  have wok: "writers_ok (sys_world v) (sys_writers v)" using inv by (simp add: sys_inv_def)
  show ?thesis
    unfolding cancel_writer(1)
  proof (rule sys_inv_update [OF inv cancel_writer(2)])
    have own: "owns (sys_world v) (sys_writers v ! j)" if "j < length (sys_writers v)" for j
      using wok that by (simp add: writers_ok_def)
    have "continues x (x\<lparr>lw_cancellation := token_cancel (lw_cancellation x)\<rparr>)"
      using own [OF cancel_writer(2)] cancel_writer(3) by (simp add: continues_def owns_def)
    then show "writers_ok (sys_world v)
        ((sys_writers v)[i := x\<lparr>lw_cancellation := token_cancel (lw_cancellation x)\<rparr>])"
      using own cancel_writer(2,3) by (intro writers_ok_update [OF wok]) simp_all
  qed (use inv cancel_writer in \<open>simp_all add: sys_inv_def\<close>)
next
  case (head_step location token s md)
  then show ?thesis using sys_inv_calm [OF inv quiet_calm [OF quiet_head]] by simp
next
  case (read_range location requested token s bs)
  then show ?thesis using sys_inv_calm [OF inv calm_read_range] by simp
next
  case (list_objects location prefix token s mds)
  then show ?thesis using sys_inv_calm [OF inv quiet_calm [OF quiet_list]] by simp
next
  case (delete_step location token s u)
  obtain p where d: "dropped (sys_world v) p s" by (rule delete_dropped [OF delete_step(2)])
  show ?thesis
    unfolding delete_step(1)
    by (rule sys_inv_world [OF inv]) (use dropped_shrinks [OF d] inv in \<open>auto simp: sys_inv_def\<close>)
next
  case (make_dir p s k)
  from make_dir(2) show ?thesis
  proof (cases rule: create_dir_cases)
    case (fault fl e)
    show ?thesis
      unfolding make_dir(1)
      by (rule sys_inv_world [OF inv]) (use fault inv in \<open>auto simp: sys_inv_def tree_shrinks_def\<close>)
  next
    case (ok fl)
    have l: "lookup s = (lookup (sys_world v))(p \<mapsto> DirEntry)"
      using ok(3,4) by (auto simp: lookup_def fun_eq_iff parent_is_dir_def)
    have "tree_ok s"
      by (rule tree_ok_add [OF _ ok(3,2) l]) (use inv ok(4) in \<open>simp_all add: sys_inv_def\<close>)
    then show ?thesis
      unfolding make_dir(1)
      by (intro sys_inv_world [OF inv])
        (use l ok(4) in \<open>auto simp: tree_shrinks_def split: if_splits\<close>)
  qed
qed

lemma sys_inv_reachable:
  assumes "local_reachable v"
  shows "sys_inv v"
proof -
  obtain u where u: "local_init u" "local_step\<^sup>*\<^sup>* u v" using assms by (auto simp: local_reachable_def)
  from u(2) show ?thesis
  proof (induction rule: rtranclp_induct)
    case base
    then show ?case
      using u(1) by (simp add: local_init_def sys_inv_def writers_ok_def active_count_def)
  next
    case (step v w)
    show ?case by (rule sys_inv_step [OF step(2,3)])
  qed
qed

end
