(* ===== verification/Local_Properties.thy ===== *)
theory Local_Properties
  imports Local_System
begin

text \<open>
  What the local store promises: objects become visible whole or not at all, a publication is
  atomic under every failure of the system, what was published is read back, and nothing outside
  the allowed root is read or deleted.
\<close>

section \<open>Visibility\<close>

definition staging_path :: "'z local_system \<Rightarrow> string list \<Rightarrow> bool" where
  "staging_path v p \<longleftrightarrow> (\<exists>w \<in> set (sys_writers v). lw_active w \<and> lw_stage_path w = p)"

text \<open>What a step may do to the file at a path: nothing, removal, or whole replacement.\<close>

definition whole_change :: "'z local_system \<Rightarrow> 'z local_system \<Rightarrow> string list \<Rightarrow> bool" where
  "whole_change v w p \<longleftrightarrow>
     file_at (sys_world w) p = file_at (sys_world v) p \<or>
     file_at (sys_world w) p = None \<or>
     (\<exists>x \<in> set (sys_writers v). lw_active x \<and> lw_destination x = p \<and>
        file_at (sys_world w) p = file_at (sys_world v) (lw_stage_path x))"

lemma file_at_same:
  "lookup t p = lookup s q \<Longrightarrow> inodes t = inodes s \<Longrightarrow> file_at t p = file_at s q"
  by (simp add: file_at_def split: option.splits entry.splits)

lemma file_at_None: "lookup t p = None \<Longrightarrow> file_at t p = None"
  by (simp add: file_at_def)

lemma dropped_whole:
  assumes "dropped (sys_world v) q t"
    and "lookup (sys_world w) = lookup t" "inodes (sys_world w) = inodes t"
  shows "whole_change v w p"
proof -
  have "lookup t p = lookup (sys_world v) p \<or> lookup t p = None" and "inodes t = inodes (sys_world v)"
    using dropped_tree [OF assms(1)] by (auto split: if_splits)
  then show ?thesis
    using assms(2,3) file_at_same [of "sys_world w" p "sys_world v" p] file_at_None [of "sys_world w" p]
    by (auto simp: whole_change_def)
qed

lemma calm_whole:
  assumes "calm m" and "m (sys_world v) = (s, r)"
  shows "whole_change v (v\<lparr>sys_world := s\<rparr>) p"
proof -
  obtain fl b where s: "s = (sys_world v)\<lparr>fs_faults := fl, bytes_read := b\<rparr>"
    using calmD [OF assms] by blast
  then have "file_at s p = file_at (sys_world v) p" by (intro file_at_same) simp_all
  then show ?thesis by (simp add: whole_change_def)
qed

lemma set_writer_world [simp]: "sys_world (set_writer v i (w, s)) = s"
  by (simp add: set_writer_def)

lemma publish_whole:
  assumes i: "i < length (sys_writers v)"
    and pub: "writer_publish (sys_writers v ! i, sys_world v) = ((w', s'), r)"
  shows "whole_change v (set_writer v i (w', s')) p"
  using pub
proof (cases rule: writer_publish_cases)
  case closed
  then show ?thesis by (simp add: whole_change_def)
next
  case (failed t)
  then show ?thesis by (intro dropped_whole [OF failed(3)]) (simp_all add: failed(4))
next
  case (renamed fl e)
  let ?w = "sys_writers v ! i" and ?s = "sys_world v"
  have l: "lookup s' = (lookup ?s)(lw_stage_path ?w := None, lw_destination ?w \<mapsto> e)"
    using renamed(9) lookup_move [OF renamed(5,6), of e "?s\<lparr>fs_faults := fl\<rparr>"] by simp
  have n: "inodes s' = inodes ?s" using renamed(9) by simp
  have mem: "?w \<in> set (sys_writers v)" and act: "lw_active ?w"
    using i renamed(1) by (simp_all add: writer_ready_def)
  consider "p = lw_destination ?w" | "p \<noteq> lw_destination ?w" "p = lw_stage_path ?w"
    | "p \<noteq> lw_destination ?w" "p \<noteq> lw_stage_path ?w" by blast
  then show ?thesis
  proof cases
    case 1
    then have "file_at s' p = file_at ?s (lw_stage_path ?w)"
      using l n renamed(3) by (intro file_at_same) simp_all
    with 1 mem act show ?thesis by (auto simp: whole_change_def)
  next
    case 2
    then show ?thesis using l file_at_None [of s' p] by (simp add: whole_change_def)
  next
    case 3
    then have "file_at s' p = file_at ?s p" using l n by (intro file_at_same) simp_all
    then show ?thesis by (simp add: whole_change_def)
  qed
qed

lemma write_whole:
  assumes inv: "sys_inv v" and i: "i < length (sys_writers v)"
    and wr: "writer_write bs (sys_writers v ! i, sys_world v) = ((w', s'), r)"
    and p: "\<not> staging_path v p"
  shows "whole_change v (set_writer v i (w', s')) p"
  using wr
proof (cases rule: writer_write_cases)
  case closed
  then show ?thesis by (simp add: whole_change_def)
next
  case (written h fl n)
  have "owns (sys_world v) (sys_writers v ! i)" using inv i by (simp add: sys_inv_def writers_ok_def)
  then have "lookup (sys_world v) p \<noteq> Some (FileEntry h)"
    using p i written(2,3) by (auto simp: owns_def staging_path_def writer_ready_def)
  then have "file_at s' p = file_at (sys_world v) p"
    using written(4) by (auto simp: file_at_def split: option.splits entry.splits)
  then show ?thesis by (simp add: whole_change_def)
qed

text \<open>C8: no torn objects: whatever operations run, in any order, on any number of writers and
  with any failures, a step changes the file at a path that is not a staging file only by
  leaving it, removing it, or replacing it as a whole by the staging file of a writer whose
  destination it is.\<close>

theorem local_no_torn_objects:
  assumes "local_reachable v" and "local_step v w"
    and "\<not> staging_path v p" and "\<not> staging_path w p"
  shows "whole_change v w p"
proof -
  note inv = sys_inv_reachable [OF assms(1)]
  from assms(2) show ?thesis
  proof cases
    case (stage_ok location options s x)
    obtain fl d f q where st: "lw_file x = Some (next_inode (sys_world v))" "lw_active x"
      "lw_stage_path x = d @ [stage_name (process_id (sys_world v)) f q]"
      and s: "s = (sys_world v)\<lparr>fs_faults := fl, stage_sequence := stage_sequence s,
        active_writers := active_writers (sys_world v) + 1,
        entries := (lw_stage_path x, FileEntry (next_inode (sys_world v))) # entries (sys_world v),
        inodes := (inodes (sys_world v))(next_inode (sys_world v) :=
          \<lparr>file_bytes = [], file_modified = fs_clock (sys_world v)\<rparr>),
        next_inode := Suc (next_inode (sys_world v))\<rparr>"
      by (rule local_stage_Ok [OF stage_ok(2,3)]) blast
    have ne: "p \<noteq> lw_stage_path x" using assms(4) stage_ok(1) st(2) by (auto simp: staging_path_def)
    have e: "entries s = (lw_stage_path x, FileEntry (next_inode (sys_world v))) # entries (sys_world v)"
      and n: "inodes s = (inodes (sys_world v))(next_inode (sys_world v) :=
          \<lparr>file_bytes = [], file_modified = fs_clock (sys_world v)\<rparr>)"
      by (subst s, simp)+
    have l: "lookup s p = lookup (sys_world v) p" using e ne by (simp add: lookup_def)
    have "file_at s p = file_at (sys_world v) p"
      using l n inv tree_ok_inode [of "sys_world v" p]
      by (auto simp: file_at_def sys_inv_def split: option.splits entry.splits)
    then show ?thesis using stage_ok(1) by (simp add: whole_change_def)
  next
    case (stage_failed location options s e)
    obtain fl k where "s = (sys_world v)\<lparr>fs_faults := fl, stage_sequence := k\<rparr>"
      by (rule stage_failed_shape [OF stage_failed(2)])
    then have "file_at s p = file_at (sys_world v) p" by (intro file_at_same) simp_all
    then show ?thesis using stage_failed(1) by (simp add: whole_change_def)
  next
    case (write_step i bs ws r)
    then show ?thesis using write_whole [OF inv write_step(2) _ assms(3)] by (cases ws) simp
  next
    case (publish_step i ws r)
    then show ?thesis using publish_whole [OF publish_step(2)] by (cases ws) simp
  next
    case (abort_step i ws r)
    then show ?thesis
    proof (cases ws)
      case (Pair w' s')
      with abort_step(3) have "writer_abort (sys_writers v ! i, sys_world v) = ((w', s'), r)" by simp
      then show ?thesis
      proof (cases rule: writer_abort_cases)
        case (aborted t)
        show ?thesis by (rule dropped_whole [OF aborted(2)]) (use abort_step(1) Pair aborted(4) in simp_all)
      qed (use abort_step(1) Pair in \<open>simp add: whole_change_def\<close>)
    qed
  next
    case (drop_writer i ws)
    then show ?thesis
    proof (cases ws)
      case (Pair w' s')
      with drop_writer(3) have "writer_drop (sys_writers v ! i, sys_world v) = (w', s')" by simp
      then show ?thesis
      proof (cases rule: writer_drop_cases)
        case (dropped t)
        show ?thesis by (rule dropped_whole [OF dropped(2)]) (use drop_writer(1) Pair dropped(4) in simp_all)
      qed (use drop_writer(1) Pair in \<open>simp add: whole_change_def\<close>)
    qed
  next
    case (cancel_writer i x)
    then show ?thesis by (simp add: whole_change_def)
  next
    case (head_step location token s md)
    then show ?thesis using calm_whole [OF quiet_calm [OF quiet_head]] by simp
  next
    case (read_range location requested token s bs)
    then show ?thesis using calm_whole [OF calm_read_range] by simp
  next
    case (list_objects location prefix token s mds)
    then show ?thesis using calm_whole [OF quiet_calm [OF quiet_list]] by simp
  next
    case (delete_step location token s u)
    obtain q where d: "dropped (sys_world v) q s" by (rule delete_dropped [OF delete_step(2)])
    show ?thesis unfolding delete_step(1) by (rule dropped_whole [OF d]) simp_all
  next
    case (make_dir q s k)
    from make_dir(2) have "file_at s p = file_at (sys_world v) p"
    proof (cases rule: create_dir_cases)
      case (ok fl)
      then have "lookup s = (lookup (sys_world v))(q \<mapsto> DirEntry)"
        by (auto simp: lookup_def fun_eq_iff parent_is_dir_def)
      with ok show ?thesis by (auto simp: file_at_def split: option.splits entry.splits)
    qed simp
    then show ?thesis using make_dir(1) by (simp add: whole_change_def)
  qed
qed

section \<open>Publication\<close>

lemma staged_publish:
  assumes st: "staged w s h content" and tree: "tree_ok s"
    and pub: "writer_publish (w, s) = ((w', s'), r)" and ready: "writer_ready w"
  shows "w' = closed_writer w \<and> active_writers s' = active_writers s - 1 \<and> tree_ok s' \<and>
    (\<forall>p. p \<noteq> lw_destination w \<longrightarrow> p \<noteq> lw_stage_path w \<longrightarrow> file_at s' p = file_at s p) \<and>
    (case r of
       Inr md \<Rightarrow> file_at s' (lw_destination w) = Some content \<and> lookup s' (lw_stage_path w) = None \<and>
         object_path md = path_string (lw_destination w) \<and>
         object_size md = word_of_nat (length content)
     | Inl e \<Rightarrow>
         file_at s' (lw_destination w) = file_at s (lw_destination w) \<or>
         (lw_sync w = SyncAll \<and> e = dir_sync_failure \<and>
            file_at s' (lw_destination w) = Some content))"
  using pub
proof (cases rule: writer_publish_cases)
  case closed
  then show ?thesis using ready by simp
next
  case (failed t)
  have "lookup t p = lookup s p" if "p \<noteq> lw_stage_path w" for p
    using dropped_tree [OF failed(3)] that by auto
  moreover have "inodes t = inodes s" "tree_ok t" using dropped_tree [OF failed(3)] tree by auto
  ultimately have same: "file_at s' p = file_at s p" if "p \<noteq> lw_stage_path w" for p
    using failed(4) that by (intro file_at_same) simp_all
  have "tree_ok s'" using \<open>tree_ok t\<close> failed(4) by (simp add: tree_ok_def)
  moreover obtain e where "r = Err e" using failed(5) by (cases r) auto
  ultimately show ?thesis
    using same same [of "lw_destination w"] st failed(2,4) by (auto simp: staged_def)
next
  case (renamed fl e)
  have e: "e = FileEntry h" using renamed(3) st by (simp add: staged_def)
  have ne: "lw_stage_path w \<noteq> lw_destination w" using st by (simp add: staged_def)
  have le: "lookup s' = (lookup s)(lw_stage_path w := None, lw_destination w \<mapsto> e)"
    using renamed(9) lookup_move [OF renamed(5,6), of e "s\<lparr>fs_faults := fl\<rparr>"] by simp
  note l = le [unfolded e]
  have n: "inodes s' = inodes s" using renamed(9) by simp
  have dest: "file_at s' (lw_destination w) = Some content"
    using l n st by (simp add: file_at_def staged_def)
  have stage: "lookup s' (lw_stage_path w) = None" using l ne by simp
  have rest: "file_at s' p = file_at s p" if "p \<noteq> lw_destination w" "p \<noteq> lw_stage_path w" for p
    using l n that by (intro file_at_same) simp_all
  have tree': "tree_ok s'"
    by (rule tree_ok_move [OF tree renamed(3,4,8,7) le]) (simp_all add: renamed(9))
  have size: "object_size md = word_of_nat (length content)"
    if "metadata_for (lw_stage_path w) OpWriterPublish (s\<lparr>fs_faults := u\<rparr>) = (v, Ok md)" for u v md
    using metadata_for_Ok [OF that] tree st by (simp add: staged_def)
  show ?thesis
    using renamed(2,9,10) dest stage rest tree' size by (auto split: sum.splits)
qed

text \<open>C7: a publication is atomic under every failure of the system: it ends the writer and lowers
  the count by one; on success the destination holds exactly the staged bytes, the staging file
  is gone and the reported size is theirs; on failure the destination is as before, except that
  a failing synchronisation of the directory is reported after the bytes are in place. No other
  path changes.\<close>

theorem local_publish_atomic:
  assumes "staged w s h content" and "tree_ok s" and "writer_ready w"
    and "writer_publish (w, s) = ((w', s'), r)"
  shows "w' = closed_writer w \<and> active_writers s' = active_writers s - 1 \<and>
    (\<forall>p. p \<noteq> lw_destination w \<longrightarrow> p \<noteq> lw_stage_path w \<longrightarrow> file_at s' p = file_at s p) \<and>
    (case r of
       Inr md \<Rightarrow> file_at s' (lw_destination w) = Some content \<and> lookup s' (lw_stage_path w) = None \<and>
         object_path md = path_string (lw_destination w) \<and>
         object_size md = word_of_nat (length content)
     | Inl e \<Rightarrow>
         file_at s' (lw_destination w) = file_at s (lw_destination w) \<or>
         (lw_sync w = SyncAll \<and> e = dir_sync_failure \<and>
            file_at s' (lw_destination w) = Some content))"
  using staged_publish [OF assms(1,2,4,3)] by blast

section \<open>Without failures\<close>

fun write_chunks :: "bytes list \<Rightarrow> ('z writer_world, native_failure, unit) action" where
  "write_chunks [] = act_ok ()"
| "write_chunks (b # bs) = act_bind (writer_write b) (\<lambda>_. write_chunks bs)"

lemma barrier_ok [simp]: "fs_faults s = [] \<Longrightarrow> fs_barrier s = (s, Ok ())"
  by (simp add: fs_barrier_def query_no_fault)

lemma map_io_ok [simp]: "m s = (t, Ok x) \<Longrightarrow> act_map_err f m s = (t, Ok x)"
  by (simp add: act_map_err_def)

lemma staged_append:
  "staged w s h content \<Longrightarrow> staged w (append_bytes h bs s) h (content @ bs)"
  by (simp add: staged_def)

lemma write_ok:
  assumes "staged w s h content" and "fs_faults s = []" and "writer_ready w"
  shows "writer_write bs (w, s) = ((w, append_bytes h bs s), Ok (vec_len bs))"
  using assms
  by (simp add: writer_write_def ensure_open_eq staged_def write_file_def fs_write_all_def
      take_fault_def act_map_err_def act_bind_def)

lemma write_chunks_ok:
  assumes "staged w s h content" and "fs_faults s = []" and "writer_ready w"
  shows "\<exists>t. write_chunks bss (w, s) = ((w, t), Ok ()) \<and> staged w t h (content @ concat bss) \<and>
    fs_faults t = [] \<and> lookup t = lookup s \<and> next_inode t = next_inode s \<and>
    fs_cwd t = fs_cwd s \<and> active_writers t = active_writers s \<and>
    (\<forall>i. i \<noteq> h \<longrightarrow> inodes t i = inodes s i)"
  using assms
proof (induction bss arbitrary: s content)
  case (Cons b bss)
  let ?t = "append_bytes h b s"
  have "active_writers ?t = active_writers s" by (simp add: append_bytes_def)
  with Cons.IH [OF staged_append [OF Cons.prems(1)], of b] Cons.prems write_ok [OF Cons.prems, of b]
  show ?case by simp
qed simp

lemma prepare_ok:
  assumes "fs_faults s = []" and "lw_file w \<noteq> None"
  shows "prepare_publish w s = (s, Ok ())"
  using assms by (auto simp: prepare_publish_def split: sync_policy.splits)

lemma metadata_ok:
  assumes "fs_faults s = []" and "tree_ok s" and "lookup s p = Some (FileEntry h)"
  shows "\<exists>md. metadata_for p operation s = (s, Ok md)"
proof -
  have "fs_metadata (RootDir # map Normal p) s = (s, Ok (info_of s (FileEntry h)))"
    using assms tree_resolve(1) [OF assms(2)] by (simp add: fs_metadata_def query_no_fault)
  then show ?thesis by (simp add: metadata_for_def info_of_def)
qed

lemma rename_ok:
  assumes "fs_faults s = []" and "lookup s p = Some (FileEntry h)" and "lookup s q \<noteq> Some DirEntry"
    and "parent_is_dir s q"
  shows "fs_rename p q s =
    (s\<lparr>entries := AList.update q (FileEntry h) (AList.delete p (entries s))\<rparr>, Ok ())"
  using assms by (simp add: fs_rename_def syscall_no_fault)

lemma sync_parent_ok:
  assumes "fs_faults s = []" and "tree_ok s" and "parent_is_dir s q"
  shows "sync_parent q s = (s, Ok ())"
proof -
  have "fs_open (butlast q) s = (s, Ok DirEntry)"
    using assms tree_resolve(2) [OF assms(2), of "butlast q" 0]
    by (simp add: fs_open_def query_no_fault parent_is_dir_def tree_resolve(2))
  then show ?thesis using assms by (simp add: sync_parent_def parent_is_dir_def)
qed

lemma publish_ok:
  assumes st: "staged w s h content" and nf: "fs_faults s = []" and ready: "writer_ready w"
    and tree: "tree_ok s" and dest: "lookup s (lw_destination w) \<noteq> Some DirEntry"
    and parent: "parent_is_dir s (lw_destination w)"
  shows "\<exists>t md. writer_publish (w, s) = ((closed_writer w, t), Ok md) \<and> fs_faults t = []"
proof -
  let ?t = "s\<lparr>entries := AList.update (lw_destination w) (FileEntry h)
    (AList.delete (lw_stage_path w) (entries s))\<rparr>"
  have f: "lw_file w \<noteq> None" and stage: "lookup s (lw_stage_path w) = Some (FileEntry h)"
    using st by (simp_all add: staged_def)
  obtain md where md: "metadata_for (lw_stage_path w) OpWriterPublish s = (s, Ok md)"
    using metadata_ok [OF nf tree stage] by blast
  have l: "lookup ?t = (lookup s)(lw_stage_path w := None, lw_destination w \<mapsto> FileEntry h)"
    using st by (intro lookup_move) (simp_all add: staged_def)
  have tree': "tree_ok ?t" by (rule tree_ok_move [OF tree stage _ parent dest l]) simp_all
  have "lookup s (butlast (lw_destination w)) = Some DirEntry" using parent by (simp add: parent_is_dir_def)
  then have "parent_is_dir ?t (lw_destination w)"
    using l stage st dest by (auto simp: parent_is_dir_def staged_def)
  then have sync: "(if lw_sync w = SyncAll then sync_parent (lw_destination (w\<lparr>lw_file := None\<rparr>)) ?t
      else (?t, Ok ())) = (?t, Ok ())"
    using sync_parent_ok [OF _ tree'] nf by simp
  have "writer_publish (w, s) =
      (writer_finish (w\<lparr>lw_file := None\<rparr>, ?t), Ok (md\<lparr>object_path := path_string (lw_destination w)\<rparr>))"
    using prepare_ok [OF nf f] md rename_ok [OF nf stage dest parent] sync ready
    by (simp add: writer_publish_def ensure_open_eq replace_file_def Let_def)
  then show ?thesis using nf by (simp add: writer_finish_eq closed_writer_def)
qed

lemma stage_name_longer: "length f < length (stage_name pid f q)"
  by (simp add: stage_name_def)

lemma stage_ok_eval:
  assumes nf: "fs_faults s = []"
    and res: "resolve_destination location OpWriterOpen s = (s, Ok (d @ [f]))"
    and dir: "lookup s d = Some DirEntry"
    and free: "lookup s (d @ [stage_name (process_id s) f (stage_sequence s)]) = None"
    and tree: "tree_ok s"
  obtains w t where "local_stage location options token_default s = (t, Ok w)"
    "staged w t (next_inode s) []" "writer_ready w" "lw_destination w = d @ [f]"
    "lw_stage_path w = d @ [stage_name (process_id s) f (stage_sequence s)]"
    "fs_faults t = []" "tree_ok t" "active_writers t = active_writers s + 1"
    "lookup t = (lookup s)(lw_stage_path w \<mapsto> FileEntry (next_inode s))"
    "inodes t = (inodes s)(next_inode s := \<lparr>file_bytes = [], file_modified = fs_clock s\<rparr>)"
proof -
  let ?p = "d @ [stage_name (process_id s) f (stage_sequence s)]"
  let ?s = "s\<lparr>stage_sequence := stage_sequence s + 1\<rparr>"
  let ?u = "?s\<lparr>entries := (?p, FileEntry (next_inode s)) # entries s,
    inodes := (inodes s)(next_inode s := \<lparr>file_bytes = [], file_modified = fs_clock s\<rparr>),
    next_inode := Suc (next_inode s)\<rparr>"
  let ?t = "?u\<lparr>active_writers := active_writers s + 1\<rparr>"
  let ?w = "\<lparr>lw_file = Some (next_inode s), lw_stage_path = ?p, lw_destination = d @ [f],
    lw_flush = option_flush options, lw_sync = option_sync options,
    lw_cancellation = token_default, lw_active = True\<rparr>"
  have "fs_create_new ?p ?s = (?u, Ok (next_inode s))"
    using nf free dir by (simp add: fs_create_new_def syscall_no_fault parent_is_dir_def)
  then have "allocate_stage 64 d f s = (?t, Ok (?p, next_inode s))"
    by (simp add: numeral_eq_Suc Let_def)
  then have op: "local_stage location options token_default s = (?t, Ok ?w)"
    using res by (simp add: local_stage_def writer_open_def)
  have l: "lookup ?t = (lookup s)(?p \<mapsto> FileEntry (next_inode s))"
    by (auto simp: lookup_def fun_eq_iff)
  have "?p \<noteq> d @ [f]" using stage_name_longer [of f "process_id s" "stage_sequence s"] by auto
  moreover have "file_bytes (inodes ?t (next_inode s)) = []" by simp
  ultimately have st: "staged ?w ?t (next_inode s) []" using l by (simp add: staged_def)
  have "tree_ok ?t"
    by (rule tree_ok_add [OF tree _ free l]) (use dir in \<open>simp_all add: parent_is_dir_def\<close>)
  moreover have "inodes ?t = (inodes s)(next_inode s := \<lparr>file_bytes = [], file_modified = fs_clock s\<rparr>)"
    by simp
  moreover have "writer_ready ?w" "fs_faults ?t = []" "active_writers ?t = active_writers s + 1"
    using nf by (simp_all add: writer_ready_def)
  ultimately show ?thesis using l by (intro that [OF op st]) simp_all
qed

lemma local_put:
  assumes nf: "fs_faults s = []" and tree: "tree_ok s"
    and res: "resolve_destination location OpWriterOpen s = (s, Ok (d @ [f]))"
    and dir: "lookup s d = Some DirEntry" and dest: "lookup s (d @ [f]) \<noteq> Some DirEntry"
    and free: "lookup s (d @ [stage_name (process_id s) f (stage_sequence s)]) = None"
  shows "\<exists>s1 w s2 s3 md.
    local_stage location options token_default s = (s1, Ok w) \<and>
    write_chunks chunks (w, s1) = ((w, s2), Ok ()) \<and>
    writer_publish (w, s2) = ((closed_writer w, s3), Ok md) \<and>
    file_at s3 = (file_at s)(d @ [f] \<mapsto> concat chunks) \<and>
    object_path md = path_string (d @ [f]) \<and>
    object_size md = word_of_nat (length (concat chunks)) \<and>
    tree_ok s3 \<and> active_writers s3 = active_writers s \<and> fs_faults s3 = []"
proof -
  obtain w s1 where op: "local_stage location options token_default s = (s1, Ok w)"
    and st1: "staged w s1 (next_inode s) []" and ready: "writer_ready w"
    and wd: "lw_destination w = d @ [f]"
    and wp: "lw_stage_path w = d @ [stage_name (process_id s) f (stage_sequence s)]"
    and nf1: "fs_faults s1 = []" and tree1: "tree_ok s1" and act1: "active_writers s1 = active_writers s + 1"
    and l1: "lookup s1 = (lookup s)(lw_stage_path w \<mapsto> FileEntry (next_inode s))"
    and i1: "inodes s1 = (inodes s)(next_inode s := \<lparr>file_bytes = [], file_modified = fs_clock s\<rparr>)"
    by (rule stage_ok_eval [OF nf res dir free tree, of options])
  obtain s2 where wr: "write_chunks chunks (w, s1) = ((w, s2), Ok ())"
    and st2: "staged w s2 (next_inode s) (concat chunks)" and nf2: "fs_faults s2 = []"
    and l2: "lookup s2 = lookup s1" and n2: "next_inode s2 = next_inode s1" "fs_cwd s2 = fs_cwd s1"
    and act2: "active_writers s2 = active_writers s1"
    and i2: "\<And>i. i \<noteq> next_inode s \<Longrightarrow> inodes s2 i = inodes s1 i"
    using write_chunks_ok [OF st1 nf1 ready, of chunks] by auto
  have tree2: "tree_ok s2" using tree1 l2 n2 by (simp add: tree_ok_def)
  have ne: "lw_stage_path w \<noteq> lw_destination w" using st1 by (simp add: staged_def)
  have dest2: "lookup s2 (lw_destination w) \<noteq> Some DirEntry" using dest l1 l2 ne wd by simp
  have "lw_stage_path w \<noteq> d" using free dir wp by auto
  then have parent2: "parent_is_dir s2 (lw_destination w)"
    using dir l1 l2 wd by (simp add: parent_is_dir_def)
  obtain s3 md where pub: "writer_publish (w, s2) = ((closed_writer w, s3), Ok md)"
    and nf3: "fs_faults s3 = []"
    using publish_ok [OF st2 nf2 ready tree2 dest2 parent2] by blast
  note sp = staged_publish [OF st2 tree2 pub ready]
  have old: "file_at s2 p = file_at s p" if "p \<noteq> lw_stage_path w" for p
    using that l1 l2 i1 i2 tree_ok_inode [OF tree, of p]
    by (auto simp: file_at_def split: option.splits entry.splits)
  have "file_at s3 p = ((file_at s)(d @ [f] \<mapsto> concat chunks)) p" for p
  proof -
    consider "p = lw_destination w" | "p \<noteq> lw_destination w" "p = lw_stage_path w"
      | "p \<noteq> lw_destination w" "p \<noteq> lw_stage_path w" by blast
    then show ?thesis
    proof cases
      case 1
      then show ?thesis using sp wd by simp
    next
      case 2
      then have "file_at s3 p = None" using sp by (simp add: file_at_None)
      moreover have "file_at s p = None" using free 2(2) wp by (simp add: file_at_None)
      ultimately show ?thesis using 2(1) wd by simp
    next
      case 3
      then have "file_at s3 p = file_at s2 p" using sp by simp
      also have "file_at s2 p = file_at s p" by (rule old [OF 3(2)])
      finally show ?thesis using 3(1) wd by simp
    qed
  qed
  then have "file_at s3 = (file_at s)(d @ [f] \<mapsto> concat chunks)" by blast
  moreover have "active_writers s3 = active_writers s" using sp act1 act2 by simp
  ultimately show ?thesis using op wr pub sp wd nf3 by auto
qed

text \<open>C36: writing refines the abstract store, a map from paths to byte strings: when nothing fails,
  opening a destination in an existing directory, writing any chunks and publishing succeeds, and
  its whole effect on the files is to map the destination to the concatenation of the chunks.\<close>

theorem local_put_refines:
  assumes nf: "fs_faults s = []" and tree: "tree_ok s"
    and res: "resolve_destination location OpWriterOpen s = (s, Ok (d @ [f]))"
    and dir: "lookup s d = Some DirEntry" and dest: "lookup s (d @ [f]) \<noteq> Some DirEntry"
    and free: "lookup s (d @ [stage_name (process_id s) f (stage_sequence s)]) = None"
  shows "\<exists>s1 w s2 s3 md.
    local_stage location options token_default s = (s1, Ok w) \<and>
    write_chunks chunks (w, s1) = ((w, s2), Ok ()) \<and>
    writer_publish (w, s2) = ((closed_writer w, s3), Ok md) \<and>
    file_at s3 = (file_at s)(d @ [f] \<mapsto> concat chunks) \<and>
    object_path md = path_string (d @ [f]) \<and>
    object_size md = word_of_nat (length (concat chunks)) \<and>
    tree_ok s3 \<and> active_writers s3 = active_writers s"
  using local_put [OF assms, of options chunks] by blast

section \<open>Reading\<close>

definition files_small :: "'z filesystem_scheme \<Rightarrow> bool" where
  "files_small s \<longleftrightarrow> (\<forall>i. length (file_bytes (inodes s i)) < 2 ^ 63)"

lemma fs_read_Ok:
  "fs_read i a b s = (t, Ok bs) \<Longrightarrow>
     bs = take (unat b) (drop (unat a) (file_bytes (inodes s i)))"
  unfolding fs_read_def by (erule query_cases) auto

lemma info_of_faults [simp]: "info_of (s\<lparr>fs_faults := fl\<rparr>) e = info_of s e"
  by (simp add: info_of_def split: entry.splits)

lemma fs_open_Ok:
  assumes "fs_open p s = (t, Ok e)" and "canonical (lookup s) p"
  shows "lookup s p = Some e"
  using assms(1) unfolding fs_open_def
  by (rule query_cases) (use resolve_self [OF assms(2)] in \<open>cases "lookup s p"; auto\<close>)+

lemma fs_metadata_Ok:
  assumes "fs_metadata (RootDir # map Normal p) s = (t, Ok info)" and "canonical (lookup s) p"
  shows "\<exists>e. lookup s p = Some e \<and> info = info_of s e"
  using assms(1) unfolding fs_metadata_def
  by (rule query_cases)
    (use resolve_self [OF assms(2)] in \<open>cases "lookup s p"; auto\<close>)+

lemma info_of_file: "info_kind (info_of s e) = KindFile \<longleftrightarrow> (\<exists>i. e = FileEntry i)"
  by (cases e) (simp_all add: info_of_def)

lemma take_min_drop:
  assumes "length xs < 2 ^ 64" and "a \<le> (word_of_nat (length xs) :: u64)"
  shows "unat a \<le> length xs \<and>
    take (unat (min b (word_of_nat (length xs) - a))) (drop (unat a) xs) = slice (unat a) (unat b) xs"
proof -
  have n: "unat (word_of_nat (length xs) :: u64) = length xs"
    using assms(1) by (simp add: unat_of_nat)
  have le: "unat a \<le> length xs" using assms(2) n by (simp add: word_le_nat_alt)
  have "unat (word_of_nat (length xs) - a) = length xs - unat a"
    using assms(2) n by (simp add: unat_sub)
  then have "unat (min b (word_of_nat (length xs) - a)) = min (unat b) (length xs - unat a)"
    by (simp add: min_def word_le_nat_alt)
  then show ?thesis using le by (simp add: slice_def min_def)
qed

lemma local_read_range_Ok:
  assumes tree: "tree_ok s" and small: "files_small s"
    and root: "location_allowed_root location = Some r"
    and read: "local_read_range location requested token s = (t, Ok bs)"
  obtains p content base where "canonical_root location s base" "is_prefix_of base p"
    "resolve_path (lookup s) max_links (fs_cwd s) (system_path (location_key location)) = Ok p"
    "file_at s p = Some content" "unat (range_offset requested) \<le> length content"
    "bs = slice (unat (range_offset requested)) (unat (range_length requested)) content"
    "bytes_read t = bytes_read s + vec_len bs"
proof -
  have tok: "token_check token OpReadRange = Ok ()"
    using read by (auto simp: local_read_range_def elim!: act_bind_cases)
  obtain s1 p where s1: "resolve_existing location OpReadRange s = (s1, Ok p)"
    using read unfolding local_read_range_def by (auto elim!: act_bind_cases)
  obtain base fl where b: "canonical_root location s base" "is_prefix_of base p"
    and can: "canonical (lookup s) p" and f1: "s1 = s\<lparr>fs_faults := fl\<rparr>"
    and res: "resolve_path (lookup s) max_links (fs_cwd s) (system_path (location_key location)) = Ok p"
    by (rule resolve_existing_Ok [OF tree s1 root])
  let ?off = "range_offset requested"
  obtain s2 info where s2: "fs_metadata (RootDir # map Normal p) s1 = (s2, Ok info)"
    and k: "info_kind info = KindFile" and off: "\<not> info_len info < ?off"
    and rest: "act_bind (map_io OpReadRange (fs_open p)) (\<lambda>entry.
       act_bind (map_io OpReadRange fs_barrier) (\<lambda>_.
       act_bind (map_io OpReadRange
           (case entry of FileEntry i \<Rightarrow>
              fs_read i ?off (min (range_length requested) (info_len info - ?off))
            | _ \<Rightarrow> act_err IoOther)) (\<lambda>bytes.
       act_bind (count_bytes_read bytes) (\<lambda>_.
       act_bind (act_lift (token_check token OpReadRange)) (\<lambda>_.
       act_ok bytes))))) s2 = (t, Ok bs)"
    using read s1 tok unfolding local_read_range_def Let_def
    by (auto elim!: act_bind_cases [of _ _ s1] simp: act_map_err_Ok simp del: token_check_Ok
        split: if_splits)
  obtain fl2 where f2: "s2 = s\<lparr>fs_faults := fl2\<rparr>" using quietD [OF quiet_calls(3) s2] f1 by auto
  obtain e where e: "lookup s p = Some e" and info: "info = info_of s1 e"
    using fs_metadata_Ok [OF s2] can f1 by auto
  obtain i where i: "e = FileEntry i" using k info info_of_file by auto
  let ?content = "file_bytes (inodes s i)"
  have len: "info_len info = word_of_nat (length ?content)" using info i f1 by (simp add: info_of_def)
  obtain s3 e' where s3: "fs_open p s2 = (s3, Ok e')"
    and rest3: "act_bind (map_io OpReadRange fs_barrier) (\<lambda>_.
       act_bind (map_io OpReadRange
           (case e' of FileEntry i \<Rightarrow>
              fs_read i ?off (min (range_length requested) (info_len info - ?off))
            | _ \<Rightarrow> act_err IoOther)) (\<lambda>bytes.
       act_bind (count_bytes_read bytes) (\<lambda>_.
       act_bind (act_lift (token_check token OpReadRange)) (\<lambda>_.
       act_ok bytes)))) s3 = (t, Ok bs)"
    using rest by (rule act_bind_cases) (auto simp: act_map_err_Ok)
  have e': "e' = FileEntry i" using fs_open_Ok [OF s3] can f2 e i by simp
  obtain fl3 where f3: "s3 = s\<lparr>fs_faults := fl3\<rparr>" using quietD [OF quiet_calls(5) s3] f2 by auto
  from rest3 obtain s4 where s4: "fs_barrier s3 = (s4, Ok ())"
    and rest4: "act_bind (map_io OpReadRange
         (fs_read i ?off (min (range_length requested) (info_len info - ?off)))) (\<lambda>bytes.
       act_bind (count_bytes_read bytes) (\<lambda>_.
       act_bind (act_lift (token_check token OpReadRange)) (\<lambda>_.
       act_ok bytes))) s4 = (t, Ok bs)"
    by (rule act_bind_cases) (auto simp: act_map_err_Ok e')
  obtain fl4 where f4: "s4 = s\<lparr>fs_faults := fl4\<rparr>" using quietD [OF quiet_calls(1) s4] f3 by auto
  from rest4 obtain s5 where s5:
      "fs_read i ?off (min (range_length requested) (info_len info - ?off)) s4 = (s5, Ok bs)"
    and t: "t = s5\<lparr>bytes_read := bytes_read s5 + vec_len bs\<rparr>"
    by (rule act_bind_cases) (auto simp: act_map_err_Ok count_bytes_read_def tok elim!: act_bind_cases)
  obtain fl5 where f5: "s5 = s\<lparr>fs_faults := fl5\<rparr>" using quietD [OF quiet_calls(6) s5] f4 by auto
  have "length ?content < 2 ^ 63" using small by (simp only: files_small_def)
  then have small_i: "length ?content < 2 ^ 64" by (rule less_trans) simp
  have "unat ?off \<le> length ?content \<and>
      bs = slice (unat ?off) (unat (range_length requested)) ?content"
    using take_min_drop [OF small_i, of ?off "range_length requested"] off fs_read_Ok [OF s5] f4 len
    by (simp add: not_less)
  moreover have "file_at s p = Some ?content" using e i by (simp add: file_at_def)
  moreover have "bytes_read t = bytes_read s + vec_len bs" using t f5 by simp
  ultimately show ?thesis using that b res by blast
qed

text \<open>C28: a successful range read returns exactly the requested slice, clipped at the end of the
  file, of the file the location resolves to; the file lies beneath the allowed root, whatever
  links the path goes through, and the bytes are added to the counter.\<close>

theorem local_read_confined:
  assumes "tree_ok s" and "files_small s" and "location_allowed_root location = Some r"
    and "local_read_range location requested token s = (t, Ok bs)"
  shows "\<exists>p content base. canonical_root location s base \<and> is_prefix_of base p \<and>
    resolve_path (lookup s) max_links (fs_cwd s) (system_path (location_key location)) = Ok p \<and>
    file_at s p = Some content \<and> unat (range_offset requested) \<le> length content \<and>
    bs = slice (unat (range_offset requested)) (unat (range_length requested)) content \<and>
    bytes_read t = bytes_read s + vec_len bs"
  by (rule local_read_range_Ok [OF assms]) blast

lemma local_delete_effect:
  assumes tree: "tree_ok s" and root: "location_allowed_root location = Some r"
    and del: "local_delete location token s = (t, res)"
  shows "(lookup t = lookup s \<and> isl res) \<or>
    (\<exists>p e base. canonical_root location s base \<and> is_prefix_of base p \<and> lookup s p = Some e \<and>
       e \<noteq> DirEntry \<and> lookup t = (lookup s)(p := None) \<and> res = Ok ())"
proof (cases "token_check token OpDelete")
  case (Inl e)
  then have "t = s \<and> res = Inl e" using del by (simp add: local_delete_def)
  then show ?thesis by simp
next
  case (Inr u)
  obtain s1 c where c: "resolve_existing location OpDelete s = (s1, c)" by fastforce
  obtain fl where s1: "s1 = s\<lparr>fs_faults := fl\<rparr>" using quietD [OF quiet_resolve(1) c] by blast
  show ?thesis
  proof (cases c)
    case (Inl e)
    then have "lookup t = lookup s \<and> isl res"
      using del Inr c s1 by (auto simp: local_delete_def act_bind_def)
    then show ?thesis by blast
  next
    case (Inr p)
    obtain base where b: "canonical_root location s base" "is_prefix_of base p"
      by (rule resolve_existing_Ok [OF tree c [unfolded Inr] root])
    obtain t' q where rm: "fs_remove_file p s1 = (t', q)" by fastforce
    then have t: "t = t'" and q: "res = map_err (from_io OpDelete) q"
      using del \<open>token_check token OpDelete = Inr u\<close> c Inr
      by (auto simp: local_delete_def act_bind_def act_map_err_def)
    from rm show ?thesis
    proof (cases rule: remove_file_cases)
      case (fault fl k)
      then show ?thesis using t q s1 by simp
    next
      case (ok fl' e)
      have "lookup t = (lookup s)(p := None)"
        using lookup_delete [OF ok(4), of "s\<lparr>fs_faults := fl'\<rparr>"] ok(5) t s1 by simp
      then show ?thesis using ok b s1 q by auto
    qed
  qed
qed

text \<open>C29: a deletion removes one file or link beneath the allowed root and reports success, or it
  reports a failure and removes nothing.\<close>

theorem local_delete_confined:
  assumes "tree_ok s" and "location_allowed_root location = Some r"
    and "local_delete location token s = (t, res)"
  shows "(lookup t = lookup s \<and> isl res) \<or>
    (\<exists>p e base. canonical_root location s base \<and> is_prefix_of base p \<and> lookup s p = Some e \<and>
       e \<noteq> DirEntry \<and> lookup t = (lookup s)(p := None) \<and> res = Ok ())"
  by (rule local_delete_effect [OF assms])

text \<open>C23: in every reachable state the counter of active writers is their number, and every active
  writer has a staging file and an open handle of its own: no other path names its inode, and no
  other writer its path.\<close>

theorem local_writers_apart:
  assumes "local_reachable v"
  shows "active_writers (sys_world v) =
      word_of_nat (length (filter lw_active (sys_writers v))) \<and>
    (\<forall>w h p. w \<in> set (sys_writers v) \<and> lw_active w \<and> lw_file w = Some h \<and>
       lookup (sys_world v) p = Some (FileEntry h) \<longrightarrow> p = lw_stage_path w) \<and>
    (\<forall>i j. i < length (sys_writers v) \<and> j < length (sys_writers v) \<and> i \<noteq> j \<and>
       lw_active (sys_writers v ! i) \<and> lw_active (sys_writers v ! j) \<longrightarrow>
       lw_file (sys_writers v ! i) \<noteq> lw_file (sys_writers v ! j) \<and>
       lw_stage_path (sys_writers v ! i) \<noteq> lw_stage_path (sys_writers v ! j))"
proof -
  note inv = sys_inv_reachable [OF assms, unfolded sys_inv_def writers_ok_def]
  have "active_count ws = length (filter lw_active ws)" for ws
    by (induction ws) (simp_all add: active_count_def)
  moreover have "p = lw_stage_path w"
    if "w \<in> set (sys_writers v)" "lw_active w" "lw_file w = Some h"
      "lookup (sys_world v) p = Some (FileEntry h)" for w h p
    using inv that by (auto simp: owns_def)
  moreover have "apart (sys_writers v ! i) (sys_writers v ! j)"
    if "i < length (sys_writers v)" "j < length (sys_writers v)" "i \<noteq> j"
      "lw_active (sys_writers v ! i)" "lw_active (sys_writers v ! j)" for i j
    using inv that by blast
  ultimately show ?thesis using inv by (auto simp: apart_def)
qed

section \<open>A concrete run\<close>

text \<open>A directory \<^verbatim>\<open>/data\<close> and the destination \<^verbatim>\<open>/data/f\<close>, as in the examples of the guide.\<close>

definition sample_world :: local_world where
  "sample_world =
     \<lparr>entries = [([''data''], DirEntry)], inodes = (\<lambda>_. \<lparr>file_bytes = [], file_modified = None\<rparr>),
      next_inode = 0, fs_cwd = [], fs_clock = Some 0, fs_faults = [],
      active_writers = 0, bytes_read = 0, stage_sequence = 0, process_id = 7\<rparr>"

definition sample_location :: object_location where
  "sample_location = \<lparr>location_key = ''/data/f'', location_allowed_root = Some ''/data''\<rparr>"

definition sample_options :: write_options where
  "sample_options = \<lparr>option_flush = FlushNone, option_sync = SyncAll\<rparr>"

lemma sample_lookup: "lookup sample_world = [[] \<mapsto> DirEntry, [''data''] \<mapsto> DirEntry]"
  by (auto simp: lookup_def sample_world_def fun_eq_iff)

lemma sample_fields [simp]:
  "fs_faults sample_world = []" "fs_cwd sample_world = []" "active_writers sample_world = 0"
  "stage_sequence sample_world = 0"
  by (simp_all add: sample_world_def)

lemma sample_tree: "tree_ok sample_world"
  by (auto simp: tree_ok_def sample_lookup)

lemma sample_resolves:
  "resolve_destination sample_location OpWriterOpen sample_world =
     (sample_world, Ok ([''data''] @ [''f'']))"
proof -
  have c: "path_components ''/data/f'' = [RootDir, Normal ''data'', Normal ''f'']"
    "system_path ''/data/f'' = [RootDir, Normal ''data'', Normal ''f'']"
    "system_path ''/data'' = [RootDir, Normal ''data'']"
    by code_simp+
  show ?thesis
    by (simp add: resolve_destination_def enforce_allowed_root_def canonical_allowed_root_def
        sample_location_def c path_parent_def path_file_name_def fs_canonicalize_def query_no_fault
        sample_lookup act_map_err_def act_bind_def is_prefix_of_def)
qed

lemma sample_free:
  "lookup sample_world [''data''] = Some DirEntry"
  "lookup sample_world ([''data''] @ [''f'']) = None"
  "lookup sample_world ([''data''] @ [stage_name (process_id sample_world) ''f''
     (stage_sequence sample_world)]) = None"
  by (auto simp: sample_lookup)

theorem local_put_refines_witness:
  "\<exists>s1 w s2 s3 md.
    local_stage sample_location sample_options token_default sample_world = (s1, Ok w) \<and>
    write_chunks [[1, 2], [3]] (w, s1) = ((w, s2), Ok ()) \<and>
    writer_publish (w, s2) = ((closed_writer w, s3), Ok md) \<and>
    file_at s3 [''data'', ''f''] = Some [1, 2, 3] \<and> object_size md = 3"
proof -
  have "lookup sample_world ([''data''] @ [''f'']) \<noteq> Some DirEntry" by (simp add: sample_lookup)
  from local_put_refines [OF _ sample_tree sample_resolves sample_free(1) this sample_free(3),
      of sample_options "[[1, 2], [3]]"]
  show ?thesis by fastforce
qed

lemma sample_staged:
  obtains w t where
    "local_stage sample_location sample_options token_default sample_world = (t, Ok w)"
    "staged w t (next_inode sample_world) []" "writer_ready w" "tree_ok t" "fs_faults t = []"
    "lw_destination w = [''data'', ''f'']" "lookup t [''data'', ''f''] = None"
    "lookup t [''data''] = Some DirEntry" "active_writers t = 1"
proof -
  obtain w t where o: "local_stage sample_location sample_options token_default sample_world = (t, Ok w)"
    "staged w t (next_inode sample_world) []" "writer_ready w" "lw_destination w = [''data''] @ [''f'']"
    and wp: "lw_stage_path w = [''data''] @ [stage_name (process_id sample_world) ''f''
      (stage_sequence sample_world)]"
    and t: "fs_faults t = []" "tree_ok t" "active_writers t = active_writers sample_world + 1"
    and l: "lookup t = (lookup sample_world)(lw_stage_path w \<mapsto> FileEntry (next_inode sample_world))"
    by (rule stage_ok_eval [OF _ sample_resolves sample_free(1,3) sample_tree, of sample_options]) auto
  have "stage_name (process_id sample_world) ''f'' (stage_sequence sample_world) \<noteq> ''f''"
    using stage_name_longer [of "''f''"] by (metis less_irrefl)
  then have "lookup t [''data'', ''f''] = None" "lookup t [''data''] = Some DirEntry"
    using l wp by (auto simp: sample_lookup)
  then show ?thesis using o t by (intro that [of t w]) simp_all
qed

lemma sample_reachable:
  assumes "local_stage sample_location sample_options token_default sample_world = (t, Ok w)"
  shows "local_reachable \<lparr>sys_world = t, sys_writers = [w]\<rparr>"
proof -
  let ?v = "\<lparr>sys_world = sample_world, sys_writers = []\<rparr>"
  have "local_step ?v \<lparr>sys_world = t, sys_writers = sys_writers ?v @ [w]\<rparr>"
    using assms by (intro stage_ok [of sample_location sample_options]) simp_all
  then have "local_step\<^sup>*\<^sup>* ?v \<lparr>sys_world = t, sys_writers = [w]\<rparr>" by simp
  moreover have "local_init ?v" using sample_tree by (simp add: local_init_def)
  ultimately show ?thesis unfolding local_reachable_def by blast
qed

lemma sample_publish:
  assumes "staged w t h []" and "writer_ready w" and "tree_ok t" and "fs_faults t = []"
    and "lw_destination w = [''data'', ''f'']" and "lookup t [''data'', ''f''] = None"
    and "lookup t [''data''] = Some DirEntry"
  obtains u md where "writer_publish (w, t) = ((closed_writer w, u), Ok md)"
  using publish_ok [OF assms(1,4,2,3)] assms(5-7) by (auto simp: parent_is_dir_def)

theorem local_no_torn_objects_witness:
  "\<exists>v w :: unit local_system. local_reachable v \<and> local_step v w \<and> sys_writers v \<noteq> [] \<and>
     whole_change v w [''data'', ''f'']"
proof -
  obtain w t where st: "local_stage sample_location sample_options token_default sample_world = (t, Ok w)"
    "staged w t (next_inode sample_world) []" "writer_ready w" "tree_ok t" "fs_faults t = []"
    "lw_destination w = [''data'', ''f'']" "lookup t [''data'', ''f''] = None"
    "lookup t [''data''] = Some DirEntry"
    by (rule sample_staged) blast
  obtain u md where pub: "writer_publish (w, t) = ((closed_writer w, u), Ok md)"
    by (rule sample_publish [OF st(2-8)])
  let ?v = "\<lparr>sys_world = t, sys_writers = [w]\<rparr>"
  have step: "local_step ?v (set_writer ?v 0 (closed_writer w, u))"
    by (rule publish_step [where r = "Ok md"]) (simp_all add: pub)
  have ne: "lw_stage_path w \<noteq> [''data'', ''f'']" using st(2,6) by (simp add: staged_def)
  then have "\<not> staging_path ?v [''data'', ''f'']"
    "\<not> staging_path (set_writer ?v 0 (closed_writer w, u)) [''data'', ''f'']"
    by (simp_all add: staging_path_def set_writer_def)
  from local_no_torn_objects [OF sample_reachable [OF st(1)] step this]
  show ?thesis using sample_reachable [OF st(1)] step by (intro exI conjI) simp_all
qed

theorem local_publish_atomic_witness:
  "\<exists>w s s' md. writer_publish (w, s :: local_world) = ((closed_writer w, s'), Ok md) \<and>
     active_writers s = 1 \<and> active_writers s' = 0 \<and> file_at s' (lw_destination w) = Some []"
proof -
  obtain w and t :: local_world where st: "staged w t (next_inode sample_world) []" "writer_ready w" "tree_ok t"
    "fs_faults t = []" "lw_destination w = [''data'', ''f'']" "lookup t [''data'', ''f''] = None"
    "lookup t [''data''] = Some DirEntry" "active_writers t = 1"
    by (rule sample_staged) blast
  obtain u md where pub: "writer_publish (w, t) = ((closed_writer w, u), Ok md)"
    by (rule sample_publish [OF st(1-7)])
  from local_publish_atomic [OF st(1,3,2) pub] show ?thesis using pub st(8) by auto
qed

theorem local_writers_apart_witness:
  "\<exists>v :: unit local_system. local_reachable v \<and> active_writers (sys_world v) = 1 \<and>
     length (filter lw_active (sys_writers v)) = 1"
proof -
  obtain w t where st: "local_stage sample_location sample_options token_default sample_world = (t, Ok w)"
    "writer_ready w"
    by (rule sample_staged) blast
  from local_writers_apart [OF sample_reachable [OF st(1)]]
  show ?thesis using sample_reachable [OF st(1)] st(2)
    by (intro exI [of _ "\<lparr>sys_world = t, sys_writers = [w]\<rparr>"]) (simp add: writer_ready_def)
qed

text \<open>A stored object \<^verbatim>\<open>/data/f\<close> of four bytes.\<close>

definition stored_world :: local_world where
  "stored_world = sample_world
     \<lparr>entries := [([''data''], DirEntry), ([''data'', ''f''], FileEntry 0)], next_inode := 1,
      inodes := (\<lambda>_. \<lparr>file_bytes = [10, 20, 30, 40], file_modified = None\<rparr>)\<rparr>"

lemma stored_lookup:
  "lookup stored_world = [[] \<mapsto> DirEntry, [''data''] \<mapsto> DirEntry, [''data'', ''f''] \<mapsto> FileEntry 0]"
  by (auto simp: lookup_def stored_world_def fun_eq_iff)

lemma stored_fields [simp]:
  "fs_faults stored_world = []" "fs_cwd stored_world = []" "next_inode stored_world = 1"
  "file_bytes (inodes stored_world i) = [10, 20, 30, 40]" "bytes_read stored_world = 0"
  by (simp_all add: stored_world_def sample_world_def)

lemma stored_tree: "tree_ok stored_world" "files_small stored_world"
  by (auto simp: tree_ok_def stored_lookup append_eq_Cons_conv files_small_def)

lemma stored_existing: "resolve_existing sample_location operation stored_world =
    (stored_world, Ok [''data'', ''f''])"
proof -
  have c: "path_components ''/data/f'' = [RootDir, Normal ''data'', Normal ''f'']"
    "system_path ''/data/f'' = [RootDir, Normal ''data'', Normal ''f'']"
    "system_path ''/data'' = [RootDir, Normal ''data'']"
    by code_simp+
  show ?thesis
    by (simp add: resolve_existing_def enforce_allowed_root_def canonical_allowed_root_def
        sample_location_def c fs_canonicalize_def query_no_fault
        stored_lookup act_map_err_def act_bind_def is_prefix_of_def)
qed

lemma stored_file: "lookup stored_world [''data'', ''f''] = Some (FileEntry 0)"
  by (simp add: stored_lookup)

theorem local_read_confined_witness:
  "\<exists>t bs. local_read_range sample_location \<lparr>range_offset = 1, range_length = 2\<rparr> token_default
      stored_world = (t, Ok bs) \<and> bs = [20, 30] \<and> bytes_read t = 2"
proof -
  obtain t where read: "local_read_range sample_location \<lparr>range_offset = 1, range_length = 2\<rparr>
      token_default stored_world = (t, Ok [20, 30])"
    using tree_resolve [OF stored_tree(1), of "[''data'', ''f'']"]
    by (simp add: local_read_range_def act_bind_def act_map_err_def stored_existing fs_metadata_def
        query_no_fault info_of_def fs_open_def fs_barrier_def fs_read_def count_bytes_read_def
        stored_file token_check_def token_default_def)
  have "location_allowed_root sample_location = Some ''/data''" by (simp add: sample_location_def)
  from local_read_confined [OF stored_tree this read] read
  show ?thesis by (auto simp: vec_len_def)
qed

theorem local_delete_confined_witness:
  "\<exists>t. local_delete sample_location token_default stored_world = (t, Ok ()) \<and>
     lookup t [''data'', ''f''] = None"
proof -
  obtain t where del: "local_delete sample_location token_default stored_world = (t, Ok ())"
    by (simp add: local_delete_def act_bind_def act_map_err_def stored_existing fs_remove_file_def
        syscall_no_fault stored_file token_check_def token_default_def)
  have root: "location_allowed_root sample_location = Some ''/data''" by (simp add: sample_location_def)
  have "canonical_root sample_location stored_world b \<Longrightarrow> b = [''data'']" for b
  proof -
    have c: "system_path ''/data'' = [RootDir, Normal ''data'']" by code_simp
    show "canonical_root sample_location stored_world b \<Longrightarrow> b = [''data'']"
      by (simp add: canonical_root_def sample_location_def c stored_lookup)
  qed
  from local_delete_confined [OF stored_tree(1) root del] this del
  show ?thesis
    by (auto simp: is_prefix_of_def stored_lookup split: if_splits)
qed

end
