(* ===== verification/S3.thy ===== *)
theory S3
  imports Range_Reader Filesystem "HOL-Library.List_Lexorder" "HOL-Library.Char_ord"
begin

text \<open>
  The S3 backend (\<^verbatim>\<open>s3.rs\<close>): the client settings, the calls of the \<^verbatim>\<open>object_store\<close> crate behind
  \<^verbatim>\<open>remote_call\<close> with its request counters and the race against a cancellation, the operations
  on an object, and the multipart writer. The crate and the remote service are the record
  parameter \<open>remote_lib\<close> over an abstract remote state.
\<close>

section \<open>Data\<close>

record s3_config =
  s3_bucket :: string
  s3_key :: string
  s3_endpoint :: "string option"
  s3_region :: string
  s3_path_style :: bool
  s3_tls :: bool
  request_timeout_ms :: u64
  max_retries :: usize
  credential_provider :: atom
  access_key_id :: "string option"
  secret_access_key :: "string option"
  session_token :: "string option"
  max_request_concurrency :: usize
  multipart_part_size :: usize
  max_in_flight_parts :: usize

record remote_metadata =
  rm_key :: string
  rm_size :: u64
  rm_modified_unix_ns :: "u64 option"

text \<open>The variants of \<^verbatim>\<open>object_store::Error\<close> the code distinguishes, and the rest.\<close>

datatype remote_failure =
    RemoteNotFound | RemoteAlreadyExists | RemotePrecondition | RemotePermissionDenied
  | RemoteUnauthenticated | RemoteNotSupported | RemoteNotImplemented | RemoteInvalidPath
  | RemoteUnknownConfigurationKey | RemoteOther

text \<open>\<^verbatim>\<open>ObjectMeta\<close>; the time is \<^verbatim>\<open>timestamp_nanos_opt\<close> of the modification time.\<close>

record object_meta =
  om_location :: string
  om_size :: u64
  om_modified_nanos :: "int option"

text \<open>The settings handed to \<^verbatim>\<open>AmazonS3Builder\<close> and \<^verbatim>\<open>LimitStore\<close>.\<close>

record s3_builder =
  builder_credentials :: "(string \<times> string \<times> string option) option"
  builder_bucket :: string
  builder_region :: string
  builder_allow_http :: bool
  builder_virtual_hosted :: bool
  builder_max_retries :: usize
  builder_timeout_ms :: u64
  builder_endpoint :: "string option"

text \<open>
  The crate: \<open>remote_runtime\<close> says whether the Tokio runtime could be built, \<open>remote_race\<close> whether a
  cancellation wins against the pending work, with the state that dropping the work leaves. Its
  calls return: a panic inside the client is not modelled. It would pass \<open>remote_call\<close>, which has no
  guard, and leave its request counted.
\<close>

record 'r remote_lib =
  remote_runtime :: bool
  remote_build :: "s3_builder \<Rightarrow> bool"
  remote_path :: "string \<Rightarrow> string option"
  remote_race :: "'r \<Rightarrow> 'r \<times> bool"
  remote_head :: "string \<Rightarrow> ('r, remote_failure, object_meta) action"
  remote_get_range :: "string \<Rightarrow> u64 \<Rightarrow> u64 \<Rightarrow> ('r, remote_failure, bytes) action"
  remote_list :: "string option \<Rightarrow> ('r, remote_failure, object_meta list) action"
  remote_delete :: "string \<Rightarrow> ('r, remote_failure, unit) action"
  remote_put_multipart :: "string \<Rightarrow> usize \<Rightarrow> ('r, remote_failure, nat) action"
  remote_wait_capacity :: "nat \<Rightarrow> usize \<Rightarrow> ('r, remote_failure, unit) action"
  remote_write_part :: "nat \<Rightarrow> bytes \<Rightarrow> 'r \<Rightarrow> 'r"
  remote_finish :: "nat \<Rightarrow> ('r, remote_failure, unit) action"
  remote_abort :: "nat \<Rightarrow> ('r, remote_failure, unit) action"

record 'r remote_world =
  remote_state :: 'r
  active_requests :: usize
  peak_requests :: usize
  active_multipart :: usize
  range_requests :: u64
  range_bytes :: u64
  clients_created :: u64

section \<open>Keys, metadata and errors\<close>

definition join_key :: "string \<Rightarrow> string \<Rightarrow> string" where
  "join_key base suffix =
     (let b = trim_matches CHR ''/'' base; s = trim_matches CHR ''/'' suffix in
      if b = [] then s else if s = [] then b else b @ CHR ''/'' # s)"

definition remote_error :: "operation \<Rightarrow> remote_failure \<Rightarrow> native_failure" where
  "remote_error operation e =
     (let (category, message, retryable) =
        (if e = RemoteNotFound then (NotFound, ''S3 object not found'', False)
         else if e = RemoteAlreadyExists \<or> e = RemotePrecondition
         then (Conflict, ''S3 destination already exists'', False)
         else if e = RemotePermissionDenied \<or> e = RemoteUnauthenticated
         then (PermissionDenied, ''S3 object access was denied'', False)
         else if e = RemoteNotSupported \<or> e = RemoteNotImplemented
         then (Unsupported, ''S3 operation is unsupported'', False)
         else if e = RemoteInvalidPath \<or> e = RemoteUnknownConfigurationKey
         then (InvalidArgument, ''S3 request is invalid'', False)
         else (NativeFailure, ''S3 operation failed after bounded retries'', True))
      in \<lparr>failure_category = category, failure_operation = operation,
          failure_message = message, failure_retryable = retryable\<rparr>)"

definition remote_metadata_of :: "object_meta \<Rightarrow> remote_metadata" where
  "remote_metadata_of m =
     \<lparr>rm_key = om_location m, rm_size = om_size m,
      rm_modified_unix_ns =
        Option.bind (om_modified_nanos m) (\<lambda>v. map_option word_of_int (try_unsigned 64 v))\<rparr>"

definition s3_multipart_buffer_limit :: "s3_config \<Rightarrow> usize" where
  "s3_multipart_buffer_limit config =
     saturating_mul_usize (saturating_add_usize (max_in_flight_parts config) 1)
       (multipart_part_size config)"

section \<open>The client\<close>

definition explicit_credentials ::
  "s3_config \<Rightarrow> (string \<times> string \<times> string option) native_result" where
  "explicit_credentials config =
     (let incomplete = failure_invalid OpStoreOpen ''explicit S3 credentials are incomplete'' in
      and_then (ok_or (access_key_id config) incomplete) (\<lambda>access.
      and_then (ok_or (secret_access_key config) incomplete) (\<lambda>secret.
      Ok (access, secret, session_token config))))"

definition build_store ::
  "'r remote_lib \<Rightarrow> s3_config \<Rightarrow> ('r remote_world, native_failure, unit) action" where
  "build_store L config =
     act_bind (act_lift
       (if credential_provider config = ''standard'' then Ok None
        else if credential_provider config = ''explicit''
        then and_then (explicit_credentials config) (\<lambda>c. Ok (Some c))
        else Err (failure_invalid OpS3Head ''S3 credential provider is invalid''))) (\<lambda>credentials.
     let builder =
       \<lparr>builder_credentials = credentials, builder_bucket = s3_bucket config,
        builder_region = s3_region config, builder_allow_http = \<not> s3_tls config,
        builder_virtual_hosted = \<not> s3_path_style config,
        builder_max_retries = max_retries config,
        builder_timeout_ms = request_timeout_ms config, builder_endpoint = s3_endpoint config\<rparr>
     in if \<not> remote_build L builder
        then act_err (failure_invalid OpS3Head ''S3 client configuration is invalid'')
        else (\<lambda>s. (s\<lparr>clients_created := clients_created s + 1\<rparr>, Ok ())))"

section \<open>Calls\<close>

definition s3_runtime :: "'r remote_lib \<Rightarrow> unit native_result" where
  "s3_runtime L =
     (if remote_runtime L then Ok ()
      else Err (failure_expected OpS3Head ''S3 runtime is unavailable''))"

text \<open>The body of \<^verbatim>\<open>block_on\<close>: the work alone, or raced against the cancellation.\<close>

definition race_call ::
  "'r remote_lib \<Rightarrow> operation \<Rightarrow> bool \<Rightarrow> ('r, remote_failure, 'a) action
   \<Rightarrow> ('r, native_failure, 'a) action" where
  "race_call L operation cancellable work r =
     (if cancellable \<and> snd (remote_race L r)
      then (fst (remote_race L r), Err (failure_cancelled operation))
      else act_map_err (remote_error operation) work
             (if cancellable then fst (remote_race L r) else r))"

definition remote_call ::
  "'r remote_lib \<Rightarrow> operation \<Rightarrow> bool \<Rightarrow> ('r, remote_failure, 'a) action
   \<Rightarrow> ('r remote_world, native_failure, 'a) action" where
  "remote_call L operation cancellable work =
     act_bind (act_lift (s3_runtime L)) (\<lambda>_ s.
       let s = s\<lparr>active_requests := active_requests s + 1\<rparr>;
           s = s\<lparr>peak_requests := max (peak_requests s) (active_requests s)\<rparr>
       in case race_call L operation cancellable work (remote_state s) of (r, result) \<Rightarrow>
            (s\<lparr>remote_state := r, active_requests := active_requests s - 1\<rparr>, result))"

section \<open>Objects\<close>

record remote_object =
  ro_path :: string
  ro_config :: s3_config

definition store_object :: "'r remote_lib \<Rightarrow> s3_config \<Rightarrow> string \<Rightarrow> remote_object native_result" where
  "store_object L config key =
     (let combined = join_key (s3_key config) key in
      and_then (ok_or (remote_path L combined) (failure_invalid OpStoreOpen ''object key is invalid''))
        (\<lambda>path. Ok \<lparr>ro_path = path, ro_config = config\<lparr>s3_key := combined\<rparr>\<rparr>))"

definition object_head ::
  "'r remote_lib \<Rightarrow> remote_object \<Rightarrow> cancellation_token \<Rightarrow> operation
   \<Rightarrow> ('r remote_world, native_failure, remote_metadata) action" where
  "object_head L obj token operation =
     act_bind (act_lift (token_check token operation)) (\<lambda>_.
     act_bind (remote_call L operation True (remote_head L (ro_path obj))) (\<lambda>metadata.
     act_bind (act_lift (token_check token operation)) (\<lambda>_.
     act_ok (remote_metadata_of metadata))))"

definition object_read_range ::
  "'r remote_lib \<Rightarrow> remote_object \<Rightarrow> u64 \<Rightarrow> usize \<Rightarrow> cancellation_token \<Rightarrow> operation
   \<Rightarrow> ('r remote_world, native_failure, bytes) action" where
  "object_read_range L obj offset len token operation =
     act_bind (act_lift (token_check token operation)) (\<lambda>_.
     act_bind (act_lift (ok_or (checked_add_u64 offset len)
       (failure_invalid operation ''S3 range overflow''))) (\<lambda>end_pos.
     if len = 0 then act_ok []
     else
       act_bind (remote_call L operation True (remote_get_range L (ro_path obj) offset end_pos))
         (\<lambda>bytes.
       act_bind (act_lift (token_check token operation)) (\<lambda>_ s.
         (s\<lparr>range_requests := range_requests s + 1,
            range_bytes := range_bytes s + vec_len bytes\<rparr>, Ok bytes)))))"

definition object_list ::
  "'r remote_lib \<Rightarrow> remote_object \<Rightarrow> string \<Rightarrow> cancellation_token
   \<Rightarrow> ('r remote_world, native_failure, remote_metadata list) action" where
  "object_list L obj explicit_prefix token =
     act_bind (act_lift (token_check token OpS3List)) (\<lambda>_.
     let combined = join_key (s3_key (ro_config obj)) explicit_prefix in
     act_bind (act_lift
       (if combined = [] then Ok None
        else and_then (ok_or (remote_path L combined)
               (failure_invalid OpS3List ''S3 list prefix is invalid'')) (\<lambda>p. Ok (Some p)))) (\<lambda>prefix.
     act_bind (remote_call L OpS3List True (remote_list L prefix)) (\<lambda>entries.
     act_bind (act_lift (token_check token OpS3List)) (\<lambda>_.
     act_ok (sort_key rm_key (map remote_metadata_of entries))))))"

definition object_delete ::
  "'r remote_lib \<Rightarrow> remote_object \<Rightarrow> cancellation_token
   \<Rightarrow> ('r remote_world, native_failure, unit) action" where
  "object_delete L obj token =
     act_bind (act_lift (token_check token OpS3Delete)) (\<lambda>_.
     act_bind (remote_call L OpS3Delete True (remote_delete L (ro_path obj))) (\<lambda>_.
     act_lift (token_check token OpS3Delete)))"

text \<open>\<^verbatim>\<open>RemoteStore::list\<close>: the listing of the base prefix, with keys relative to it.\<close>

definition strip_marker :: "string \<Rightarrow> string \<Rightarrow> string" where
  "strip_marker base key =
     (if base = [] then key
      else (case strip_prefix (base @ ''/'') key of None \<Rightarrow> key | Some k \<Rightarrow> k))"

definition remote_store_list ::
  "'r remote_lib \<Rightarrow> s3_config \<Rightarrow> string \<Rightarrow> cancellation_token
   \<Rightarrow> ('r remote_world, native_failure, remote_metadata list) action" where
  "remote_store_list L config prefix token =
     act_bind (act_lift (store_object L config [])) (\<lambda>obj.
     act_bind (object_list L obj prefix token) (\<lambda>entries.
     let base = trim_matches CHR ''/'' (s3_key config) in
     act_ok (map (\<lambda>e. e\<lparr>rm_key := strip_marker base (rm_key e)\<rparr>) entries)))"

section \<open>The multipart writer\<close>

record remote_writer =
  rw_destination :: string
  rw_upload :: "nat option"
  rw_cancellation :: cancellation_token
  rw_max_in_flight :: usize
  rw_active :: bool
  rw_bytes_written :: u64

definition open_multipart ::
  "'r remote_lib \<Rightarrow> remote_object \<Rightarrow> cancellation_token
   \<Rightarrow> ('r remote_world, native_failure, remote_writer) action" where
  "open_multipart L obj token =
     act_bind (remote_call L OpS3WriterOpen True
         (remote_put_multipart L (ro_path obj) (multipart_part_size (ro_config obj)))) (\<lambda>upload s.
       (s\<lparr>active_multipart := active_multipart s + 1\<rparr>,
        Ok \<lparr>rw_destination = ro_path obj, rw_upload = Some upload, rw_cancellation = token,
            rw_max_in_flight = max_in_flight_parts (ro_config obj), rw_active = True,
            rw_bytes_written = 0\<rparr>))"

type_synonym 'r remote_writer_world = "remote_writer \<times> 'r remote_world"

definition finish_active :: "'r remote_writer_world \<Rightarrow> 'r remote_writer_world" where
  "finish_active ws =
     (case ws of (w, s) \<Rightarrow>
        if rw_active w
        then (w\<lparr>rw_active := False\<rparr>, s\<lparr>active_multipart := active_multipart s - 1\<rparr>)
        else (w, s))"

definition multipart_publish ::
  "'r remote_lib \<Rightarrow> ('r remote_writer_world, native_failure, remote_metadata) action" where
  "multipart_publish L ws =
     (case ws of (w, s) \<Rightarrow>
        (case token_check (rw_cancellation w) OpS3WriterPublish of
           Inl e \<Rightarrow> ((w, s), Err e)
         | Inr _ \<Rightarrow>
        (case rw_upload w of
           None \<Rightarrow> ((w, s), Err (failure_cancelled OpS3WriterPublish))
         | Some upload \<Rightarrow>
        (case remote_call L OpS3WriterPublish True (remote_finish L upload) s of (s, completed) \<Rightarrow>
        (case finish_active (w\<lparr>rw_upload := None\<rparr>, s) of (w, s) \<Rightarrow>
        (case completed of
           Inl e \<Rightarrow> ((w, s), Err e)
         | Inr _ \<Rightarrow>
        (case remote_call L OpS3WriterPublish True (remote_head L (rw_destination w)) s of
           (s, Inl e) \<Rightarrow> ((w, s), Err e)
         | (s, Inr metadata) \<Rightarrow> ((w, s), Ok (remote_metadata_of metadata)))))))))"

definition multipart_abort :: "'r remote_lib \<Rightarrow> ('r remote_writer_world, native_failure, bool) action"
where
  "multipart_abort L ws =
     (case ws of (w, s) \<Rightarrow>
        if \<not> rw_active w then ((w, s), Ok False)
        else
          (let w = w\<lparr>rw_cancellation := token_cancel (rw_cancellation w)\<rparr>
           in case (case rw_upload w of
                      Some upload \<Rightarrow> remote_call L OpS3WriterAbort False (remote_abort L upload) s
                    | None \<Rightarrow> (s, Ok ())) of (s, result) \<Rightarrow>
                (finish_active (w\<lparr>rw_upload := None\<rparr>, s), and_then result (\<lambda>_. Ok True))))"

definition multipart_write ::
  "'r remote_lib \<Rightarrow> bytes \<Rightarrow> ('r remote_writer_world, io_error, usize) action" where
  "multipart_write L buffer ws =
     (case ws of (w, s) \<Rightarrow>
        if cancelled_flag (rw_cancellation w)
        then ((w, s), Err (IoOtherError ''S3 multipart write was cancelled''))
        else
          (case rw_upload w of
             None \<Rightarrow> ((w, s), Err (IoOtherError ''S3 multipart writer is closed''))
           | Some upload \<Rightarrow>
               if \<not> remote_runtime L
               then ((w, s), Err (IoOtherError ''S3 runtime is unavailable''))
               else
                 (case remote_race L (remote_state s) of (r, interrupted) \<Rightarrow>
                    if interrupted
                    then ((w, s\<lparr>remote_state := r\<rparr>),
                          Err (IoOtherError ''S3 multipart write was cancelled''))
                    else
                      (case remote_wait_capacity L upload (rw_max_in_flight w) r of
                         (r, Inl _) \<Rightarrow>
                           ((w, s\<lparr>remote_state := r\<rparr>),
                            Err (IoOtherError ''S3 multipart capacity failed''))
                       | (r, Inr _) \<Rightarrow>
                           ((w\<lparr>rw_bytes_written := rw_bytes_written w + vec_len buffer\<rparr>,
                             s\<lparr>remote_state := remote_write_part L upload buffer r\<rparr>),
                            Ok (vec_len buffer))))))"

definition multipart_flush :: "('r remote_writer_world, io_error, unit) action" where
  "multipart_flush ws =
     (case ws of (w, s) \<Rightarrow>
        (ws, if cancelled_flag (rw_cancellation w)
             then Err (IoOtherError ''S3 multipart write was cancelled'') else Ok ()))"

definition multipart_drop :: "'r remote_lib \<Rightarrow> 'r remote_writer_world \<Rightarrow> 'r remote_writer_world" where
  "multipart_drop L ws =
     (if rw_active (fst ws) then fst (multipart_abort L ws) else ws)"

definition s3_resource_snapshot ::
  "'r remote_world \<Rightarrow> usize \<times> usize \<times> usize \<times> u64 \<times> u64 \<times> u64" where
  "s3_resource_snapshot s =
     (active_requests s, peak_requests s, active_multipart s, range_requests s, range_bytes s,
      clients_created s)"

end
