(* ===== verification/Store.thy ===== *)
theory Store
  imports Local_Properties S3
begin

text \<open>
  The store resource (\<^verbatim>\<open>store.rs\<close>): one local directory or one S3 namespace behind the same
  operations, the validation of keys, the creation of parent directories, and the writer that
  dispatches to either backend.
\<close>

section \<open>State\<close>

record 'r store_world = local_world +
  s3_world :: "'r remote_world"
  store_sequence :: u64
  active_stores :: usize
  stores_created :: u64

record store_metadata =
  sm_path :: string
  sm_size :: u64
  sm_modified_unix_ns :: "u64 option"

datatype store_backend = LocalBackend "string list" | S3Backend s3_config

record store_resource =
  store_id :: u64
  store_backend_of :: store_backend

type_synonym ('r, 'a) store_action = "('r store_world, native_failure, 'a) action"

definition on_s3 :: "('r remote_world, 'e, 'a) action \<Rightarrow> ('r store_world, 'e, 'a) action" where
  "on_s3 m s = (case m (s3_world s) of (r, x) \<Rightarrow> (s\<lparr>s3_world := r\<rparr>, x))"

section \<open>Opening\<close>

definition store_new :: "store_backend \<Rightarrow> ('r, store_resource) store_action" where
  "store_new backend s =
     (s\<lparr>store_sequence := store_sequence s + 1, stores_created := stores_created s + 1,
        active_stores := active_stores s + 1\<rparr>,
      Ok \<lparr>store_id = store_sequence s, store_backend_of = backend\<rparr>)"

definition store_drop :: "'r store_world \<Rightarrow> 'r store_world" where
  "store_drop s = s\<lparr>active_stores := active_stores s - 1\<rparr>"

definition store_open_local :: "string \<Rightarrow> ('r, store_resource) store_action" where
  "store_open_local root =
     act_bind (map_io OpStoreOpen (fs_canonicalize (system_path root))) (\<lambda>root.
     act_bind (path_is_dir (RootDir # map Normal root)) (\<lambda>is_dir.
     if \<not> is_dir
     then act_err (failure_invalid OpStoreOpen ''local store root must be a directory'')
     else store_new (LocalBackend root)))"

definition store_open_s3 :: "'r remote_lib \<Rightarrow> s3_config \<Rightarrow> ('r, store_resource) store_action" where
  "store_open_s3 L config =
     act_bind (on_s3 (build_store L config)) (\<lambda>_. store_new (S3Backend config))"

section \<open>Keys\<close>

definition is_normal :: "path_component \<Rightarrow> bool" where
  "is_normal c = (case c of Normal _ \<Rightarrow> True | _ \<Rightarrow> False)"

definition validate_key :: "string \<Rightarrow> bool \<Rightarrow> unit native_result" where
  "validate_key key allow_empty =
     (if (key = [] \<and> allow_empty) \<or>
         (key \<noteq> [] \<and> \<not> starts_with key ''/'' \<and> \<not> starts_with key [CHR 0x5C] \<and>
          CHR 0x5C \<notin> set key \<and> list_all is_normal (path_components key))
      then Ok ()
      else Err (failure_invalid OpStoreOpen ''object key must be a normalized relative path''))"

definition local_location :: "string list \<Rightarrow> string \<Rightarrow> object_location" where
  "local_location root key =
     \<lparr>location_key = path_join (path_string root) key,
      location_allowed_root = Some (path_string root)\<rparr>"

definition component_string :: "path_component \<Rightarrow> string" where
  "component_string c =
     (case c of RootDir \<Rightarrow> ''/'' | CurDir \<Rightarrow> ''.'' | ParentDir \<Rightarrow> ''..'' | Normal n \<Rightarrow> n)"

definition components_string :: "path_component list \<Rightarrow> string" where
  "components_string cs = join_with CHR ''/'' (map component_string cs)"

definition local_metadata :: "string list \<Rightarrow> object_metadata \<Rightarrow> store_metadata native_result" where
  "local_metadata root metadata =
     (let cs = path_components (object_path metadata); base = RootDir # map Normal root in
      if is_prefix_of base cs
      then Ok \<lparr>sm_path = components_string (drop (length base) cs), sm_size = object_size metadata,
              sm_modified_unix_ns = object_modified_unix_ns metadata\<rparr>
      else Err (failure_invalid OpStoreHead ''invalid local object path''))"

definition s3_metadata :: "string \<Rightarrow> remote_metadata \<Rightarrow> store_metadata" where
  "s3_metadata key m =
     \<lparr>sm_path = key, sm_size = rm_size m, sm_modified_unix_ns = rm_modified_unix_ns m\<rparr>"

section \<open>Operations\<close>

definition store_head ::
  "'r remote_lib \<Rightarrow> store_resource \<Rightarrow> string \<Rightarrow> ('r, store_metadata) store_action" where
  "store_head L store key =
     act_bind (act_lift (validate_key key False)) (\<lambda>_.
     case store_backend_of store of
       LocalBackend root \<Rightarrow>
         act_bind (local_head (local_location root key) token_default) (\<lambda>m.
         act_lift (local_metadata root m))
     | S3Backend config \<Rightarrow>
         act_bind (act_lift (store_object L config key)) (\<lambda>obj.
         act_bind (on_s3 (object_head L obj token_default OpStoreHead)) (\<lambda>m.
         act_ok (s3_metadata key m))))"

text \<open>On a 64-bit target the conversion of the length to \<^verbatim>\<open>usize\<close> never fails.\<close>

definition store_read_range ::
  "'r remote_lib \<Rightarrow> store_resource \<Rightarrow> string \<Rightarrow> u64 \<Rightarrow> u64 \<Rightarrow> ('r, bytes) store_action" where
  "store_read_range L store key offset len =
     act_bind (act_lift (validate_key key False)) (\<lambda>_.
     case store_backend_of store of
       LocalBackend root \<Rightarrow>
         local_read_range (local_location root key)
           \<lparr>range_offset = offset, range_length = len\<rparr> token_default
     | S3Backend config \<Rightarrow>
         act_bind (act_lift (store_object L config key)) (\<lambda>obj.
         on_s3 (object_read_range L obj offset len token_default OpStoreReadRange)))"

definition store_local_list ::
  "string list \<Rightarrow> string \<Rightarrow> cancellation_token \<Rightarrow> ('r, object_metadata list) store_action" where
  "store_local_list root prefix token =
     (if prefix = [] then local_list (local_location root []) [] token
      else (\<lambda>s.
        case fs_metadata (system_path (path_join (path_string root) prefix)) s of
          (s, Inr info) \<Rightarrow>
            (case info_kind info of
               KindDir \<Rightarrow> local_list (local_location root prefix) [] token s
             | KindFile \<Rightarrow>
                 act_bind (local_head (local_location root prefix) token) (\<lambda>m. act_ok [m]) s
             | KindLink \<Rightarrow> (s, Ok []))
        | (s, Inl kind) \<Rightarrow>
            if kind = IoNotFound then
              (case path_parent (path_components prefix) of
                 None \<Rightarrow> (s, Ok [])
               | Some parent \<Rightarrow>
                   act_bind
                     (path_is_dir (system_path (path_join (path_string root)
                        (components_string parent)))) (\<lambda>is_dir.
                   if \<not> is_dir then act_ok []
                   else
                     local_list (local_location root (components_string parent))
                       (case path_file_name (path_components prefix) of None \<Rightarrow> [] | Some n \<Rightarrow> n)
                       token) s)
            else (s, Err (from_io OpStoreList kind))))"

definition store_list ::
  "'r remote_lib \<Rightarrow> store_resource \<Rightarrow> string \<Rightarrow> ('r, store_metadata list) store_action" where
  "store_list L store prefix =
     act_bind (act_lift (validate_key prefix True)) (\<lambda>_.
     case store_backend_of store of
       LocalBackend root \<Rightarrow>
         act_bind (store_local_list root prefix token_default) (\<lambda>entries.
         act_lift (collect_results (map (local_metadata root) entries)))
     | S3Backend config \<Rightarrow>
         act_bind (on_s3 (remote_store_list L config prefix token_default)) (\<lambda>entries.
         act_ok (map (\<lambda>m. s3_metadata (rm_key m) m) entries)))"

definition store_delete :: "'r remote_lib \<Rightarrow> store_resource \<Rightarrow> string \<Rightarrow> ('r, unit) store_action" where
  "store_delete L store key =
     act_bind (act_lift (validate_key key False)) (\<lambda>_.
     case store_backend_of store of
       LocalBackend root \<Rightarrow> local_delete (local_location root key) token_default
     | S3Backend config \<Rightarrow>
         act_bind (act_lift (store_object L config key)) (\<lambda>obj.
         on_s3 (object_delete L obj token_default)))"

fun ensure_parts :: "string list \<Rightarrow> path_component list \<Rightarrow> ('r, unit) store_action" where
  "ensure_parts current [] s = (s, Ok ())"
| "ensure_parts current (part # parts) s =
     (case part of
        Normal name \<Rightarrow>
          (case fs_symlink_metadata (current @ [name]) s of
             (s, Inr info) \<Rightarrow>
               if info_kind info = KindLink
               then (s, Err (failure_invalid OpStoreWriterOpen
                      ''local object parent cannot contain symlinks''))
               else if info_kind info \<noteq> KindDir
               then (s, Err (failure_invalid OpStoreWriterOpen
                      ''local object parent must be a directory''))
               else ensure_parts (current @ [name]) parts s
           | (s, Inl kind) \<Rightarrow>
               if kind = IoNotFound then
                 (case fs_create_dir (current @ [name]) s of
                    (s, Inr _) \<Rightarrow> ensure_parts (current @ [name]) parts s
                  | (s, Inl k) \<Rightarrow> (s, Err (from_io OpStoreWriterOpen k)))
               else (s, Err (from_io OpStoreWriterOpen kind)))
      | _ \<Rightarrow> ensure_parts current parts s)"

definition ensure_local_parent :: "string list \<Rightarrow> string \<Rightarrow> ('r, unit) store_action" where
  "ensure_local_parent root key =
     ensure_parts root
       (case path_parent (path_components key) of None \<Rightarrow> [] | Some parent \<Rightarrow> parent)"

definition store_multipart_buffer_limit :: "store_resource \<Rightarrow> usize" where
  "store_multipart_buffer_limit store =
     (case store_backend_of store of
        LocalBackend _ \<Rightarrow> 0
      | S3Backend config \<Rightarrow> s3_multipart_buffer_limit config)"

section \<open>The writer\<close>

datatype store_writer =
    LocalStoreWriter local_writer "string list"
  | S3StoreWriter remote_writer string

type_synonym 'r store_writer_world = "store_writer \<times> 'r store_world"

definition store_open_writer ::
  "'r remote_lib \<Rightarrow> store_resource \<Rightarrow> string \<Rightarrow> flush_policy \<Rightarrow> sync_policy \<Rightarrow> cancellation_token
   \<Rightarrow> ('r, store_writer) store_action" where
  "store_open_writer L store key flush sync token =
     act_bind (act_lift (validate_key key False)) (\<lambda>_.
     case store_backend_of store of
       LocalBackend root \<Rightarrow>
         act_bind (ensure_local_parent root key) (\<lambda>_.
         act_bind (local_stage (local_location root key)
             \<lparr>option_flush = flush, option_sync = sync\<rparr> token) (\<lambda>w.
         act_ok (LocalStoreWriter w root)))
     | S3Backend config \<Rightarrow>
         act_bind (act_lift (store_object L config key)) (\<lambda>obj.
         act_bind (on_s3 (open_multipart L obj token)) (\<lambda>w.
         act_ok (S3StoreWriter w key))))"

definition on_local_writer ::
  "string list \<Rightarrow> local_writer \<Rightarrow> (local_writer \<times> 'r store_world, 'e, 'a) action \<Rightarrow> 'r store_world
   \<Rightarrow> 'r store_writer_world \<times> ('e + 'a)" where
  "on_local_writer root w m s =
     (case m (w, s) of ((w, s), r) \<Rightarrow> ((LocalStoreWriter w root, s), r))"

definition on_s3_writer ::
  "string \<Rightarrow> remote_writer \<Rightarrow> (remote_writer \<times> 'r remote_world, 'e, 'a) action \<Rightarrow> 'r store_world
   \<Rightarrow> 'r store_writer_world \<times> ('e + 'a)" where
  "on_s3_writer key w m s =
     (case m (w, s3_world s) of ((w, r), x) \<Rightarrow> ((S3StoreWriter w key, s\<lparr>s3_world := r\<rparr>), x))"

definition store_writer_write ::
  "'r remote_lib \<Rightarrow> bytes \<Rightarrow> ('r store_writer_world, native_failure, usize) action" where
  "store_writer_write L bs ws =
     (case ws of (w, s) \<Rightarrow>
        (case w of
           LocalStoreWriter w root \<Rightarrow> on_local_writer root w (writer_write bs) s
         | S3StoreWriter w key \<Rightarrow>
             on_s3_writer key w
               (act_map_err (\<lambda>_. failure_expected OpStoreWriterWrite ''write failed'')
                 (multipart_write L bs)) s))"

definition store_writer_publish ::
  "'r remote_lib \<Rightarrow> ('r store_writer_world, native_failure, store_metadata) action" where
  "store_writer_publish L ws =
     (case ws of (w, s) \<Rightarrow>
        (case w of
           LocalStoreWriter w root \<Rightarrow>
             (case on_local_writer root w writer_publish s of (ws, r) \<Rightarrow>
                (ws, and_then r (local_metadata root)))
         | S3StoreWriter w key \<Rightarrow>
             (case on_s3_writer key w (multipart_publish L) s of (ws, r) \<Rightarrow>
                (ws, and_then r (\<lambda>m. Ok (s3_metadata key m))))))"

definition store_writer_abort ::
  "'r remote_lib \<Rightarrow> ('r store_writer_world, native_failure, bool) action" where
  "store_writer_abort L ws =
     (case ws of (w, s) \<Rightarrow>
        (case w of
           LocalStoreWriter w root \<Rightarrow> on_local_writer root w writer_abort s
         | S3StoreWriter w key \<Rightarrow> on_s3_writer key w (multipart_abort L) s))"

definition store_io_write ::
  "'r remote_lib \<Rightarrow> bytes \<Rightarrow> ('r store_writer_world, io_error, usize) action" where
  "store_io_write L bs =
     act_map_err (\<lambda>_. IoOtherError ''staged store write failed'') (store_writer_write L bs)"

definition store_io_flush :: "('r store_writer_world, io_error, unit) action" where
  "store_io_flush ws =
     (case ws of (w, s) \<Rightarrow>
        (case w of
           LocalStoreWriter w root \<Rightarrow> on_local_writer root w writer_io_flush s
         | S3StoreWriter w key \<Rightarrow> on_s3_writer key w multipart_flush s))"

text \<open>The destructors of the two writers.\<close>

definition store_writer_drop :: "'r remote_lib \<Rightarrow> 'r store_writer_world \<Rightarrow> 'r store_writer_world" where
  "store_writer_drop L ws =
     (case ws of (w, s) \<Rightarrow>
        (case w of
           LocalStoreWriter w root \<Rightarrow>
             (case writer_drop (w, s) of (w, s) \<Rightarrow> (LocalStoreWriter w root, s))
         | S3StoreWriter w key \<Rightarrow>
             (case multipart_drop L (w, s3_world s) of (w, r) \<Rightarrow>
                (S3StoreWriter w key, s\<lparr>s3_world := r\<rparr>))))"

definition store_resource_snapshot :: "'r store_world \<Rightarrow> usize \<times> u64" where
  "store_resource_snapshot s = (active_stores s, stores_created s)"

end
