(* ===== verification/Store_Proofs.thy ===== *)
theory Store_Proofs
  imports Store
begin

text \<open>
  Facts about the local side of the store resource: which keys are accepted, the path a key
  names, the creation of parent directories, and the evaluation of the operations when nothing
  fails.
\<close>

section \<open>Keys and paths\<close>

definition plain_name :: "string \<Rightarrow> bool" where
  "plain_name n \<longleftrightarrow> n \<noteq> [] \<and> n \<noteq> ''.'' \<and> n \<noteq> ''..'' \<and> CHR ''/'' \<notin> set n"

text \<open>The names a key consists of; empty segments and dots are skipped by \<^verbatim>\<open>Path\<close>.\<close>

definition key_names :: "string \<Rightarrow> string list" where
  "key_names key = filter (\<lambda>p. p \<noteq> [] \<and> p \<noteq> ''.'') (split_on CHR ''/'' key)"

lemma split_on_sep: "split_on c (c # s) = [] # split_on c s"
  using split_on_append [of c "[]" s] by simp

lemma split_on_join_then:
  assumes "xs \<noteq> []" and "\<And>x. x \<in> set xs \<Longrightarrow> c \<notin> set x"
  shows "split_on c (join_with c xs @ c # s) = xs @ split_on c s"
  using assms
proof (induction xs rule: join_with.induct)
  case (2 c x)
  then show ?case by (simp add: split_on_append)
next
  case (3 c x y ys)
  have "split_on c (x @ c # (join_with c (y # ys) @ c # s)) =
      x # split_on c (join_with c (y # ys) @ c # s)"
    by (rule split_on_append) (use 3 in simp)
  with 3 show ?case by simp
qed simp

lemma plain_filter: "list_all plain_name ns \<Longrightarrow> filter (\<lambda>p. p \<noteq> [] \<and> p \<noteq> ''.'') ns = ns"
  by (induction ns) (auto simp: plain_name_def)

lemma plain_components: "list_all plain_name ns \<Longrightarrow> map part_component ns = map Normal ns"
  by (induction ns) (auto simp: plain_name_def part_component_def)

lemma plain_separator: "list_all plain_name ns \<Longrightarrow> x \<in> set ns \<Longrightarrow> CHR ''/'' \<notin> set x"
  by (auto simp: list_all_iff plain_name_def)

lemma components_rooted:
  "path_components (CHR ''/'' # s) = RootDir # map part_component (key_names s)"
  by (simp add: path_components_def split_on_sep starts_with_iff key_names_def)

lemma key_names_join:
  assumes "list_all plain_name ns"
  shows "key_names (join_with CHR ''/'' ns) = ns"
proof (cases "ns = []")
  case False
  then have "split_on CHR ''/'' (join_with CHR ''/'' ns) = ns"
    using plain_separator [OF assms] by (rule split_on_join)
  then show ?thesis using plain_filter [OF assms] by (simp add: key_names_def)
qed (simp add: key_names_def)

lemma path_string_components:
  "list_all plain_name ns \<Longrightarrow> path_components (path_string ns) = RootDir # map Normal ns"
  by (simp add: path_string_def components_rooted key_names_join plain_components)

lemma join_with_last:
  "x \<noteq> [] \<Longrightarrow> join_with c (xs @ [x]) \<noteq> [] \<and> last (join_with c (xs @ [x])) = last x"
proof (induction xs)
  case (Cons y xs)
  then show ?case by (cases "xs @ [x]") simp_all
qed simp

lemma join_string:
  assumes "list_all plain_name root" and "\<not> starts_with key ''/''"
  shows "path_join (path_string root) key =
    CHR ''/'' # (if root = [] then key else join_with CHR ''/'' root @ CHR ''/'' # key)"
proof (cases "root = []")
  case True
  then show ?thesis using assms(2) by (simp add: path_join_def path_string_def)
next
  case False
  obtain rs r where r: "root = rs @ [r]" using False by (cases root rule: rev_cases) auto
  have r': "r \<noteq> []" "CHR ''/'' \<notin> set r" using assms(1) r by (auto simp: plain_name_def)
  then have "last r \<noteq> CHR ''/''" using last_in_set [of r] by metis
  then have "last (path_string root) \<noteq> CHR ''/''"
    using join_with_last [OF r'(1)] r by (simp add: path_string_def)
  then show ?thesis using assms(2) False by (simp add: path_join_def path_string_def)
qed

lemma join_components:
  assumes "list_all plain_name root" and "\<not> starts_with key ''/''"
  shows "path_components (path_join (path_string root) key) =
    RootDir # map part_component (root @ key_names key)"
proof (cases "root = []")
  case True
  then show ?thesis using join_string [OF assms] by (simp add: components_rooted)
next
  case False
  then have "key_names (join_with CHR ''/'' root @ CHR ''/'' # key) = root @ key_names key"
    using split_on_join_then [OF False plain_separator [OF assms(1)], of key] plain_filter [OF assms(1)]
    by (simp add: key_names_def)
  then show ?thesis using join_string [OF assms] False by (simp add: components_rooted)
qed

text \<open>Whether a joined path demands a directory depends on the key alone.\<close>

lemma join_names_directory:
  assumes "list_all plain_name root" and "\<not> starts_with key ''/''" and "key \<noteq> []"
  shows "names_directory (path_join (path_string root) key) = names_directory key"
proof (cases "root = []")
  case True
  then show ?thesis using join_string [OF assms(1,2)] assms(3) by (simp add: names_directory_def split_on_sep)
next
  case False
  then show ?thesis
    using join_string [OF assms(1,2)] split_on_join_then [OF False plain_separator [OF assms(1)], of key] assms(3)
    by (simp add: names_directory_def split_on_sep)
qed

text \<open>The paths the system resolves to a directory.\<close>

definition dir_path :: "path_component list \<Rightarrow> string list \<Rightarrow> bool" where
  "dir_path cs p \<longleftrightarrow> cs = RootDir # map Normal p \<or> cs = RootDir # map Normal p @ [CurDir]"

lemma system_dir_path: "path_components s = RootDir # map Normal p \<Longrightarrow> dir_path (system_path s) p"
  by (simp add: dir_path_def system_path_def)

lemma key_names_plain: "''..'' \<notin> set (key_names key) \<Longrightarrow> list_all plain_name (key_names key)"
  by (auto simp: list_all_iff plain_name_def key_names_def dest: split_on_parts)

lemma validate_key_Ok:
  assumes "validate_key key False = Ok ()"
  shows "\<not> starts_with key ''/'' \<and> key_names key \<noteq> [] \<and> list_all plain_name (key_names key) \<and>
    path_components key = map Normal (key_names key)"
proof -
  have ne: "key \<noteq> []" and slash: "\<not> starts_with key ''/''"
    and norm: "list_all is_normal (path_components key)"
    using assms by (auto simp: validate_key_def split: if_splits)
  let ?parts = "split_on CHR ''/'' key"
  have dot: "hd ?parts \<noteq> ''.''"
    using norm slash by (auto simp: path_components_def is_normal_def)
  then have c: "path_components key = map part_component (key_names key)"
    using slash by (simp add: path_components_def key_names_def)
  have "''..'' \<notin> set (key_names key)"
    using norm c by (auto simp: list_all_iff part_component_def is_normal_def)
  then have plain: "list_all plain_name (key_names key)" by (rule key_names_plain)
  have "hd ?parts \<noteq> []"
  proof
    assume e: "hd ?parts = []"
    obtain ps where ps: "?parts = [] # ps" using e split_on_nonempty by (metis list.exhaust_sel)
    have "join_with CHR ''/'' ?parts = key" by (rule join_split_on)
    with ps ne slash show False by (cases ps) (auto simp: starts_with_iff)
  qed
  with dot have "hd ?parts \<in> set (key_names key)" by (simp add: key_names_def)
  then have "key_names key \<noteq> []" by auto
  then show ?thesis using slash plain c plain_components [OF plain] by simp
qed

text \<open>Repeated separators, inner dots and a final separator do not make a key invalid.\<close>

lemma unnormalized_key_accepted:
  "validate_key ''a//b'' False = Ok ()" "validate_key ''a/./b'' False = Ok ()"
  "validate_key ''a/'' False = Ok () \<and> names_directory ''a/''"
  "validate_key ''a/.'' False = Ok () \<and> names_directory ''a/.''"
  by code_simp+

lemma local_location_components:
  assumes "list_all plain_name root" and "validate_key key False = Ok ()"
  shows "path_components (location_key (local_location root key)) =
    RootDir # map Normal (root @ key_names key)"
proof -
  have "list_all plain_name (root @ key_names key)" using validate_key_Ok [OF assms(2)] assms(1) by simp
  from plain_components [OF this] show ?thesis
    using join_components [OF assms(1)] validate_key_Ok [OF assms(2)] by (simp add: local_location_def)
qed

lemma local_location_directory:
  assumes "list_all plain_name root" and "validate_key key False = Ok ()"
  shows "names_directory (location_key (local_location root key)) = names_directory key"
proof -
  have "key \<noteq> []" using assms(2) by (auto simp: validate_key_def)
  then show ?thesis
    using join_names_directory [OF assms(1)] validate_key_Ok [OF assms(2)] by (simp add: local_location_def)
qed

lemma components_string_plain:
  "components_string (map Normal ns) = join_with CHR ''/'' ns"
  by (simp add: components_string_def component_string_def comp_def)

lemma local_metadata_plain:
  assumes "list_all plain_name (root @ ns)" and "object_path md = path_string (root @ ns)"
  shows "local_metadata root md =
    Ok \<lparr>sm_path = join_with CHR ''/'' ns, sm_size = object_size md,
        sm_modified_unix_ns = object_modified_unix_ns md\<rparr>"
  using path_string_components [OF assms(1)] assms(2)
  by (simp add: local_metadata_def is_prefix_of_def Let_def components_string_plain)

section \<open>Parent directories\<close>

text \<open>Adding directories where nothing was.\<close>

definition add_dirs :: "string list list \<Rightarrow> 'z filesystem_scheme \<Rightarrow> 'z filesystem_scheme" where
  "add_dirs ds s = s\<lparr>entries := map (\<lambda>p. (p, DirEntry)) ds @ entries s\<rparr>"

lemma lookup_add_dirs: "lookup (add_dirs ds s) p = (if p \<in> set ds then Some DirEntry else lookup s p)"
  by (induction ds) (auto simp: add_dirs_def lookup_def)

lemma add_dirs_simps [simp]:
  "add_dirs [] s = s" "add_dirs ds (add_dirs es s) = add_dirs (ds @ es) s"
  "fs_faults (add_dirs ds s) = fs_faults s" "inodes (add_dirs ds s) = inodes s"
  "next_inode (add_dirs ds s) = next_inode s" "fs_cwd (add_dirs ds s) = fs_cwd s"
  "(add_dirs ds s)\<lparr>fs_faults := fl\<rparr> = add_dirs ds (s\<lparr>fs_faults := fl\<rparr>)"
  by (simp_all add: add_dirs_def)

lemma add_dirs_local [simp]:
  "process_id (add_dirs ds s) = process_id s" "stage_sequence (add_dirs ds s) = stage_sequence s"
  "active_writers (add_dirs ds s) = active_writers s" "bytes_read (add_dirs ds s) = bytes_read s"
  by (simp_all add: add_dirs_def)

lemma file_at_add_dirs:
  "(\<And>p. p \<in> set ds \<Longrightarrow> lookup s p = None) \<Longrightarrow> file_at (add_dirs ds s) = file_at s"
  by (auto simp: file_at_def lookup_add_dirs fun_eq_iff split: option.splits entry.splits)

lemma add_dir_single: "s\<lparr>entries := (p, DirEntry) # entries s\<rparr> = add_dirs [p] s"
  by (simp add: add_dirs_def)

lemma tree_ok_add_dir:
  "tree_ok s \<Longrightarrow> parent_is_dir s p \<Longrightarrow> lookup s p = None \<Longrightarrow> tree_ok (add_dirs [p] s)"
  by (rule tree_ok_add [where s = s and p = p and e = DirEntry])
    (auto simp: lookup_add_dirs fun_eq_iff)

lemma ensure_parts_grown:
  "ensure_parts cur ps s = (t, r) \<Longrightarrow>
     \<exists>fl ds. t = (add_dirs ds s)\<lparr>fs_faults := fl\<rparr> \<and>
       (\<forall>p \<in> set ds. lookup s p = None \<and> is_prefix_of cur p)"
proof (induction ps arbitrary: cur s)
  case Nil
  then show ?case by (intro exI [of _ "fs_faults s"] exI [of _ "[]"]) auto
next
  case (Cons part ps)
  have wider: "is_prefix_of cur p" if "is_prefix_of (cur @ [n]) p" for p n
    using that by (auto simp: is_prefix_of_iff)
  have none: ?case if "t = s\<lparr>fs_faults := fl\<rparr>" for fl
    using that by (intro exI [of _ fl] exI [of _ "[]"]) simp
  show ?case
  proof (cases part)
    case (Normal n)
    obtain u q where q: "fs_symlink_metadata (cur @ [n]) s = (u, q)" by fastforce
    obtain fl where u: "u = s\<lparr>fs_faults := fl\<rparr>" using quietD [OF quiet_calls(4) q] by blast
    obtain v k where k: "fs_create_dir (cur @ [n]) u = (v, k)" by fastforce
    have next_dir: ?thesis if rec: "ensure_parts (cur @ [n]) ps w = (t, r)"
      and w: "w = s\<lparr>fs_faults := fl'\<rparr> \<or>
        (w = (add_dirs [cur @ [n]] s)\<lparr>fs_faults := fl'\<rparr> \<and> lookup s (cur @ [n]) = None)" for w fl'
    proof -
      obtain fl2 ds where d: "t = (add_dirs ds w)\<lparr>fs_faults := fl2\<rparr>"
        "\<forall>p \<in> set ds. lookup w p = None \<and> is_prefix_of (cur @ [n]) p"
        using Cons.IH [OF rec] by blast
      from w show ?thesis
      proof
        assume "w = s\<lparr>fs_faults := fl'\<rparr>"
        then show ?thesis using d wider by (intro exI [of _ fl2] exI [of _ ds]) auto
      next
        assume w: "w = (add_dirs [cur @ [n]] s)\<lparr>fs_faults := fl'\<rparr> \<and> lookup s (cur @ [n]) = None"
        then have "\<forall>p \<in> set (ds @ [cur @ [n]]). lookup s p = None \<and> is_prefix_of cur p"
          using d wider by (auto simp: lookup_add_dirs is_prefix_of_iff split: if_splits)
        moreover have "t = (add_dirs (ds @ [cur @ [n]]) s)\<lparr>fs_faults := fl2\<rparr>"
          using w d by (simp add: add_dirs_def)
        ultimately show ?thesis by blast
      qed
    qed
    show ?thesis
    proof (cases q)
      case (Inr info)
      then show ?thesis
        using Cons.prems Normal q u none next_dir [of u fl] by (auto split: if_splits)
    next
      case (Inl kind)
      from k show ?thesis
      proof (cases rule: create_dir_cases)
        case (fault fl' e)
        then show ?thesis
          using Cons.prems Normal q u Inl k none by (auto split: if_splits)
      next
        case (ok fl')
        then have "v = (add_dirs [cur @ [n]] s)\<lparr>fs_faults := fl'\<rparr>" "lookup s (cur @ [n]) = None"
          using u by (simp_all add: add_dirs_def)
        then show ?thesis
          using Cons.prems Normal q u Inl k ok(1) none next_dir [of v fl'] by (auto split: if_splits)
      qed
    qed
  qed (use Cons in auto)
qed

lemma ensure_parts_ok:
  assumes "fs_faults s = []" and "tree_ok s" and "lookup s cur = Some DirEntry"
    and "\<And>k. k \<le> length ns \<Longrightarrow>
      lookup s (cur @ take k ns) = None \<or> lookup s (cur @ take k ns) = Some DirEntry"
  shows "\<exists>ds. ensure_parts cur (map Normal ns) s = (add_dirs ds s, Ok ()) \<and>
    (\<forall>p \<in> set ds. lookup s p = None \<and> length p \<le> length (cur @ ns)) \<and>
    tree_ok (add_dirs ds s) \<and> lookup (add_dirs ds s) (cur @ ns) = Some DirEntry"
  using assms
proof (induction ns arbitrary: cur s)
  case Nil
  then show ?case by (intro exI [of _ "[]"]) simp
next
  case (Cons n ns)
  have sub: "lookup s ((cur @ [n]) @ take k ns) = None \<or> lookup s ((cur @ [n]) @ take k ns) = Some DirEntry"
    if "k \<le> length ns" for k
    using Cons.prems(4) [of "Suc k"] that by simp
  show ?case
  proof (cases "lookup s (cur @ [n])")
    case None
    let ?s = "add_dirs [cur @ [n]] s"
    have p: "parent_is_dir s (cur @ [n])" using Cons.prems(3) by (simp add: parent_is_dir_def)
    have "fs_symlink_metadata (cur @ [n]) s = (s, Err IoNotFound)"
      "fs_create_dir (cur @ [n]) s = (?s, Ok ())"
      using None p Cons.prems(1)
      by (simp_all add: fs_symlink_metadata_def query_no_fault fs_create_dir_def syscall_no_fault
          add_dir_single)
    then have step: "ensure_parts cur (map Normal (n # ns)) s =
        ensure_parts (cur @ [n]) (map Normal ns) ?s" by simp
    have pre: "lookup ?s ((cur @ [n]) @ take k ns) = None \<or>
        lookup ?s ((cur @ [n]) @ take k ns) = Some DirEntry" if "k \<le> length ns" for k
      using sub [OF that] by (simp add: lookup_add_dirs)
    obtain ds where ds: "ensure_parts (cur @ [n]) (map Normal ns) ?s = (add_dirs ds ?s, Ok ())"
      "\<forall>p \<in> set ds. lookup ?s p = None \<and> length p \<le> length ((cur @ [n]) @ ns)"
      "tree_ok (add_dirs ds ?s)" "lookup (add_dirs ds ?s) ((cur @ [n]) @ ns) = Some DirEntry"
      using Cons.IH [OF _ tree_ok_add_dir [OF Cons.prems(2) p None] _ pre] Cons.prems(1)
      by (auto simp: lookup_add_dirs)
    have "\<forall>p \<in> set (ds @ [cur @ [n]]). lookup s p = None \<and> length p \<le> length (cur @ n # ns)"
      using ds(2) None by (auto simp: lookup_add_dirs split: if_splits)
    then show ?thesis using ds step by (intro exI [of _ "ds @ [cur @ [n]]"]) simp
  next
    case (Some e)
    then have d: "lookup s (cur @ [n]) = Some DirEntry" using sub [of 0] by simp
    then have "fs_symlink_metadata (cur @ [n]) s = (s, Ok (info_of s DirEntry))"
      using Cons.prems(1) by (simp add: fs_symlink_metadata_def query_no_fault)
    then have step: "ensure_parts cur (map Normal (n # ns)) s =
        ensure_parts (cur @ [n]) (map Normal ns) s" by (simp add: info_of_def)
    show ?thesis using Cons.IH [OF Cons.prems(1,2) d sub] step by auto
  qed
qed

section \<open>Evaluation when nothing fails\<close>

lemma canonicalize_dir:
  assumes "fs_faults s = []" and "tree_ok s" and "lookup s p = Some DirEntry" and "dir_path cs p"
  shows "fs_canonicalize cs s = (s, Ok p)"
  using assms(1,3,4) tree_resolve(1) [OF assms(2)] tree_resolve_directory(1) [OF assms(2)]
  by (auto simp: fs_canonicalize_def query_no_fault dir_path_def simp del: resolve_path.simps)

text \<open>A location beneath an existing root.\<close>

definition beneath :: "object_location \<Rightarrow> string list \<Rightarrow> string list \<Rightarrow> 'z filesystem_scheme \<Rightarrow> bool" where
  "beneath location root ns s \<longleftrightarrow>
     (\<exists>r. location_allowed_root location = Some r \<and> dir_path (system_path r) root) \<and>
     path_components (location_key location) = RootDir # map Normal (root @ ns) \<and>
     lookup s root = Some DirEntry"

lemma beneath_location:
  "list_all plain_name root \<Longrightarrow> validate_key key False = Ok () \<Longrightarrow> lookup s root = Some DirEntry \<Longrightarrow>
     beneath (local_location root key) root (key_names key) s"
  using local_location_components [of root key] system_dir_path [OF path_string_components [of root]]
  by (simp add: beneath_def local_location_def)

lemma enforce_ok:
  assumes "fs_faults s = []" and "tree_ok s" and "beneath location root ns s"
  shows "enforce_allowed_root location (root @ p) operation s = (s, Ok ())"
  using assms canonicalize_dir [OF assms(1,2)]
  by (auto simp: beneath_def enforce_allowed_root_def canonical_allowed_root_def act_map_err_def
      act_bind_def is_prefix_of_def)

lemma destination_ok:
  assumes nf: "fs_faults s = []" and tree: "tree_ok s" and loc: "beneath location root (ns @ [n]) s"
    and dir: "lookup s (root @ ns) = Some DirEntry"
  shows "resolve_destination location operation s = (s, Ok ((root @ ns) @ [n]))"
proof -
  have c: "path_components (location_key location) = (RootDir # map Normal (root @ ns)) @ [Normal n]"
    using loc by (simp add: beneath_def)
  then have "path_parent (path_components (location_key location)) = Some (RootDir # map Normal (root @ ns))"
    "path_file_name (path_components (location_key location)) = Some n"
    unfolding path_parent_def path_file_name_def by (simp_all add: butlast_append)
  then show ?thesis
    using canonicalize_dir [OF nf tree dir, of "RootDir # map Normal (root @ ns)"] enforce_ok [OF nf tree loc]
    by (simp add: resolve_destination_def act_map_err_def act_bind_def dir_path_def)
qed

lemma existing_ok:
  assumes nf: "fs_faults s = []" and tree: "tree_ok s" and loc: "beneath location root ns s"
    and obj: "lookup s (root @ ns) = Some (FileEntry i)"
    and plain: "\<not> names_directory (location_key location)"
  shows "resolve_existing location operation s = (s, Ok (root @ ns))"
proof -
  have "fs_canonicalize (system_path (location_key location)) s = (s, Ok (root @ ns))"
    using tree_resolve(1) [OF tree disjI1 [OF obj]] loc nf plain
    by (simp add: fs_canonicalize_def query_no_fault beneath_def system_path_def del: resolve_path.simps)
  then show ?thesis
    using enforce_ok [OF nf tree loc] by (simp add: resolve_existing_def act_map_err_def act_bind_def)
qed

text \<open>A path that demands a directory does not reach a file.\<close>

lemma existing_not_directory:
  assumes nf: "fs_faults s = []" and tree: "tree_ok s" and loc: "beneath location root ns s"
    and obj: "lookup s (root @ ns) = Some (FileEntry i)"
    and dir: "names_directory (location_key location)"
  shows "resolve_existing location operation s = (s, Err (from_io operation IoOther))"
proof -
  have "fs_canonicalize (system_path (location_key location)) s = (s, Err IoOther)"
    using tree_resolve_directory(2) [OF tree obj] loc nf dir
    by (simp add: fs_canonicalize_def query_no_fault beneath_def system_path_def del: resolve_path.simps)
  then show ?thesis by (simp add: resolve_existing_def act_map_err_def act_bind_def)
qed

lemma head_ok:
  assumes nf: "fs_faults s = []" and tree: "tree_ok s" and loc: "beneath location root ns s"
    and obj: "lookup s (root @ ns) = Some (FileEntry i)"
    and plain: "\<not> names_directory (location_key location)"
  shows "\<exists>md. local_head location token_default s = (s, Ok md) \<and>
    object_path md = path_string (root @ ns) \<and>
    object_size md = word_of_nat (length (file_bytes (inodes s i)))"
proof -
  obtain md where md: "metadata_for (root @ ns) OpHead s = (s, Ok md)"
    using metadata_ok [OF nf tree obj] by blast
  then show ?thesis
    using metadata_for_Ok [OF md tree obj] existing_ok [OF nf tree loc obj plain]
    by (simp add: local_head_def act_bind_def token_check_def token_default_def)
qed

lemma read_ok:
  assumes nf: "fs_faults s = []" and tree: "tree_ok s" and loc: "beneath location root ns s"
    and obj: "lookup s (root @ ns) = Some (FileEntry i)"
    and small: "length (file_bytes (inodes s i)) < 2 ^ 64"
    and plain: "\<not> names_directory (location_key location)"
  shows "local_read_range location \<lparr>range_offset = off, range_length = len\<rparr> token_default s =
    (if unat off \<le> length (file_bytes (inodes s i))
     then (let bs = slice (unat off) (unat len) (file_bytes (inodes s i)) in
       (s\<lparr>bytes_read := bytes_read s + vec_len bs\<rparr>, Ok bs))
     else (s, Err (failure_invalid OpReadRange ''range offset is beyond end of object'')))"
proof -
  let ?c = "file_bytes (inodes s i)"
  have meta: "fs_metadata (RootDir # map Normal (root @ ns)) s = (s, Ok (info_of s (FileEntry i)))"
    "fs_open (root @ ns) s = (s, Ok (FileEntry i))"
    using tree_resolve [OF tree disjI1 [OF obj]] nf obj
    by (simp_all add: fs_metadata_def fs_open_def query_no_fault del: resolve_path.simps)
  have "unat (word_of_nat (length ?c) :: u64) = length ?c"
    using small by (simp add: unat_of_nat)
  then have le: "(word_of_nat (length ?c) < off) = (\<not> unat off \<le> length ?c)"
    by (simp only: word_less_nat_alt not_le)
  have slice: "take (unat (min len (word_of_nat (length ?c) - off))) (drop (unat off) ?c) =
      slice (unat off) (unat len) ?c" if "unat off \<le> length ?c"
    using take_min_drop [OF small, of off len] le that by (simp add: not_less)
  show ?thesis
    using meta le slice existing_ok [OF nf tree loc obj plain] nf
    by (simp add: local_read_range_def act_bind_def act_map_err_def info_of_def Let_def
        fs_barrier_def query_no_fault fs_read_def count_bytes_read_def token_check_def token_default_def
        del: map_append)
qed

section \<open>Writing through the store\<close>

fun store_write_chunks ::
  "'r remote_lib \<Rightarrow> bytes list \<Rightarrow> ('r store_writer_world, native_failure, unit) action" where
  "store_write_chunks L [] = act_ok ()"
| "store_write_chunks L (b # bs) = act_bind (store_writer_write L b) (\<lambda>_. store_write_chunks L bs)"

lemma store_write_chunks_local:
  "write_chunks bs (w, s) = ((w', s'), r) \<Longrightarrow>
     store_write_chunks L bs (LocalStoreWriter w root, s) = ((LocalStoreWriter w' root, s'), r)"
proof (induction bs arbitrary: w s)
  case (Cons b bs)
  obtain w1 s1 q where q: "writer_write b (w, s) = ((w1, s1), q)" by (metis surj_pair)
  then have "store_writer_write L b (LocalStoreWriter w root, s) = ((LocalStoreWriter w1 root, s1), q)"
    by (simp add: store_writer_write_def on_local_writer_def)
  then show ?case using Cons q by (cases q) (auto simp: act_bind_def)
qed simp

end
