(* ===== verification/Store_Properties.thy ===== *)
theory Store_Properties
  imports Store_Proofs
begin

text \<open>
  What the store resource promises over a local directory: a key names a path strictly beneath
  the root, a rejected key reaches neither backend, and an object that was written through the
  store is read back, with its parent directories created on the way.
\<close>

section \<open>Keys\<close>

lemma store_rejects:
  assumes "validate_key key False = Err e"
  shows "store_head L store key s = (s, Err e) \<and> store_read_range L store key a b s = (s, Err e) \<and>
    store_delete L store key s = (s, Err e) \<and>
    store_open_writer L store key flush sync token s = (s, Err e)"
  using assms
  by (simp add: store_head_def store_read_range_def store_delete_def store_open_writer_def)

text \<open>C15: a key is accepted or rejected. An accepted key names a path strictly beneath the root,
  through plain names only, so neither an absolute path nor a parent reference can leave the
  root. A rejected key is refused by every operation with the same error, and the operation
  touches neither the file system nor the remote store.\<close>

theorem store_keys_confined:
  assumes "list_all plain_name root"
  shows "(\<exists>ns. validate_key key False = Ok () \<and> ns \<noteq> [] \<and> list_all plain_name ns \<and>
      path_components (location_key (local_location root key)) = RootDir # map Normal (root @ ns)) \<or>
    (\<exists>e. validate_key key False = Err e \<and> failure_category e = InvalidArgument \<and>
      (\<forall>L store s a b flush sync token.
         store_head L store key s = (s, Err e) \<and> store_read_range L store key a b s = (s, Err e) \<and>
         store_delete L store key s = (s, Err e) \<and>
         store_open_writer L store key flush sync token s = (s, Err e)))"
proof (cases "validate_key key False")
  case (Inl e)
  then have "failure_category e = InvalidArgument"
    by (auto simp: validate_key_def failure_invalid_def failure_new_def split: if_splits)
  then show ?thesis using Inl store_rejects [OF Inl] by blast
next
  case (Inr u)
  then have ok: "validate_key key False = Ok ()" by simp
  show ?thesis
    using ok validate_key_Ok [OF ok] local_location_components [OF assms ok]
    by (intro disjI1 exI [of _ "key_names key"]) simp
qed

theorem store_keys_confined_witness:
  "validate_key ''events/2026/part.parquet'' False = Ok () \<and>
   (\<exists>ns. path_components (location_key (local_location [''data''] ''events/2026/part.parquet'')) =
      RootDir # map Normal ([''data''] @ ns)) \<and>
   (\<exists>e. validate_key ''events/../../etc'' False = Err e)"
proof -
  have root: "list_all plain_name [''data'']" by (simp add: plain_name_def)
  have v: "validate_key ''events/2026/part.parquet'' False = Ok ()"
    "validate_key ''events/../../etc'' False = Err (failure_invalid OpStoreOpen
       ''object key must be a normalized relative path'')"
    by code_simp+
  with store_keys_confined [OF root, of "''events/2026/part.parquet''"] show ?thesis by fastforce
qed

section \<open>Put and get\<close>

text \<open>The state in which an object can be created: its ancestors are directories or missing.\<close>

definition can_create :: "string list \<Rightarrow> string list \<Rightarrow> 'z local_world_scheme \<Rightarrow> bool" where
  "can_create root ns s \<longleftrightarrow>
     fs_faults s = [] \<and> tree_ok s \<and> lookup s root = Some DirEntry \<and>
     (\<forall>k < length ns. lookup s (root @ take k ns) \<in> {None, Some DirEntry}) \<and>
     lookup s (root @ ns) \<noteq> Some DirEntry \<and>
     lookup s (root @ butlast ns @ [stage_name (process_id s) (last ns) (stage_sequence s)]) = None"

text \<open>Making room for an object: the missing directories are created and its path is resolved.\<close>

lemma ensure_parent_ok:
  assumes root: "list_all plain_name root" and key: "validate_key key False = Ok ()"
    and can: "can_create root (key_names key) s"
  obtains ds ns n where "key_names key = ns @ [n]"
    "ensure_local_parent root key s = (add_dirs ds s, Ok ())"
    "\<And>p. p \<in> set ds \<Longrightarrow> lookup s p = None" "\<And>x. root @ ns @ [x] \<notin> set ds"
    "tree_ok (add_dirs ds s)" "lookup (add_dirs ds s) (root @ ns) = Some DirEntry"
    "resolve_destination (local_location root key) OpWriterOpen (add_dirs ds s) =
       (add_dirs ds s, Ok ((root @ ns) @ [n]))"
    "lookup s (root @ ns @ [n]) \<noteq> Some DirEntry"
    "lookup s (root @ ns @ [stage_name (process_id s) n (stage_sequence s)]) = None"
proof -
  note valid = validate_key_Ok [OF key]
  obtain ns n where ns: "key_names key = ns @ [n]" using valid by (cases "key_names key" rule: rev_cases) auto
  have nf: "fs_faults s = []" and tree: "tree_ok s" and dir: "lookup s root = Some DirEntry"
    and dest: "lookup s (root @ ns @ [n]) \<noteq> Some DirEntry"
    and free: "lookup s (root @ ns @ [stage_name (process_id s) n (stage_sequence s)]) = None"
    using can ns by (simp_all add: can_create_def)
  have parents: "lookup s (root @ take k ns) = None \<or> lookup s (root @ take k ns) = Some DirEntry"
    if "k \<le> length ns" for k
    using can that ns by (auto simp: can_create_def less_Suc_eq_le)
  obtain ds where ds: "ensure_parts root (map Normal ns) s = (add_dirs ds s, Ok ())"
      "\<forall>p \<in> set ds. lookup s p = None \<and> length p \<le> length (root @ ns)"
      "tree_ok (add_dirs ds s)" "lookup (add_dirs ds s) (root @ ns) = Some DirEntry"
    using ensure_parts_ok [OF nf tree dir parents] by blast
  have "path_parent (path_components key) = Some (map Normal ns)"
    using valid ns by (simp add: path_parent_def)
  then have ensure: "ensure_local_parent root key s = (add_dirs ds s, Ok ())"
    using ds(1) by (simp add: ensure_local_parent_def)
  have dir': "lookup (add_dirs ds s) root = Some DirEntry" using dir by (simp add: lookup_add_dirs)
  have loc: "beneath (local_location root key) root (ns @ [n]) (add_dirs ds s)"
    using beneath_location [OF root key dir'] ns by simp
  have res: "resolve_destination (local_location root key) OpWriterOpen (add_dirs ds s) =
      (add_dirs ds s, Ok ((root @ ns) @ [n]))"
    by (rule destination_ok [OF _ ds(3) loc ds(4)]) (simp add: nf)
  show ?thesis by (rule that [OF ns ensure _ _ ds(3,4) res dest free]) (use ds(2) in auto)
qed

lemma store_put:
  assumes root: "list_all plain_name root" and key: "validate_key key False = Ok ()"
    and can: "can_create root (key_names key) s" and backend: "store_backend_of store = LocalBackend root"
  shows "\<exists>s1 w s2 s3 md.
    store_open_writer L store key flush sync token_default s = (s1, Ok w) \<and>
    store_write_chunks L chunks (w, s1) = ((w, s2), Ok ()) \<and>
    snd (store_writer_publish L (w, s2)) = Ok md \<and>
    snd (fst (store_writer_publish L (w, s2))) = s3 \<and>
    sm_path md = join_with CHR ''/'' (key_names key) \<and>
    sm_size md = word_of_nat (length (concat chunks)) \<and>
    file_at s3 = (file_at s)(root @ key_names key \<mapsto> concat chunks) \<and>
    tree_ok s3 \<and> fs_faults s3 = [] \<and> active_writers s3 = active_writers s"
proof -
  obtain ds ns n where ns: "key_names key = ns @ [n]"
    and ensure: "ensure_local_parent root key s = (add_dirs ds s, Ok ())"
    and fresh: "\<And>p. p \<in> set ds \<Longrightarrow> lookup s p = None" and long: "\<And>x. root @ ns @ [x] \<notin> set ds"
    and ds: "tree_ok (add_dirs ds s)" "lookup (add_dirs ds s) (root @ ns) = Some DirEntry"
    and res: "resolve_destination (local_location root key) OpWriterOpen (add_dirs ds s) =
      (add_dirs ds s, Ok ((root @ ns) @ [n]))"
    and dest: "lookup s (root @ ns @ [n]) \<noteq> Some DirEntry"
    and free: "lookup s (root @ ns @ [stage_name (process_id s) n (stage_sequence s)]) = None"
    by (rule ensure_parent_ok [OF root key can]) blast
  let ?s = "add_dirs ds s"
  have nf: "fs_faults s = []" using can by (simp add: can_create_def)
  note valid = validate_key_Ok [OF key]
  obtain s1 w s2 s3 md where put:
    "local_stage (local_location root key) \<lparr>option_flush = flush, option_sync = sync\<rparr> token_default ?s = (s1, Ok w)"
    "write_chunks chunks (w, s1) = ((w, s2), Ok ())"
    "writer_publish (w, s2) = ((closed_writer w, s3), Ok md)"
    "file_at s3 = (file_at ?s)((root @ ns) @ [n] \<mapsto> concat chunks)"
    "object_path md = path_string ((root @ ns) @ [n])"
    "object_size md = word_of_nat (length (concat chunks))"
    "tree_ok s3" "active_writers s3 = active_writers ?s" "fs_faults s3 = []"
    using local_put [OF _ ds(1) res ds(2),
        where options = "\<lparr>option_flush = flush, option_sync = sync\<rparr>" and chunks = chunks]
      nf dest free long by (auto simp: lookup_add_dirs)
  have opened: "store_open_writer L store key flush sync token_default s =
      (s1, Ok (LocalStoreWriter w root))"
    using key backend ensure put(1) by (simp add: store_open_writer_def)
  have chunks: "store_write_chunks L chunks (LocalStoreWriter w root, s1) =
      ((LocalStoreWriter w root, s2), Ok ())"
    by (rule store_write_chunks_local [OF put(2)])
  have plain: "list_all plain_name (root @ key_names key)" using root valid by simp
  have "local_metadata root md = Ok \<lparr>sm_path = join_with CHR ''/'' (key_names key),
      sm_size = object_size md, sm_modified_unix_ns = object_modified_unix_ns md\<rparr>"
    by (rule local_metadata_plain [OF plain]) (simp add: put(5) ns)
  then have pub: "store_writer_publish L (LocalStoreWriter w root, s2) =
      ((LocalStoreWriter (closed_writer w) root, s3),
       Ok \<lparr>sm_path = join_with CHR ''/'' (key_names key), sm_size = object_size md,
          sm_modified_unix_ns = object_modified_unix_ns md\<rparr>)"
    using put(3) by (simp add: store_writer_publish_def on_local_writer_def)
  have "file_at s3 = (file_at s)(root @ key_names key \<mapsto> concat chunks)"
    using put(4) file_at_add_dirs [of ds s] fresh ns by simp
  with opened chunks pub put(6-9) show ?thesis by auto
qed

lemma root_of_object:
  assumes key: "validate_key key False = Ok ()" and tree: "tree_ok s"
    and obj: "lookup s (root @ key_names key) = Some (FileEntry i)"
  shows "lookup s root = Some DirEntry"
proof -
  obtain ns n where ns: "key_names key = ns @ [n]"
    using validate_key_Ok [OF key] by (cases "key_names key" rule: rev_cases) auto
  then have "lookup s (root @ ns) = Some DirEntry"
    using tree_ok_child [OF tree, of "root @ ns" n] obj by simp
  then have "all_dirs (lookup s) (root @ ns)" by (rule tree_dirs [OF tree])
  then have "all_dirs (lookup s) (take (length root) (root @ ns))"
    unfolding all_dirs_def by (auto simp: take_take min_def simp del: take_append)
  then show ?thesis by (intro all_dirs_last) simp
qed

text \<open>A key that ends in a separator or a dot segment does not reach the file it was written to.\<close>

lemma store_get_directory:
  assumes root: "list_all plain_name root" and key: "validate_key key False = Ok ()"
    and nf: "fs_faults s = []" and tree: "tree_ok s"
    and backend: "store_backend_of store = LocalBackend root"
    and content: "file_at s (root @ key_names key) = Some content" and dir: "names_directory key"
  shows "store_head L store key s = (s, Err (from_io OpHead IoOther)) \<and>
    snd (store_read_range L store key off len s) = Err (from_io OpReadRange IoOther)"
proof -
  obtain i where i: "lookup s (root @ key_names key) = Some (FileEntry i)"
    using content by (auto simp: file_at_def split: option.splits entry.splits)
  note loc = beneath_location [OF root key root_of_object [OF key tree i]]
  have slash: "names_directory (location_key (local_location root key))"
    using local_location_directory [OF root key] dir by simp
  show ?thesis
    using existing_not_directory [OF nf tree loc i slash] key backend
    by (simp add: store_head_def store_read_range_def local_head_def local_read_range_def act_bind_def
        token_check_def token_default_def)
qed

lemma store_get:
  assumes root: "list_all plain_name root" and key: "validate_key key False = Ok ()"
    and nf: "fs_faults s = []" and tree: "tree_ok s"
    and backend: "store_backend_of store = LocalBackend root"
    and content: "file_at s (root @ key_names key) = Some content" and small: "length content < 2 ^ 64"
    and plain_key: "\<not> names_directory key"
  shows "\<exists>md. store_head L store key s = (s, Ok md) \<and>
    sm_path md = join_with CHR ''/'' (key_names key) \<and> sm_size md = word_of_nat (length content) \<and>
    snd (store_read_range L store key off len s) =
      (if unat off \<le> length content then Ok (slice (unat off) (unat len) content)
       else Err (failure_invalid OpReadRange ''range offset is beyond end of object''))"
proof -
  obtain i where i: "lookup s (root @ key_names key) = Some (FileEntry i)"
    "content = file_bytes (inodes s i)"
    using content by (auto simp: file_at_def split: option.splits entry.splits)
  note loc = beneath_location [OF root key root_of_object [OF key tree i(1)]]
  have slash: "\<not> names_directory (location_key (local_location root key))"
    using local_location_directory [OF root key] plain_key by simp
  have plain: "list_all plain_name (root @ key_names key)" using root validate_key_Ok [OF key] by simp
  obtain md where md: "local_head (local_location root key) token_default s = (s, Ok md)"
    "object_path md = path_string (root @ key_names key)"
    "object_size md = word_of_nat (length content)"
    using head_ok [OF nf tree loc i(1) slash] i(2) by auto
  have "store_head L store key s = (s, Ok \<lparr>sm_path = join_with CHR ''/'' (key_names key),
      sm_size = object_size md, sm_modified_unix_ns = object_modified_unix_ns md\<rparr>)"
    using key backend md(1) local_metadata_plain [OF plain md(2)] by (simp add: store_head_def)
  moreover have "snd (store_read_range L store key off len s) =
      (if unat off \<le> length content then Ok (slice (unat off) (unat len) content)
       else Err (failure_invalid OpReadRange ''range offset is beyond end of object''))"
    using read_ok [OF nf tree loc i(1) _ slash, of off len] i(2) small key backend
    by (simp add: store_read_range_def Let_def)
  ultimately show ?thesis using md(3) by auto
qed

text \<open>C9: an object written through the store is read back: when nothing fails and the ancestors of
  the key are directories or missing, opening a writer creates the missing ones, writing any
  chunks and publishing succeeds and changes no other object; afterwards the head reports the
  total size and the path of the key, and every range read returns the slice of the
  concatenated chunks or, beyond their end, an error. The exception are accepted keys that end
  in a separator or a dot segment, such as \<^verbatim>\<open>a/\<close>: the object is published under its plain name, but the
  head and every read of that key are refused by the system.\<close>

theorem store_put_get:
  assumes "list_all plain_name root" and "validate_key key False = Ok ()"
    and "can_create root (key_names key) s" and "store_backend_of store = LocalBackend root"
    and "length (concat chunks) < 2 ^ 64"
  shows "\<exists>s1 w s2 s3 md.
    store_open_writer L store key flush sync token_default s = (s1, Ok w) \<and>
    store_write_chunks L chunks (w, s1) = ((w, s2), Ok ()) \<and>
    snd (store_writer_publish L (w, s2)) = Ok md \<and>
    snd (fst (store_writer_publish L (w, s2))) = s3 \<and>
    file_at s3 = (file_at s)(root @ key_names key \<mapsto> concat chunks) \<and>
    unat (sm_size md) = length (concat chunks) \<and>
    (if names_directory key
     then store_head L store key s3 = (s3, Err (from_io OpHead IoOther)) \<and>
       (\<forall>off len. snd (store_read_range L store key off len s3) = Err (from_io OpReadRange IoOther))
     else (\<exists>hd. store_head L store key s3 = (s3, Ok hd) \<and>
         sm_path hd = sm_path md \<and> sm_size hd = sm_size md) \<and>
       (\<forall>off len. snd (store_read_range L store key off len s3) =
         (if unat off \<le> length (concat chunks)
          then Ok (slice (unat off) (unat len) (concat chunks))
          else Err (failure_invalid OpReadRange ''range offset is beyond end of object''))))"
proof -
  obtain s1 w s2 s3 md where put:
    "store_open_writer L store key flush sync token_default s = (s1, Ok w)"
    "store_write_chunks L chunks (w, s1) = ((w, s2), Ok ())"
    "snd (store_writer_publish L (w, s2)) = Ok md" "snd (fst (store_writer_publish L (w, s2))) = s3"
    "sm_path md = join_with CHR ''/'' (key_names key)"
    "sm_size md = word_of_nat (length (concat chunks))"
    "file_at s3 = (file_at s)(root @ key_names key \<mapsto> concat chunks)"
    "tree_ok s3" "fs_faults s3 = []"
    using store_put [OF assms(1-4), of L flush sync chunks] by blast
  have content: "file_at s3 (root @ key_names key) = Some (concat chunks)" using put(7) by simp
  note get = store_get [OF assms(1,2) put(9,8) assms(4) content assms(5)]
  note no_get = store_get_directory [OF assms(1,2) put(9,8) assms(4) content]
  have size: "unat (sm_size md) = length (concat chunks)"
    using put(6) assms(5) by (simp add: unat_of_nat)
  have "if names_directory key
     then store_head L store key s3 = (s3, Err (from_io OpHead IoOther)) \<and>
       (\<forall>off len. snd (store_read_range L store key off len s3) = Err (from_io OpReadRange IoOther))
     else (\<exists>hd. store_head L store key s3 = (s3, Ok hd) \<and>
         sm_path hd = sm_path md \<and> sm_size hd = sm_size md) \<and>
       (\<forall>off len. snd (store_read_range L store key off len s3) =
         (if unat off \<le> length (concat chunks)
          then Ok (slice (unat off) (unat len) (concat chunks))
          else Err (failure_invalid OpReadRange ''range offset is beyond end of object'')))"
  proof (cases "names_directory key")
    case True
    then show ?thesis using no_get [of L] by simp
  next
    case False
    obtain hd where "store_head L store key s3 = (s3, Ok hd)" "sm_path hd = sm_path md"
      "sm_size hd = sm_size md"
      using get [OF False, of L 0 0] put(5,6) by auto
    moreover have "snd (store_read_range L store key off len s3) =
        (if unat off \<le> length (concat chunks)
         then Ok (slice (unat off) (unat len) (concat chunks))
         else Err (failure_invalid OpReadRange ''range offset is beyond end of object''))" for off len
      using get [OF False, of L off len] by blast
    ultimately show ?thesis using False by auto
  qed
  then show ?thesis using put(1-4,7) size by blast
qed

section \<open>A concrete run\<close>

text \<open>An empty directory \<^verbatim>\<open>/data\<close> as the root of a store, and the key \<^verbatim>\<open>a/f\<close>.\<close>

definition sample_remote :: "unit remote_world" where
  "sample_remote = \<lparr>remote_state = (), active_requests = 0, peak_requests = 0, active_multipart = 0,
     range_requests = 0, range_bytes = 0, clients_created = 0\<rparr>"

definition sample_store_world :: "unit store_world" where
  "sample_store_world =
     \<lparr>entries = [([''data''], DirEntry)], inodes = (\<lambda>_. \<lparr>file_bytes = [], file_modified = None\<rparr>),
      next_inode = 0, fs_cwd = [], fs_clock = Some 0, fs_faults = [],
      active_writers = 0, bytes_read = 0, stage_sequence = 0, process_id = 7,
      s3_world = sample_remote, store_sequence = 2, active_stores = 1, stores_created = 1\<rparr>"

definition sample_store :: store_resource where
  "sample_store = \<lparr>store_id = 1, store_backend_of = LocalBackend [''data'']\<rparr>"

lemma sample_store_lookup: "lookup sample_store_world = [[] \<mapsto> DirEntry, [''data''] \<mapsto> DirEntry]"
  by (auto simp: lookup_def sample_store_world_def fun_eq_iff)

lemma sample_store_key:
  "validate_key ''a/f'' False = Ok ()" "key_names ''a/f'' = [''a'', ''f'']"
  "\<not> names_directory ''a/f''"
  by code_simp+

lemma sample_store_facts:
  "tree_ok sample_store_world" "fs_faults sample_store_world = []"
  "list_all plain_name [''data'']" "store_backend_of sample_store = LocalBackend [''data'']"
proof -
  show "tree_ok sample_store_world" unfolding tree_ok_def sample_store_lookup
    by (auto simp: sample_store_world_def)
qed (simp_all add: sample_store_world_def plain_name_def sample_store_def)

lemma sample_can_create: "can_create [''data''] (key_names ''a/f'') sample_store_world"
  by (auto simp: can_create_def sample_store_facts sample_store_lookup sample_store_key less_Suc_eq
      numeral_2_eq_2)

theorem store_put_get_witness:
  "\<forall>L :: unit remote_lib. \<exists>s1 w s2 s3.
    store_open_writer L sample_store ''a/f'' FlushNone SyncNone token_default sample_store_world = (s1, Ok w) \<and>
    store_write_chunks L [[1, 2], [3]] (w, s1) = ((w, s2), Ok ()) \<and>
    snd (fst (store_writer_publish L (w, s2))) = s3 \<and>
    snd (store_read_range L sample_store ''a/f'' 1 5 s3) = Ok [2, 3]"
proof
  fix L :: "unit remote_lib"
  have "slice (unat (1 :: u64)) (unat (5 :: u64)) (concat [[1, 2], [3 :: 8 word]]) = [2, 3]"
    by (simp add: slice_def)
  moreover have "length (concat [[1, 2], [3 :: 8 word]]) < 2 ^ 64" by simp
  from store_put_get [OF sample_store_facts(3) sample_store_key(1) sample_can_create
      sample_store_facts(4) this, of L FlushNone SyncNone]
  obtain s1 w s2 s3 where
    "store_open_writer L sample_store ''a/f'' FlushNone SyncNone token_default sample_store_world = (s1, Ok w)"
    "store_write_chunks L [[1, 2], [3]] (w, s1) = ((w, s2), Ok ())"
    "snd (fst (store_writer_publish L (w, s2))) = s3"
    "\<forall>off len. snd (store_read_range L sample_store ''a/f'' off len s3) =
       (if unat off \<le> length (concat [[1, 2], [3 :: 8 word]])
        then Ok (slice (unat off) (unat len) (concat [[1, 2], [3]]))
        else Err (failure_invalid OpReadRange ''range offset is beyond end of object''))"
    unfolding if_not_P [OF sample_store_key(3)] by blast
  moreover have "unat (1 :: u64) \<le> length (concat [[1, 2], [3 :: 8 word]])" by simp
  ultimately show "\<exists>s1 w s2 s3.
    store_open_writer L sample_store ''a/f'' FlushNone SyncNone token_default sample_store_world = (s1, Ok w) \<and>
    store_write_chunks L [[1, 2], [3]] (w, s1) = ((w, s2), Ok ()) \<and>
    snd (fst (store_writer_publish L (w, s2))) = s3 \<and>
    snd (store_read_range L sample_store ''a/f'' 1 5 s3) = Ok [2, 3]"
    by metis
qed

end
