(* ===== verification/Reader_Store.thy ===== *)
theory Reader_Store
  imports Store_Properties Reader_State
begin

text \<open>
  The reader over the store: \<^verbatim>\<open>open_store\<close>, and the ranges the decoder obtains. A local store in
  a fixed well-formed state satisfies the interface \<open>range_source\<close> of the range reader, so what
  the chunk reader and the cursor return are bytes of the stored file.
\<close>

section \<open>Opening\<close>

text \<open>
  The object is taken not to change while the reader is used; every range read starts in the
  state \<open>s\<close> the head left.
\<close>

definition store_chunk_backend ::
  "'r remote_lib \<Rightarrow> store_resource \<Rightarrow> string \<Rightarrow> 'r store_world \<Rightarrow> chunk_backend" where
  "store_chunk_backend L store key s =
     \<lparr>backend_fetch = (\<lambda>key offset len. snd (store_read_range L store key offset len s)),
      backend_key = key\<rparr>"

definition reader_open_store ::
  "parquet_lib \<Rightarrow> 'r remote_lib \<Rightarrow> store_resource \<Rightarrow> string \<Rightarrow> reader_open_settings \<Rightarrow> usize \<Rightarrow> 'r store_world
   \<Rightarrow> 'r store_world \<times> (usize \<times> (reader_state \<times> native_field list) native_result) unwind" where
  "reader_open_store P L store key settings active_readers s =
     (case store_head L store key s of
        (s, Inl e) \<Rightarrow> (s, Returned (active_readers, Err (e\<lparr>failure_operation := OpReaderOpen\<rparr>)))
      | (s, Inr metadata) \<Rightarrow>
          (s, open_backend P (store_chunk_backend L store key s) (sm_size metadata) token_default
                settings active_readers))"

section \<open>The local store as a source of ranges\<close>

typedef 'r snapshot = "{s :: 'r store_world. tree_ok s \<and> files_small s}"
proof
  show "(undefined :: 'r store_world)\<lparr>entries := [], inodes := \<lambda>_. \<lparr>file_bytes = [], file_modified = None\<rparr>,
      fs_cwd := []\<rparr> \<in> {s. tree_ok s \<and> files_small s}"
    by (simp add: tree_ok_def files_small_def lookup_def)
qed

definition local_resource :: "u64 \<Rightarrow> string list \<Rightarrow> store_resource" where
  "local_resource i base = \<lparr>store_id = i, store_backend_of = LocalBackend base\<rparr>"

definition snapshot_fetch ::
  "'r remote_lib \<Rightarrow> u64 \<Rightarrow> string list \<Rightarrow> 'r snapshot \<Rightarrow> string \<Rightarrow> u64 \<Rightarrow> u64 \<Rightarrow> bytes native_result" where
  "snapshot_fetch L i base x key offset len =
     snd (store_read_range L (local_resource i base) key offset len (Rep_snapshot x))"

text \<open>The bytes of the file a key resolves to.\<close>

definition object_content :: "string list \<Rightarrow> 'z filesystem_scheme \<Rightarrow> string \<Rightarrow> bytes" where
  "object_content base s key =
     (case resolve_path (lookup s) max_links (fs_cwd s)
             (system_path (location_key (local_location base key))) of
        Inl _ \<Rightarrow> []
      | Inr p \<Rightarrow> (case file_at s p of None \<Rightarrow> [] | Some content \<Rightarrow> content))"

lemma object_content_small: "files_small s \<Longrightarrow> length (object_content base s key) < 2 ^ 63"
  by (auto simp: object_content_def file_at_def files_small_def split: sum.splits option.splits entry.splits)

lemma store_read_content:
  assumes "tree_ok s" and "files_small s"
    and "snd (store_read_range L (local_resource i base) key offset len s) = Ok bs"
  shows "unat offset \<le> length (object_content base s key) \<and>
    bs = slice (unat offset) (unat len) (object_content base s key)"
proof -
  have "validate_key key False = Ok ()"
    using assms(3) by (cases "validate_key key False") (simp_all add: store_read_range_def)
  then have "snd (local_read_range (local_location base key)
      \<lparr>range_offset = offset, range_length = len\<rparr> token_default s) = Ok bs"
    using assms(3) by (simp add: store_read_range_def local_resource_def)
  then obtain t where read: "local_read_range (local_location base key)
      \<lparr>range_offset = offset, range_length = len\<rparr> token_default s = (t, Ok bs)"
    by (cases "local_read_range (local_location base key)
      \<lparr>range_offset = offset, range_length = len\<rparr> token_default s") auto
  have "location_allowed_root (local_location base key) = Some (path_string base)"
    by (simp add: local_location_def)
  then obtain p content where
    "resolve_path (lookup s) max_links (fs_cwd s)
       (system_path (location_key (local_location base key))) = Ok p"
    "file_at s p = Some content" "unat offset \<le> length content"
    "bs = slice (unat offset) (unat len) content"
    by (rule local_read_range_Ok [OF assms(1,2) _ read]) simp
  then show ?thesis by (simp add: object_content_def)
qed

interpretation snap: range_source
  "snapshot_fetch L i base x" "object_content base (Rep_snapshot x)"
  for L i base x
proof
  fix key offset len bs
  assume "snapshot_fetch L i base x key offset len = Ok bs"
  then show "unat offset \<le> length (object_content base (Rep_snapshot x) key) \<and>
      bs = slice (unat offset) (unat len) (object_content base (Rep_snapshot x) key)"
    using store_read_content [of "Rep_snapshot x"] Rep_snapshot [of x] by (simp add: snapshot_fetch_def)
next
  fix key
  have "length (object_content base (Rep_snapshot x) key) < 2 ^ 63"
    using Rep_snapshot [of x] by (intro object_content_small) simp
  also have "(2 :: nat) ^ 63 < 2 ^ 64" by simp
  finally show "length (object_content base (Rep_snapshot x) key) < 2 ^ 64" .
qed

lemma snapshot_of: "tree_ok s \<Longrightarrow> files_small s \<Longrightarrow> Rep_snapshot (Abs_snapshot s) = s"
  by (simp add: Abs_snapshot_inverse)

lemma store_chunk_backend_fetch:
  assumes "tree_ok s" and "files_small s"
  shows "backend_fetch (store_chunk_backend L (local_resource i base) key s) =
    snapshot_fetch L i base (Abs_snapshot s)"
  using snapshot_of [OF assms] by (simp add: store_chunk_backend_def snapshot_fetch_def fun_eq_iff)

section \<open>What the decoder reads\<close>

text \<open>The chunk reader \<^verbatim>\<open>open_backend\<close> hands to the decoder.\<close>

definition store_chunk_reader ::
  "'r remote_lib \<Rightarrow> store_resource \<Rightarrow> string \<Rightarrow> u64 \<Rightarrow> usize \<Rightarrow> 'r store_world \<Rightarrow> object_chunk_reader" where
  "store_chunk_reader L store key obj_size bound s =
     \<lparr>chunk_backend_of = store_chunk_backend L store key s, chunk_size = obj_size,
      max_range_bytes = bound, chunk_cancellation = token_default, chunk_metrics = metrics_default\<rparr>"

text \<open>C33: every range the decoder obtains through \<^verbatim>\<open>get_bytes\<close> lies inside the object, is no longer
  than the configured bound, and consists of exactly those bytes of the stored file; the
  metrics count it. This holds for every schedule of failures.\<close>

theorem reader_ranges_bounded:
  assumes "tree_ok s" and "files_small s"
    and "same_source (store_chunk_reader L (local_resource i base) key obj_size bound s) r"
    and "get_bytes r start len = Ok (bs, r')"
  shows "unat len \<le> unat bound \<and> unat start + unat len \<le> unat obj_size \<and> length bs = unat len \<and>
    bs = slice (unat start) (unat len) (object_content base s key) \<and> r' = record_read r len"
proof -
  have r: "backend_fetch (chunk_backend_of r) = snapshot_fetch L i base (Abs_snapshot s)"
    and k: "backend_key (chunk_backend_of r) = key" "max_range_bytes r = bound" "chunk_size r = obj_size"
    using assms(3) store_chunk_backend_fetch [OF assms(1,2), of L i base key]
    by (simp_all add: same_source_def store_chunk_reader_def) (simp add: store_chunk_backend_def)
  show ?thesis
    using snap.get_bytes_Ok [OF r assms(4)] k snapshot_of [OF assms(1,2)] by auto
qed

text \<open>C34: a sequential read through the cursor terminates and returns the file from its position to
  the end: for a key that does not end in a separator or a dot segment, and for any buffer and any bound
  that are not zero, with fuel of one more read than bytes left, whatever the bound splits the
  reads into.\<close>

theorem cursor_reads_rest:
  assumes "tree_ok (s :: 'r store_world)" and "files_small s" and "fs_faults s = []"
    and "list_all plain_name base" and "validate_key key False = Ok ()"
    and "file_at s (base @ key_names key) = Some content" and "\<not> names_directory key"
    and "0 < cap" and "0 < bound" and "pos \<le> word_of_nat (length content)"
    and "length content - unat pos < fuel"
  shows "drain_cursor fuel cap
      \<lparr>cursor_reader = store_chunk_reader L (local_resource i base) key (word_of_nat (length content)) bound s,
       cursor_position = pos\<rparr> = Some (drop (unat pos) content)"
proof -
  let ?r = "store_chunk_reader L (local_resource i base) key (word_of_nat (length content)) bound s"
  let ?x = "Abs_snapshot s"
  let ?c = "\<lparr>cursor_reader = ?r, cursor_position = pos\<rparr>"
  have loc: "system_path (location_key (local_location base key)) =
      RootDir # map Normal (base @ key_names key)"
    using local_location_components [OF assms(4,5)] local_location_directory [OF assms(4,5)] assms(7)
    by (simp add: system_path_def)
  obtain h where "lookup s (base @ key_names key) = Some (FileEntry h)"
    using assms(6) by (auto simp: file_at_def split: option.splits entry.splits)
  from tree_resolve(1) [OF assms(1) disjI1 [OF this], of max_links "fs_cwd s"]
  have con: "object_content base s key = content"
    using assms(6) loc by (simp add: object_content_def del: resolve_path.simps map_append)
  have small: "length content < 2 ^ 64"
    using object_content_small [OF assms(2), of base key] con by simp
  have n: "unat (word_of_nat (length content) :: u64) = length content"
    using small by (simp add: unat_of_nat)
  have "\<exists>bytes. snapshot_fetch L i base ?x key offset len = Ok bytes"
    if "unat offset \<le> length content" for offset len
    using store_get [OF assms(4,5,3,1) _ assms(6) small assms(7), of "local_resource i base" L offset len] that
      snapshot_of [OF assms(1,2)] by (auto simp: snapshot_fetch_def local_resource_def)
  then have readable: "snap.readable TYPE('r) L i base ?x ?c"
    using con n assms(10) snapshot_of [OF assms(1,2)] store_chunk_backend_fetch [OF assms(1,2)]
    unfolding snap.readable_def
    by (simp add: store_chunk_reader_def Let_def) (simp add: store_chunk_backend_def token_default_def)
  show ?thesis
    using snap.drain_cursor_Some [OF readable assms(8)] assms(9,11) n con snapshot_of [OF assms(1,2)]
    by (simp add: store_chunk_reader_def store_chunk_backend_def)
qed

section \<open>A concrete object\<close>

definition stored_store_world :: "unit store_world" where
  "stored_store_world = sample_store_world
     \<lparr>entries := [([''data''], DirEntry), ([''data'', ''f''], FileEntry 0)], next_inode := 1,
      inodes := (\<lambda>_. \<lparr>file_bytes = [10, 20, 30, 40], file_modified = None\<rparr>)\<rparr>"

lemma stored_store_facts:
  "tree_ok stored_store_world" "files_small stored_store_world" "fs_faults stored_store_world = []"
  "list_all plain_name [''data'']" "validate_key ''f'' False = Ok ()"
  "file_at stored_store_world ([''data''] @ key_names ''f'') = Some [10, 20, 30, 40]"
  "\<not> names_directory ''f''"
proof -
  have l: "lookup stored_store_world =
      [[] \<mapsto> DirEntry, [''data''] \<mapsto> DirEntry, [''data'', ''f''] \<mapsto> FileEntry 0]"
    by (auto simp: lookup_def stored_store_world_def fun_eq_iff)
  have k: "key_names ''f'' = [''f'']" by code_simp
  show "tree_ok stored_store_world"
    unfolding tree_ok_def l by (auto simp: append_eq_Cons_conv stored_store_world_def sample_store_world_def)
  show "files_small stored_store_world" "fs_faults stored_store_world = []"
    by (simp_all add: files_small_def stored_store_world_def sample_store_world_def)
  show "list_all plain_name [''data'']" by (simp add: plain_name_def)
  show "validate_key ''f'' False = Ok ()" "\<not> names_directory ''f''" by code_simp+
  show "file_at stored_store_world ([''data''] @ key_names ''f'') = Some [10, 20, 30, 40]"
    by (simp add: file_at_def k l) (simp add: stored_store_world_def)
qed

theorem reader_ranges_bounded_witness:
  "\<forall>L :: unit remote_lib. \<exists>bs r'.
     get_bytes (store_chunk_reader L (local_resource 1 [''data'']) ''f'' 4 3 stored_store_world) 1 2 =
       Ok (bs, r') \<and> length bs = 2"
proof
  fix L :: "unit remote_lib"
  let ?r = "store_chunk_reader L (local_resource 1 [''data'']) ''f'' 4 3 stored_store_world"
  have "snd (store_read_range L (local_resource 1 [''data'']) ''f'' 1 2 stored_store_world) = Ok [20, 30]"
    using store_get [OF stored_store_facts(4,5,3,1) _ stored_store_facts(6) _ stored_store_facts(7),
        of "local_resource 1 [''data'']" L 1 2]
    by (auto simp: local_resource_def slice_def)
  then have get: "get_bytes ?r 1 2 = Ok ([20, 30], record_read ?r 2)"
    by (simp add: get_bytes_def backend_read_range_def store_chunk_reader_def store_chunk_backend_def
        token_check_def token_default_def checked_add_u64_def vec_len_def)
  have "length [20, 30 :: 8 word] = unat (2 :: u64)"
    using reader_ranges_bounded [OF stored_store_facts(1,2) same_source_refl get] by blast
  then show "\<exists>bs r'. get_bytes ?r 1 2 = Ok (bs, r') \<and> length bs = 2"
    using get by auto
qed

theorem cursor_reads_rest_witness:
  "\<forall>L :: unit remote_lib. drain_cursor 9 2
     \<lparr>cursor_reader = store_chunk_reader L (local_resource 1 [''data'']) ''f'' (word_of_nat 4) 3
        stored_store_world, cursor_position = 1\<rparr> = Some [20, 30, 40]"
proof
  fix L :: "unit remote_lib"
  show "drain_cursor 9 2
     \<lparr>cursor_reader = store_chunk_reader L (local_resource 1 [''data'']) ''f'' (word_of_nat 4) 3
        stored_store_world, cursor_position = 1\<rparr> = Some [20, 30, 40]"
    using cursor_reads_rest [OF stored_store_facts(1,2,3,4,5,6,7), of 2 3 1 9 L 1] by simp
qed

end
