(* ===== verification/S3_System.thy ===== *)
theory S3_System
  imports S3
begin

text \<open>
  All multipart writers of a process together with the other S3 operations, one step for each
  operation, and the invariant of the two global counters \<^verbatim>\<open>ACTIVE_REQUESTS\<close> and
  \<^verbatim>\<open>ACTIVE_MULTIPART\<close> of \<^verbatim>\<open>s3.rs\<close>.
\<close>

section \<open>Operations that leave the counters alone\<close>

named_theorems neutral_intros

definition neutral :: "('r remote_world, 'e, 'a) action \<Rightarrow> bool" where
  "neutral m \<longleftrightarrow>
     (\<forall>s. active_requests (fst (m s)) = active_requests s \<and>
          active_multipart (fst (m s)) = active_multipart s)"

lemma neutralD:
  "neutral m \<Longrightarrow> m s = (t, r) \<Longrightarrow>
     active_requests t = active_requests s \<and> active_multipart t = active_multipart s"
  unfolding neutral_def by (metis fst_conv)

lemma neutral_simple [neutral_intros]: "neutral (act_ok x)" "neutral (act_err e)" "neutral (act_lift r)"
  by (simp_all add: neutral_def act_ok_def act_err_def act_lift_def)

lemma neutral_bind [neutral_intros]:
  assumes "neutral m" and "\<And>x. neutral (f x)"
  shows "neutral (act_bind m f)"
  unfolding neutral_def
proof
  fix s
  obtain u r where u: "m s = (u, r)" by fastforce
  note first = neutralD [OF assms(1) u]
  show "active_requests (fst (act_bind m f s)) = active_requests s \<and>
      active_multipart (fst (act_bind m f s)) = active_multipart s"
  proof (cases r)
    case (Inr x)
    then show ?thesis using first assms(2) [of x] u by (simp add: act_bind_def neutral_def)
  qed (use first u in \<open>simp add: act_bind_def\<close>)
qed

lemma neutral_if [neutral_intros]: "neutral m \<Longrightarrow> neutral n \<Longrightarrow> neutral (if b then m else n)"
  by simp

text \<open>A call raises the request counter and lowers it again, however it ends.\<close>

lemma neutral_call [neutral_intros]: "neutral (remote_call L operation cancellable work)"
  unfolding remote_call_def
  by (intro neutral_bind neutral_simple) (simp add: neutral_def Let_def split: prod.splits)

lemma neutral_counts [neutral_intros]:
  "neutral (\<lambda>s. (s\<lparr>range_requests := a s, range_bytes := b s\<rparr>, Ok x))"
  "neutral (\<lambda>s. (s\<lparr>clients_created := c s\<rparr>, Ok x))"
  by (simp_all add: neutral_def)

lemma neutral_objects [neutral_intros]:
  "neutral (object_head L obj token operation)"
  "neutral (object_read_range L obj offset len token operation)"
  "neutral (object_list L obj prefix token)" "neutral (object_delete L obj token)"
  "neutral (remote_store_list L config prefix token)" "neutral (build_store L config)"
  unfolding object_head_def object_read_range_def object_list_def object_delete_def
    remote_store_list_def build_store_def Let_def
  by (intro neutral_intros)+

section \<open>The system\<close>

record 'r remote_system =
  rsys_world :: "'r remote_world"
  rsys_writers :: "remote_writer list"

definition set_remote_writer :: "'r remote_system \<Rightarrow> nat \<Rightarrow> 'r remote_writer_world \<Rightarrow> 'r remote_system" where
  "set_remote_writer v i ws =
     \<lparr>rsys_world = snd ws, rsys_writers = (rsys_writers v)[i := fst ws]\<rparr>"

inductive remote_step :: "'r remote_lib \<Rightarrow> 'r remote_system \<Rightarrow> 'r remote_system \<Rightarrow> bool" for L where
  open_step: "open_multipart L obj token (rsys_world v) = (s, Ok x) \<Longrightarrow>
     remote_step L v \<lparr>rsys_world = s, rsys_writers = rsys_writers v @ [x]\<rparr>"
| open_failed: "open_multipart L obj token (rsys_world v) = (s, Err e) \<Longrightarrow>
     remote_step L v (v\<lparr>rsys_world := s\<rparr>)"
| write_step: "i < length (rsys_writers v) \<Longrightarrow>
     multipart_write L bs (rsys_writers v ! i, rsys_world v) = (ws, r) \<Longrightarrow>
     remote_step L v (set_remote_writer v i ws)"
| publish_step: "i < length (rsys_writers v) \<Longrightarrow>
     multipart_publish L (rsys_writers v ! i, rsys_world v) = (ws, r) \<Longrightarrow>
     remote_step L v (set_remote_writer v i ws)"
| abort_step: "i < length (rsys_writers v) \<Longrightarrow>
     multipart_abort L (rsys_writers v ! i, rsys_world v) = (ws, b) \<Longrightarrow>
     remote_step L v (set_remote_writer v i ws)"
| drop_step: "i < length (rsys_writers v) \<Longrightarrow>
     multipart_drop L (rsys_writers v ! i, rsys_world v) = ws \<Longrightarrow>
     remote_step L v (set_remote_writer v i ws)"
| cancel_step: "i < length (rsys_writers v) \<Longrightarrow>
     x = (rsys_writers v ! i)\<lparr>rw_cancellation := token_cancel (rw_cancellation (rsys_writers v ! i))\<rparr> \<Longrightarrow>
     remote_step L v (set_remote_writer v i (x, rsys_world v))"
| head_step: "object_head L obj token operation (rsys_world v) = (s, m) \<Longrightarrow>
     remote_step L v (v\<lparr>rsys_world := s\<rparr>)"
| read_step: "object_read_range L obj offset len token operation (rsys_world v) = (s, bs) \<Longrightarrow>
     remote_step L v (v\<lparr>rsys_world := s\<rparr>)"
| list_step: "remote_store_list L config prefix token (rsys_world v) = (s, ms) \<Longrightarrow>
     remote_step L v (v\<lparr>rsys_world := s\<rparr>)"
| delete_step: "object_delete L obj token (rsys_world v) = (s, d) \<Longrightarrow>
     remote_step L v (v\<lparr>rsys_world := s\<rparr>)"
| build_step: "build_store L config (rsys_world v) = (s, k) \<Longrightarrow>
     remote_step L v (v\<lparr>rsys_world := s\<rparr>)"

inductive_cases remote_stepE: "remote_step L v w"

definition remote_init :: "'r remote_system \<Rightarrow> bool" where
  "remote_init v \<longleftrightarrow>
     rsys_writers v = [] \<and> active_requests (rsys_world v) = 0 \<and> active_multipart (rsys_world v) = 0"

definition remote_reachable :: "'r remote_lib \<Rightarrow> 'r remote_system \<Rightarrow> bool" where
  "remote_reachable L v \<longleftrightarrow> (\<exists>v0. remote_init v0 \<and> (remote_step L)\<^sup>*\<^sup>* v0 v)"

section \<open>The invariant\<close>

definition upload_count :: "remote_writer list \<Rightarrow> nat" where
  "upload_count ws = length (filter rw_active ws)"

definition writer_sound :: "remote_writer \<Rightarrow> bool" where
  "writer_sound w \<longleftrightarrow> (rw_active w \<longleftrightarrow> rw_upload w \<noteq> None)"

definition remote_inv :: "'r remote_system \<Rightarrow> bool" where
  "remote_inv v \<longleftrightarrow>
     active_requests (rsys_world v) = 0 \<and>
     active_multipart (rsys_world v) = word_of_nat (upload_count (rsys_writers v)) \<and>
     list_all writer_sound (rsys_writers v)"

lemma upload_count_update:
  assumes "i < length ws"
  shows "upload_count (ws[i := x]) + (if rw_active (ws ! i) then 1 else 0) =
    upload_count ws + (if rw_active x then 1 else 0)"
  using assms
proof (induction ws arbitrary: i)
  case (Cons w ws)
  then show ?case by (cases i) (auto simp: upload_count_def)
qed simp

text \<open>The one argument of every step on a writer.\<close>

definition settles :: "'r remote_writer_world \<Rightarrow> 'r remote_writer_world \<Rightarrow> bool" where
  "settles ws ws' \<longleftrightarrow>
     active_requests (snd ws') = active_requests (snd ws) \<and> writer_sound (fst ws') \<and>
     active_multipart (snd ws') + (if rw_active (fst ws) then 1 else 0) =
       active_multipart (snd ws) + (if rw_active (fst ws') then 1 else 0)"

lemma remote_inv_update:
  assumes inv: "remote_inv v" and i: "i < length (rsys_writers v)"
    and s: "settles (rsys_writers v ! i, rsys_world v) ws"
  shows "remote_inv (set_remote_writer v i ws)"
proof -
  let ?ws = "(rsys_writers v)[i := fst ws]"
  have "active_multipart (snd ws) + (if rw_active (rsys_writers v ! i) then 1 else 0) =
      word_of_nat (upload_count (rsys_writers v) + (if rw_active (fst ws) then 1 else 0))"
    using inv s by (simp add: settles_def remote_inv_def)
  also have "\<dots> = word_of_nat (upload_count ?ws + (if rw_active (rsys_writers v ! i) then 1 else 0))"
    using upload_count_update [OF i, of "fst ws"] by simp
  finally have "active_multipart (snd ws) = word_of_nat (upload_count ?ws)" by (simp split: if_splits)
  moreover have "list_all writer_sound ?ws"
    using inv s set_update_subset_insert [of "rsys_writers v" i "fst ws"]
    by (auto simp: remote_inv_def settles_def list_all_iff)
  ultimately show ?thesis using inv s by (simp add: remote_inv_def settles_def set_remote_writer_def)
qed

lemma finish_active_eq:
  "finish_active (w, s) =
     (w\<lparr>rw_active := False\<rparr>, s\<lparr>active_multipart := active_multipart s - (if rw_active w then 1 else 0)\<rparr>)"
  by (simp add: finish_active_def)

lemma publish_settles:
  assumes "writer_sound w" and "multipart_publish L (w, s) = (ws, r)"
  shows "settles (w, s) ws"
proof (cases "cancelled_flag (rw_cancellation w) \<or> rw_upload w = None")
  case True
  then show ?thesis using assms
    by (auto simp: multipart_publish_def token_check_def settles_def split: if_splits)
next
  case False
  then obtain u where u: "rw_upload w = Some u" and act: "rw_active w"
    using assms(1) by (auto simp: writer_sound_def)
  obtain t c where t: "remote_call L OpS3WriterPublish True (remote_finish L u) s = (t, c)" by fastforce
  note first = neutralD [OF neutral_call t]
  let ?t = "t\<lparr>active_multipart := active_multipart t - 1\<rparr>"
  obtain t' q where t': "remote_call L OpS3WriterPublish True (remote_head L (rw_destination w)) ?t = (t', q)"
    by fastforce
  note second = neutralD [OF neutral_call t']
  show ?thesis
    using assms(2) False u act t t' first second
    by (auto simp: multipart_publish_def token_check_def finish_active_eq settles_def writer_sound_def
        split: sum.splits)
qed

lemma abort_settles:
  assumes "writer_sound w" and "multipart_abort L (w, s) = (ws, r)"
  shows "settles (w, s) ws"
proof (cases "rw_active w")
  case False
  then show ?thesis using assms by (auto simp: multipart_abort_def settles_def)
next
  case True
  then obtain u where u: "rw_upload w = Some u" using assms(1) by (auto simp: writer_sound_def)
  obtain t c where t: "remote_call L OpS3WriterAbort False (remote_abort L u) s = (t, c)" by fastforce
  note first = neutralD [OF neutral_call t]
  show ?thesis
    using assms(2) True u t first
    by (auto simp: multipart_abort_def finish_active_eq settles_def writer_sound_def Let_def)
qed

lemma write_settles:
  assumes "writer_sound w" and "multipart_write L bs (w, s) = (ws, r)"
  shows "settles (w, s) ws"
  using assms
  by (auto simp: multipart_write_def settles_def writer_sound_def
      split: if_splits option.splits prod.splits sum.splits)

lemma remote_inv_world:
  assumes "remote_inv v" and "neutral m" and "m (rsys_world v) = (s, r)"
  shows "remote_inv (v\<lparr>rsys_world := s\<rparr>)"
  using assms(1) neutralD [OF assms(2,3)] by (simp add: remote_inv_def)

lemma remote_inv_step:
  assumes inv: "remote_inv v" and step: "remote_step L v w"
  shows "remote_inv w"
proof -
  have sound: "writer_sound (rsys_writers v ! i)" if "i < length (rsys_writers v)" for i
    using inv that by (simp add: remote_inv_def list_all_length)
  from step show ?thesis
  proof cases
    case (open_step obj token s x)
    then obtain u up where call: "remote_call L OpS3WriterOpen True
        (remote_put_multipart L (ro_path obj) (multipart_part_size (ro_config obj))) (rsys_world v) = (u, Ok up)"
      and "s = u\<lparr>active_multipart := active_multipart u + 1\<rparr>"
      and "rw_active x" "rw_upload x = Some up"
      by (auto simp: open_multipart_def elim!: act_bind_cases)
    then show ?thesis using inv neutralD [OF neutral_call call] open_step(1)
      by (simp add: remote_inv_def upload_count_def writer_sound_def)
  next
    case (open_failed obj token s e)
    then have "remote_call L OpS3WriterOpen True
        (remote_put_multipart L (ro_path obj) (multipart_part_size (ro_config obj))) (rsys_world v) = (s, Err e)"
      by (auto simp: open_multipart_def elim!: act_bind_cases)
    from remote_inv_world [OF inv neutral_call this] open_failed(1) show ?thesis by simp
  next
    case (write_step i bs ws r)
    show ?thesis unfolding write_step(1)
      by (rule remote_inv_update [OF inv write_step(2) write_settles [OF sound write_step(3)]]) fact
  next
    case (publish_step i ws r)
    show ?thesis unfolding publish_step(1)
      by (rule remote_inv_update [OF inv publish_step(2) publish_settles [OF sound publish_step(3)]]) fact
  next
    case (abort_step i ws b)
    show ?thesis unfolding abort_step(1)
      by (rule remote_inv_update [OF inv abort_step(2) abort_settles [OF sound abort_step(3)]]) fact
  next
    case (drop_step i ws)
    have "settles (rsys_writers v ! i, rsys_world v) ws"
    proof (cases "rw_active (rsys_writers v ! i)")
      case True
      then show ?thesis
        using abort_settles [OF sound [OF drop_step(2)], of L "rsys_world v"] drop_step(3)
        by (simp add: multipart_drop_def) (metis surjective_pairing)
    next
      case False
      then show ?thesis using drop_step(3) sound [OF drop_step(2)]
        by (auto simp: multipart_drop_def settles_def)
    qed
    then show ?thesis unfolding drop_step(1) by (rule remote_inv_update [OF inv drop_step(2)])
  next
    case (cancel_step i x)
    have "settles (rsys_writers v ! i, rsys_world v) (x, rsys_world v)"
      using sound [OF cancel_step(2)] cancel_step(3) by (simp add: settles_def writer_sound_def)
    then show ?thesis unfolding cancel_step(1) by (rule remote_inv_update [OF inv cancel_step(2)])
  next
    case head_step
    then show ?thesis using remote_inv_world [OF inv neutral_objects(1)] by blast
  next
    case read_step
    then show ?thesis using remote_inv_world [OF inv neutral_objects(2)] by blast
  next
    case list_step
    then show ?thesis using remote_inv_world [OF inv neutral_objects(5)] by blast
  next
    case delete_step
    then show ?thesis using remote_inv_world [OF inv neutral_objects(4)] by blast
  next
    case build_step
    then show ?thesis using remote_inv_world [OF inv neutral_objects(6)] by blast
  qed
qed

lemma remote_inv_reachable: "remote_reachable L v \<Longrightarrow> remote_inv v"
proof -
  assume "remote_reachable L v"
  then obtain v0 where init: "remote_init v0" and steps: "(remote_step L)\<^sup>*\<^sup>* v0 v"
    by (auto simp: remote_reachable_def)
  from steps show ?thesis
    by (induction rule: rtranclp_induct)
      (use init remote_inv_step in \<open>auto simp: remote_init_def remote_inv_def upload_count_def\<close>)
qed

text \<open>C16: the global S3 counters are exact: whatever operations run on whatever remote service, with
  any answers, failures and cancellations, between operations no request is counted as active,
  the number of active multipart uploads is the number of writers that are neither published,
  aborted nor dropped, and a writer holds an upload exactly while it is active, so that none is
  finished or aborted twice.\<close>

theorem s3_counters_exact:
  assumes "remote_reachable L v"
  shows "active_requests (rsys_world v) = 0 \<and>
    active_multipart (rsys_world v) = word_of_nat (length (filter rw_active (rsys_writers v))) \<and>
    (\<forall>i < length (rsys_writers v).
       rw_active (rsys_writers v ! i) \<longleftrightarrow> rw_upload (rsys_writers v ! i) \<noteq> None)"
  using remote_inv_reachable [OF assms]
  by (simp add: remote_inv_def upload_count_def writer_sound_def list_all_length)

text \<open>A service on which everything succeeds; one writer is opened.\<close>

definition sample_remote_lib :: "unit remote_lib" where
  "sample_remote_lib =
     \<lparr>remote_runtime = True, remote_build = (\<lambda>b. True), remote_path = Some, remote_race = (\<lambda>r. (r, False)),
      remote_head = (\<lambda>p r. (r, Ok \<lparr>om_location = p, om_size = 0, om_modified_nanos = None\<rparr>)),
      remote_get_range = (\<lambda>p a b r. (r, Ok [])), remote_list = (\<lambda>p r. (r, Ok [])),
      remote_delete = (\<lambda>p r. (r, Ok ())), remote_put_multipart = (\<lambda>p n r. (r, Ok 5)),
      remote_wait_capacity = (\<lambda>u n r. (r, Ok ())), remote_write_part = (\<lambda>u bs r. r),
      remote_finish = (\<lambda>u r. (r, Ok ())), remote_abort = (\<lambda>u r. (r, Ok ()))\<rparr>"

definition sample_s3_config :: s3_config where
  "sample_s3_config =
     \<lparr>s3_bucket = ''b'', s3_key = [], s3_endpoint = None, s3_region = ''r'', s3_path_style = False,
      s3_tls = True, request_timeout_ms = 1, max_retries = 1, credential_provider = ''standard'',
      access_key_id = None, secret_access_key = None, session_token = None, max_request_concurrency = 1,
      multipart_part_size = 5, max_in_flight_parts = 2\<rparr>"

definition idle_remote :: "unit remote_world" where
  "idle_remote =
     \<lparr>remote_state = (), active_requests = 0, peak_requests = 0, active_multipart = 0,
      range_requests = 0, range_bytes = 0, clients_created = 0\<rparr>"

definition sample_uploading :: "unit remote_system" where
  "sample_uploading =
     \<lparr>rsys_world = idle_remote\<lparr>peak_requests := 1, active_multipart := 1\<rparr>,
      rsys_writers =
        [\<lparr>rw_destination = ''k'', rw_upload = Some 5, rw_cancellation = token_default,
          rw_max_in_flight = 2, rw_active = True, rw_bytes_written = 0\<rparr>]\<rparr>"

lemma sample_uploading_reachable: "remote_reachable sample_remote_lib sample_uploading"
proof -
  let ?v = "\<lparr>rsys_world = idle_remote, rsys_writers = []\<rparr>"
  have "remote_step sample_remote_lib ?v sample_uploading"
    using open_step [of sample_remote_lib "\<lparr>ro_path = ''k'', ro_config = sample_s3_config\<rparr>" token_default ?v]
    by (simp add: open_multipart_def remote_call_def s3_runtime_def race_call_def sample_remote_lib_def
        sample_s3_config_def idle_remote_def sample_uploading_def act_bind_def act_lift_def act_map_err_def
        Let_def)
  moreover have "remote_init ?v" by (simp add: remote_init_def idle_remote_def)
  ultimately show ?thesis unfolding remote_reachable_def by (intro exI [of _ ?v]) auto
qed

theorem s3_counters_exact_witness:
  "remote_reachable sample_remote_lib sample_uploading \<and>
   active_multipart (rsys_world sample_uploading) = 1 \<and>
   length (filter rw_active (rsys_writers sample_uploading)) = 1"
  using s3_counters_exact [OF sample_uploading_reachable] sample_uploading_reachable
  by (simp add: sample_uploading_def)

end
