(* ===== verification/Batch_Codec.thy ===== *)
theory Batch_Codec
  imports Arrow_Arrays Arrow_Schema Text_Codec
begin

text \<open>
  The boundary between Erlang terms and record batches: \<^verbatim>\<open>decode_batch\<close> of \<^verbatim>\<open>writer.rs\<close> with the
  builders it fills, and \<^verbatim>\<open>encode_batch\<close> of \<^verbatim>\<open>reader.rs\<close>. The term library (\<^verbatim>\<open>rustler\<close>) is the
  record parameter \<open>nif\<close>; its documented behaviour is the locale \<open>term_codec\<close> of \<open>Codec_Laws\<close>.
\<close>

section \<open>Parameters\<close>

text \<open>
  A \<^verbatim>\<open>decode_\<close> function answers \<^const>\<open>None\<close> for a term of another type; \<^verbatim>\<open>encode_bytes\<close> fails when
  no binary can be allocated. A Rust string is its UTF-8 bytes as characters; \<open>text_value\<close> says which
  are valid, \<open>f32_value\<close> which numbers the 32-bit float type has. The 256-bit integers with their
  decimal notation belong to \<^verbatim>\<open>arrow_buffer\<close>.
\<close>

record 't nif =
  decode_atom :: "'t \<Rightarrow> atom option"
  decode_bool :: "'t \<Rightarrow> bool option"
  decode_int :: "bool \<Rightarrow> nat \<Rightarrow> 't \<Rightarrow> int option"
  decode_f32 :: "'t \<Rightarrow> f64 option"
  decode_f64 :: "'t \<Rightarrow> f64 option"
  decode_text :: "'t \<Rightarrow> string option"
  decode_bytes :: "'t \<Rightarrow> bytes option"
  decode_terms :: "'t \<Rightarrow> 't list option"
  decode_shape :: "'t \<Rightarrow> (atom \<times> nat \<times> (string \<times> 't) list) option"
  map_get :: "'t \<Rightarrow> string \<Rightarrow> 't option"
  encode_atom :: "atom \<Rightarrow> 't"
  encode_bool :: "bool \<Rightarrow> 't"
  encode_int :: "int \<Rightarrow> 't"
  encode_f32 :: "f64 \<Rightarrow> 't"
  encode_f64 :: "f64 \<Rightarrow> 't"
  encode_text :: "string \<Rightarrow> 't"
  encode_bytes :: "bytes \<Rightarrow> 't option"
  encode_terms :: "'t list \<Rightarrow> 't"
  encode_shape :: "atom \<times> nat \<times> (string \<times> 't) list \<Rightarrow> 't"
  map_new :: 't
  map_put :: "'t \<Rightarrow> string \<Rightarrow> 't \<Rightarrow> 't option"
  is_map :: "'t \<Rightarrow> bool"
  text_value :: "string \<Rightarrow> bool"
  f32_value :: "f64 \<Rightarrow> bool"
  parse_i256 :: "string \<Rightarrow> int option"
  show_i256 :: "int \<Rightarrow> string"

text \<open>
  The builders of \<^verbatim>\<open>arrow\<close> and \<^verbatim>\<open>RecordBatch::try_new\<close>. \<open>builder_holds\<close> says whether a builder for
  the type can hold the slots: on the empty list, whether \<^verbatim>\<open>make_builder\<close> makes one; on others, whether
  the offsets of its arrays are wide enough. Where it does not, the library panics.
\<close>

record batch_lib =
  builder_holds :: "data_type \<Rightarrow> slot list \<Rightarrow> bool"
  batch_try_new :: "field list \<Rightarrow> array list \<Rightarrow> record_batch option"

section \<open>Terms to slots\<close>

text \<open>
  A builder receives one slot for each call of \<^verbatim>\<open>append_value\<close>; the functions return that slot. A
  nested builder's slot is what its child received since the last slot. The builder made for a type
  is the one the downcasts of that type ask for, so that \<^verbatim>\<open>Arrow builder mismatch\<close> is not a result.
\<close>

definition invalid_batch :: "string \<Rightarrow> native_failure" where
  "invalid_batch message = failure_invalid OpParquetWriterWrite message"

definition is_nil :: "'t nif \<Rightarrow> 't \<Rightarrow> bool" where
  "is_nil N t \<longleftrightarrow> decode_atom N t = Some ''nil''"

definition primitive_value :: "'t nif \<Rightarrow> ('t \<Rightarrow> slot option) \<Rightarrow> 't \<Rightarrow> slot native_result" where
  "primitive_value N decode t =
     (if is_nil N t then Ok NullSlot
      else ok_or (decode t) (invalid_batch ''batch value has the wrong type''))"

definition decimal_value :: "'t nif \<Rightarrow> (string \<Rightarrow> int option) \<Rightarrow> 't \<Rightarrow> slot native_result" where
  "decimal_value N parse_text t =
     (if is_nil N t then Ok NullSlot
      else
        and_then (ok_or (decode_text N t)
            (invalid_batch ''decimal values must be unscaled integer strings'')) (\<lambda>text.
        and_then (ok_or (parse_text text)
            (invalid_batch ''decimal value is outside its declared width'')) (\<lambda>i. Ok (IntSlot i))))"

definition string_value :: "'t nif \<Rightarrow> 't \<Rightarrow> slot native_result" where
  "string_value N t =
     (if is_nil N t then Ok NullSlot
      else and_then (ok_or (decode_text N t) (invalid_batch ''expected a string''))
             (\<lambda>s. Ok (TextSlot s)))"

definition binary_value :: "'t nif \<Rightarrow> 't \<Rightarrow> slot native_result" where
  "binary_value N t =
     (if is_nil N t then Ok NullSlot
      else and_then (ok_or (decode_bytes N t) (invalid_batch ''expected a binary''))
             (\<lambda>b. Ok (BytesSlot b)))"

definition fixed_binary_value :: "'t nif \<Rightarrow> int \<Rightarrow> 't \<Rightarrow> slot native_result" where
  "fixed_binary_value N len t =
     (if is_nil N t then Ok NullSlot
      else and_then (ok_or (decode_bytes N t) (invalid_batch ''expected a binary'')) (\<lambda>b.
        if int (length b) \<noteq> len then Err (invalid_batch ''fixed binary has the wrong length'')
        else Ok (BytesSlot b)))"

text \<open>The native integer type of the \<^verbatim>\<open>primitive!\<close> arms: signedness and width.\<close>

definition int_shape :: "data_type \<Rightarrow> (bool \<times> nat) option" where
  "int_shape data_type =
     (case data_type of
        Int8 \<Rightarrow> Some (True, 8) | Int16 \<Rightarrow> Some (True, 16)
      | Int32 \<Rightarrow> Some (True, 32) | Int64 \<Rightarrow> Some (True, 64)
      | UInt8 \<Rightarrow> Some (False, 8) | UInt16 \<Rightarrow> Some (False, 16)
      | UInt32 \<Rightarrow> Some (False, 32) | UInt64 \<Rightarrow> Some (False, 64)
      | Date32 \<Rightarrow> Some (True, 32) | Date64 \<Rightarrow> Some (True, 64)
      | Time32 Second \<Rightarrow> Some (True, 32) | Time32 Millisecond \<Rightarrow> Some (True, 32)
      | Time64 Microsecond \<Rightarrow> Some (True, 64) | Time64 Nanosecond \<Rightarrow> Some (True, 64)
      | Timestamp _ _ \<Rightarrow> Some (True, 64) | Duration _ \<Rightarrow> Some (True, 64)
      | _ \<Rightarrow> None)"

text \<open>The parser and the printer of the \<^verbatim>\<open>decimal!\<close> arms, with the width.\<close>

definition decimal_shape ::
  "'t nif \<Rightarrow> data_type \<Rightarrow> (nat \<times> (string \<Rightarrow> int option) \<times> (int \<Rightarrow> string)) option" where
  "decimal_shape N data_type =
     (case data_type of
        Decimal32 _ _ \<Rightarrow> Some (32, parse_int 32, int_to_string)
      | Decimal64 _ _ \<Rightarrow> Some (64, parse_int 64, int_to_string)
      | Decimal128 _ _ \<Rightarrow> Some (128, parse_int 128, int_to_string)
      | Decimal256 _ _ \<Rightarrow> Some (256, parse_i256 N, show_i256 N)
      | _ \<Rightarrow> None)"

definition append_leaf :: "'t nif \<Rightarrow> data_type \<Rightarrow> 't \<Rightarrow> slot native_result" where
  "append_leaf N data_type t =
     (case int_shape data_type of
        Some (is_signed, width) \<Rightarrow>
          primitive_value N (\<lambda>t. map_option IntSlot (decode_int N is_signed width t)) t
      | None \<Rightarrow>
     (case decimal_shape N data_type of
        Some (width, parse_text, _) \<Rightarrow> decimal_value N parse_text t
      | None \<Rightarrow>
     (case data_type of
        NullType \<Rightarrow>
          if \<not> is_nil N t then Err (invalid_batch ''null column contains a value'') else Ok NullSlot
      | Boolean \<Rightarrow> primitive_value N (\<lambda>t. map_option BoolSlot (decode_bool N t)) t
      | Float32 \<Rightarrow> primitive_value N (\<lambda>t. map_option FloatSlot (decode_f32 N t)) t
      | Float64 \<Rightarrow> primitive_value N (\<lambda>t. map_option FloatSlot (decode_f64 N t)) t
      | Utf8 \<Rightarrow> string_value N t
      | LargeUtf8 \<Rightarrow> string_value N t
      | Binary \<Rightarrow> binary_value N t
      | LargeBinary \<Rightarrow> binary_value N t
      | FixedSizeBinary len \<Rightarrow> fixed_binary_value N len t
      | _ \<Rightarrow> Err (invalid_batch ''batch type is unsupported for writing''))))"

text \<open>
  The null padding of the children of a null fixed list or struct. Every round of the loop over the
  length pads alike, so one stands for all.
\<close>

definition padded_leaf :: "'t nif \<Rightarrow> data_type \<Rightarrow> bool" where
  "padded_leaf N data_type \<longleftrightarrow>
     int_shape data_type \<noteq> None \<or> decimal_shape N data_type \<noteq> None \<or>
     (case data_type of
        NullType \<Rightarrow> True | Boolean \<Rightarrow> True | Float32 \<Rightarrow> True | Float64 \<Rightarrow> True
      | Utf8 \<Rightarrow> True | LargeUtf8 \<Rightarrow> True | Binary \<Rightarrow> True | LargeBinary \<Rightarrow> True
      | FixedSizeBinary _ \<Rightarrow> True | _ \<Rightarrow> False)"

fun append_null :: "'t nif \<Rightarrow> data_type \<Rightarrow> unit native_result"
  and append_nulls :: "'t nif \<Rightarrow> field list \<Rightarrow> unit native_result" where
  "append_null N data_type =
     (case data_type of
        ListType _ \<Rightarrow> Ok ()
      | LargeListType _ \<Rightarrow> Ok ()
      | FixedSizeList (Field _ child _) len \<Rightarrow> if 0 < len then append_null N child else Ok ()
      | StructType fs \<Rightarrow> append_nulls N fs
      | leaf \<Rightarrow>
          if padded_leaf N leaf then Ok ()
          else Err (invalid_batch ''nested null padding is unsupported for this type''))"
| "append_nulls N [] = Ok ()"
| "append_nulls N (Field _ child _ # fs) = and_then (append_null N child) (\<lambda>_. append_nulls N fs)"

declare append_null.simps [simp del]

definition list_terms :: "'t nif \<Rightarrow> 't \<Rightarrow> 't list native_result" where
  "list_terms N t = ok_or (decode_terms N t) (invalid_batch ''expected a list'')"

text \<open>The list functions take the recursive call for the values, \<open>append_item\<close>, as an argument.\<close>

definition list_value ::
  "'t nif \<Rightarrow> ('t \<Rightarrow> slot native_result) \<Rightarrow> 't \<Rightarrow> slot native_result" where
  "list_value N append_item t =
     (if is_nil N t then Ok NullSlot
      else
        and_then (list_terms N t) (\<lambda>ts.
        and_then (collect_results (map append_item ts)) (\<lambda>ss. Ok (ListSlot ss))))"

definition fixed_list_value ::
  "'t nif \<Rightarrow> ('t \<Rightarrow> slot native_result) \<Rightarrow> data_type \<Rightarrow> int \<Rightarrow> 't \<Rightarrow> slot native_result" where
  "fixed_list_value N append_item child len t =
     (if is_nil N t
      then and_then (if 0 < len then append_null N child else Ok ()) (\<lambda>_. Ok NullSlot)
      else
        and_then (list_terms N t) (\<lambda>ts.
        if int (length ts) \<noteq> len mod 2 ^ 64
        then Err (invalid_batch ''fixed list has the wrong length'')
        else and_then (collect_results (map append_item ts)) (\<lambda>ss. Ok (ListSlot ss))))"

fun append_value :: "'t nif \<Rightarrow> data_type \<Rightarrow> bool \<Rightarrow> 't \<Rightarrow> slot native_result"
  and append_fields :: "'t nif \<Rightarrow> field list \<Rightarrow> 't \<Rightarrow> slot list native_result" where
  "append_value N data_type nullable t =
     (if is_nil N t \<and> \<not> nullable
      then Err (invalid_batch ''null value violates a non-nullable field'')
      else
        (case data_type of
           ListType (Field _ child child_nullable) \<Rightarrow>
             list_value N (\<lambda>v. append_value N child child_nullable v) t
         | LargeListType (Field _ child child_nullable) \<Rightarrow>
             list_value N (\<lambda>v. append_value N child child_nullable v) t
         | FixedSizeList (Field _ child child_nullable) len \<Rightarrow>
             fixed_list_value N (\<lambda>v. append_value N child child_nullable v) child len t
         | StructType fs \<Rightarrow>
             if is_nil N t then and_then (append_nulls N fs) (\<lambda>_. Ok NullSlot)
             else and_then (append_fields N fs t) (\<lambda>ss. Ok (StructSlot ss))
         | leaf \<Rightarrow> append_leaf N leaf t))"
| "append_fields N [] t = Ok []"
| "append_fields N (Field name child child_nullable # fs) t =
     and_then (ok_or (map_get N t name) (invalid_batch ''struct field is missing'')) (\<lambda>v.
     and_then (append_value N child child_nullable v) (\<lambda>s.
     and_then (append_fields N fs t) (\<lambda>ss. Ok (s # ss))))"

declare append_value.simps [simp del]

section \<open>Terms to batches\<close>

definition unwind_result ::
  "'a native_result unwind \<Rightarrow> ('a \<Rightarrow> 'b native_result unwind) \<Rightarrow> 'b native_result unwind" where
  "unwind_result r f =
     (case r of
        Panicked \<Rightarrow> Panicked
      | Returned (Inl e) \<Rightarrow> Returned (Err e)
      | Returned (Inr x) \<Rightarrow> f x)"

text \<open>The loop over the terms; \<open>ss\<close> is what the builder holds so far.\<close>

fun append_terms ::
  "'t nif \<Rightarrow> batch_lib \<Rightarrow> field \<Rightarrow> slot list \<Rightarrow> 't list \<Rightarrow> slot list native_result unwind" where
  "append_terms N B field ss [] = Returned (Ok ss)"
| "append_terms N B field ss (t # ts) =
     (case append_value N (field_data_type field) (field_nullable field) t of
        Inl e \<Rightarrow> Returned (Err e)
      | Inr s \<Rightarrow>
          if builder_holds B (field_data_type field) (ss @ [s])
          then append_terms N B field (ss @ [s]) ts
          else Panicked)"

definition build_array ::
  "'t nif \<Rightarrow> batch_lib \<Rightarrow> field \<Rightarrow> 't list \<Rightarrow> array native_result unwind" where
  "build_array N B field terms =
     (if \<not> builder_holds B (field_data_type field) [] then Panicked
      else unwind_result (append_terms N B field [] terms) (\<lambda>ss.
        Returned (Ok \<lparr>array_type = field_data_type field, array_slots = ss\<rparr>)))"

fun decode_columns ::
  "'t nif \<Rightarrow> batch_lib \<Rightarrow> nat \<Rightarrow> (string \<times> 't) list \<Rightarrow> field list \<Rightarrow> array list native_result unwind" where
  "decode_columns N B row_count ((name, column) # columns) (field # fs) =
     (if name \<noteq> field_name field
      then Returned (Err (invalid_batch ''batch schema does not match writer schema''))
      else
        (case decode_terms N column of
           None \<Rightarrow> Returned (Err (invalid_batch ''batch column is not a list''))
         | Some terms \<Rightarrow>
             if length terms \<noteq> row_count
             then Returned (Err (invalid_batch ''batch column lengths do not match''))
             else
               unwind_result (build_array N B field terms) (\<lambda>a.
               unwind_result (decode_columns N B row_count columns fs) (\<lambda>rest.
               Returned (Ok (a # rest))))))"
| "decode_columns N B row_count _ _ = Returned (Ok [])"

definition decode_batch ::
  "'t nif \<Rightarrow> batch_lib \<Rightarrow> 't \<Rightarrow> field list \<Rightarrow> nat \<Rightarrow> record_batch native_result unwind" where
  "decode_batch N B t schema max_rows =
     (case decode_shape N t of
        None \<Rightarrow> Returned (Err (invalid_batch ''invalid batch boundary''))
      | Some (tag, row_count, columns) \<Rightarrow>
          if tag \<noteq> ''batch'' \<or> max_rows < row_count \<or> length columns \<noteq> length schema
          then Returned (Err (invalid_batch ''batch shape or row bound is invalid''))
          else
            unwind_result (decode_columns N B row_count columns schema) (\<lambda>arrays.
            Returned (ok_or (batch_try_new B schema arrays)
              (invalid_batch ''batch arrays are invalid''))))"

section \<open>Batches to terms\<close>

definition array_mismatch :: native_failure where
  "array_mismatch = failure_expected OpReaderNext ''Arrow array did not match its declared type''"

definition nil_term :: "'t nif \<Rightarrow> 't" where
  "nil_term N = encode_atom N ''nil''"

definition bytes_term :: "'t nif \<Rightarrow> bytes \<Rightarrow> 't native_result" where
  "bytes_term N bs =
     ok_or (encode_bytes N bs) (failure_expected OpReaderNext ''binary allocation failed'')"

text \<open>A downcast to the array class of another type than the array's fails.\<close>

definition encode_boolean :: "'t nif \<Rightarrow> slot \<Rightarrow> 't native_result" where
  "encode_boolean N s = (case s of BoolSlot b \<Rightarrow> Ok (encode_bool N b) | _ \<Rightarrow> Err array_mismatch)"

definition encode_primitive :: "(slot \<Rightarrow> 't option) \<Rightarrow> slot \<Rightarrow> 't native_result" where
  "encode_primitive native_value s = ok_or (native_value s) array_mismatch"

definition encode_decimal :: "'t nif \<Rightarrow> (int \<Rightarrow> string) \<Rightarrow> slot \<Rightarrow> 't native_result" where
  "encode_decimal N show_int s =
     (case s of IntSlot i \<Rightarrow> Ok (encode_text N (show_int i)) | _ \<Rightarrow> Err array_mismatch)"

definition encode_string :: "'t nif \<Rightarrow> slot \<Rightarrow> 't native_result" where
  "encode_string N s = (case s of TextSlot x \<Rightarrow> Ok (encode_text N x) | _ \<Rightarrow> Err array_mismatch)"

definition encode_binary :: "'t nif \<Rightarrow> slot \<Rightarrow> 't native_result" where
  "encode_binary N s = (case s of BytesSlot b \<Rightarrow> bytes_term N b | _ \<Rightarrow> Err array_mismatch)"

text \<open>The value of an integer or float slot as a term of its native type.\<close>

definition int_native :: "'t nif \<Rightarrow> slot \<Rightarrow> 't option" where
  "int_native N s = (case s of IntSlot i \<Rightarrow> Some (encode_int N i) | _ \<Rightarrow> None)"

definition float_native :: "(f64 \<Rightarrow> 't) \<Rightarrow> slot \<Rightarrow> 't option" where
  "float_native enc s = (case s of FloatSlot x \<Rightarrow> Some (enc x) | _ \<Rightarrow> None)"

definition encode_leaf :: "'t nif \<Rightarrow> data_type \<Rightarrow> slot \<Rightarrow> 't native_result" where
  "encode_leaf N data_type s =
     (case int_shape data_type of
        Some _ \<Rightarrow> encode_primitive (int_native N) s
      | None \<Rightarrow>
     (case decimal_shape N data_type of
        Some (_, _, show_int) \<Rightarrow> encode_decimal N show_int s
      | None \<Rightarrow>
     (case data_type of
        NullType \<Rightarrow> Ok (nil_term N)
      | Boolean \<Rightarrow> encode_boolean N s
      | Float32 \<Rightarrow> encode_primitive (float_native (encode_f32 N)) s
      | Float64 \<Rightarrow> encode_primitive (float_native (encode_f64 N)) s
      | Utf8 \<Rightarrow> encode_string N s
      | LargeUtf8 \<Rightarrow> encode_string N s
      | Binary \<Rightarrow> encode_binary N s
      | LargeBinary \<Rightarrow> encode_binary N s
      | FixedSizeBinary _ \<Rightarrow> encode_binary N s
      | _ \<Rightarrow>
          Err (failure_new Unsupported OpReaderNext
            ''Parquet batch contains an unsupported logical type''))))"

definition encode_slots :: "'t nif \<Rightarrow> (slot \<Rightarrow> 't native_result) \<Rightarrow> slot list \<Rightarrow> 't native_result" where
  "encode_slots N encode_item ss =
     and_then (collect_results (map encode_item ss)) (\<lambda>ts. Ok (encode_terms N ts))"

definition encode_list :: "'t nif \<Rightarrow> (slot \<Rightarrow> 't native_result) \<Rightarrow> slot \<Rightarrow> 't native_result" where
  "encode_list N encode_item s =
     (case s of ListSlot ss \<Rightarrow> encode_slots N encode_item ss | _ \<Rightarrow> Err array_mismatch)"

fun encode_value :: "'t nif \<Rightarrow> data_type \<Rightarrow> slot \<Rightarrow> 't native_result"
  and encode_members :: "'t nif \<Rightarrow> field list \<Rightarrow> slot list \<Rightarrow> 't \<Rightarrow> 't native_result" where
  "encode_value N data_type s =
     (if s = NullSlot then Ok (nil_term N)
      else
        (case data_type of
           ListType (Field _ child _) \<Rightarrow> encode_list N (\<lambda>v. encode_value N child v) s
         | LargeListType (Field _ child _) \<Rightarrow> encode_list N (\<lambda>v. encode_value N child v) s
         | FixedSizeList (Field _ child _) _ \<Rightarrow> encode_list N (\<lambda>v. encode_value N child v) s
         | StructType fs \<Rightarrow>
             (case s of
                StructSlot ss \<Rightarrow> encode_members N fs ss (map_new N)
              | _ \<Rightarrow> Err array_mismatch)
         | leaf \<Rightarrow> encode_leaf N leaf s))"
| "encode_members N (Field name child _ # fs) (s # ss) m =
     and_then (encode_value N child s) (\<lambda>v.
     and_then (ok_or (map_put N m name v) (failure_expected OpReaderNext ''map encoding failed''))
       (\<lambda>m. encode_members N fs ss m))"
| "encode_members N _ _ m = Ok m"

declare encode_value.simps [simp del]

definition encode_array :: "'t nif \<Rightarrow> array \<Rightarrow> 't native_result" where
  "encode_array N a =
     encode_slots N (encode_value N (array_type a)) (array_slots a)"

definition encode_batch :: "'t nif \<Rightarrow> record_batch \<Rightarrow> 't native_result" where
  "encode_batch N b =
     and_then (collect_results
         (map (\<lambda>(field, a). and_then (encode_array N a) (\<lambda>t. Ok (field_name field, t)))
           (zip (batch_fields b) (batch_columns b))))
       (\<lambda>columns. Ok (encode_shape N (''batch'', batch_rows b, columns)))"

end
