(* ===== verification/Codec_Laws.thy ===== *)
theory Codec_Laws
  imports Batch_Codec
begin

text \<open>
  The laws of the term library, what it means for a slot to belong to a type, and the two main facts
  about one value: what \<^verbatim>\<open>append_value\<close> accepts is typed, and what \<^verbatim>\<open>encode_value\<close> produces is read
  back by \<^verbatim>\<open>append_value\<close>.
\<close>

section \<open>The term library\<close>

definition int_fits :: "bool \<Rightarrow> nat \<Rightarrow> int \<Rightarrow> bool" where
  "int_fits is_signed width i = (if is_signed then fits_signed width i else fits_unsigned width i)"

locale term_codec =
  fixes N :: "'t nif"
  assumes atom_law: "decode_atom N (encode_atom N a) = Some a"
    and bool_law: "decode_bool N (encode_bool N b) = Some b"
    and int_law: "int_fits sg width i \<Longrightarrow> decode_int N sg width (encode_int N i) = Some i"
    and int_bound: "decode_int N sg width t = Some i \<Longrightarrow> int_fits sg width i"
    and f32_law: "f32_value N x \<Longrightarrow> decode_f32 N (encode_f32 N x) = Some x"
    and f32_bound: "decode_f32 N t = Some x \<Longrightarrow> f32_value N x"
    and f64_law: "is_finite x \<Longrightarrow> decode_f64 N (encode_f64 N x) = Some x"
    and f64_bound: "decode_f64 N t = Some x \<Longrightarrow> is_finite x"
    and text_law: "text_value N s \<Longrightarrow> decode_text N (encode_text N s) = Some s"
    and text_bound: "decode_text N t = Some s \<Longrightarrow> text_value N s"
    and bytes_law: "encode_bytes N bs = Some t \<Longrightarrow> decode_bytes N t = Some bs"
    and terms_law: "decode_terms N (encode_terms N ts) = Some ts"
    and shape_law: "n < 2 ^ 64 \<Longrightarrow> list_all (\<lambda>c. text_value N (fst c)) columns \<Longrightarrow>
      decode_shape N (encode_shape N (a, n, columns)) = Some (a, n, columns)"
    and new_law: "is_map N (map_new N)"
    and put_law: "is_map N m \<Longrightarrow> \<exists>m'. map_put N m k v = Some m' \<and> is_map N m' \<and>
      (\<forall>j. map_get N m' j = (if j = k then Some v else map_get N m j))"
    and plain_not_nil:
      "decode_atom N (encode_bool N b) \<noteq> Some ''nil''" "decode_atom N (encode_int N i) \<noteq> Some ''nil''"
      "decode_atom N (encode_f32 N x) \<noteq> Some ''nil''" "decode_atom N (encode_f64 N x) \<noteq> Some ''nil''"
      "decode_atom N (encode_text N s) \<noteq> Some ''nil''"
      "decode_atom N (encode_terms N ts) \<noteq> Some ''nil''"
    and bytes_not_nil: "encode_bytes N bs = Some t \<Longrightarrow> decode_atom N t \<noteq> Some ''nil''"
    and map_not_nil: "is_map N m \<Longrightarrow> decode_atom N m \<noteq> Some ''nil''"
    and digits_text: "text_value N (int_to_string i)"
    and i256_law: "fits_signed 256 i \<Longrightarrow>
      parse_i256 N (show_i256 N i) = Some i \<and> text_value N (show_i256 N i)"
    and i256_bound: "parse_i256 N s = Some i \<Longrightarrow> fits_signed 256 i"

section \<open>Typed slots\<close>

definition leaf_typed :: "'t nif \<Rightarrow> data_type \<Rightarrow> slot \<Rightarrow> bool" where
  "leaf_typed N data_type s =
     (case int_shape data_type of
        Some (sg, width) \<Rightarrow> (case s of IntSlot i \<Rightarrow> int_fits sg width i | _ \<Rightarrow> False)
      | None \<Rightarrow>
     (case decimal_shape N data_type of
        Some (width, _, _) \<Rightarrow> (case s of IntSlot i \<Rightarrow> fits_signed width i | _ \<Rightarrow> False)
      | None \<Rightarrow>
     (case (data_type, s) of
        (Boolean, BoolSlot _) \<Rightarrow> True
      | (Float32, FloatSlot x) \<Rightarrow> f32_value N x
      | (Float64, FloatSlot x) \<Rightarrow> is_finite x
      | (Utf8, TextSlot x) \<Rightarrow> text_value N x
      | (LargeUtf8, TextSlot x) \<Rightarrow> text_value N x
      | (Binary, BytesSlot _) \<Rightarrow> True
      | (LargeBinary, BytesSlot _) \<Rightarrow> True
      | (FixedSizeBinary len, BytesSlot b) \<Rightarrow> int (length b) = len
      | _ \<Rightarrow> False)))"

fun slot_typed :: "'t nif \<Rightarrow> data_type \<Rightarrow> bool \<Rightarrow> slot \<Rightarrow> bool"
  and slots_typed :: "'t nif \<Rightarrow> field list \<Rightarrow> slot list \<Rightarrow> bool" where
  "slot_typed N data_type nullable s =
     (if s = NullSlot then nullable
      else
        (case data_type of
           ListType (Field _ child child_nullable) \<Rightarrow>
             (case s of ListSlot ss \<Rightarrow> list_all (slot_typed N child child_nullable) ss | _ \<Rightarrow> False)
         | LargeListType (Field _ child child_nullable) \<Rightarrow>
             (case s of ListSlot ss \<Rightarrow> list_all (slot_typed N child child_nullable) ss | _ \<Rightarrow> False)
         | FixedSizeList (Field _ child child_nullable) len \<Rightarrow>
             (case s of
                ListSlot ss \<Rightarrow>
                  int (length ss) = len mod 2 ^ 64 \<and> list_all (slot_typed N child child_nullable) ss
              | _ \<Rightarrow> False)
         | StructType fs \<Rightarrow> (case s of StructSlot ss \<Rightarrow> slots_typed N fs ss | _ \<Rightarrow> False)
         | leaf \<Rightarrow> leaf_typed N leaf s))"
| "slots_typed N [] ss = (ss = [])"
| "slots_typed N (Field _ child child_nullable # fs) ss =
     (case ss of
        [] \<Rightarrow> False
      | s # rest \<Rightarrow> slot_typed N child child_nullable s \<and> slots_typed N fs rest)"

declare slot_typed.simps [simp del]

text \<open>
  The types the codec supports, and the schemas on which it is injective: fixed lengths are not
  negative and the members of a struct have different names.
\<close>

fun supported_type :: "'t nif \<Rightarrow> data_type \<Rightarrow> bool"
  and supported_fields :: "'t nif \<Rightarrow> field list \<Rightarrow> bool" where
  "supported_type N data_type =
     (case data_type of
        ListType (Field _ child _) \<Rightarrow> supported_type N child
      | LargeListType (Field _ child _) \<Rightarrow> supported_type N child
      | FixedSizeList (Field _ child _) _ \<Rightarrow> supported_type N child
      | StructType fs \<Rightarrow> supported_fields N fs
      | leaf \<Rightarrow> padded_leaf N leaf)"
| "supported_fields N [] = True"
| "supported_fields N (Field _ child _ # fs) = (supported_type N child \<and> supported_fields N fs)"

fun regular_type :: "data_type \<Rightarrow> bool" and regular_fields :: "field list \<Rightarrow> bool" where
  "regular_type data_type =
     (case data_type of
        ListType (Field _ child _) \<Rightarrow> regular_type child
      | LargeListType (Field _ child _) \<Rightarrow> regular_type child
      | FixedSizeList (Field _ child _) len \<Rightarrow> 0 \<le> len \<and> regular_type child
      | FixedSizeBinary len \<Rightarrow> 0 \<le> len
      | StructType fs \<Rightarrow> distinct (map field_name fs) \<and> regular_fields fs
      | leaf \<Rightarrow> True)"
| "regular_fields [] = True"
| "regular_fields (Field _ child _ # fs) = (regular_type child \<and> regular_fields fs)"

declare supported_type.simps [simp del]
declare regular_type.simps [simp del]

lemma leaf_values:
  "primitive_value N d t = Ok s \<longleftrightarrow> (if is_nil N t then s = NullSlot else d t = Some s)"
  "string_value N t = Ok s \<longleftrightarrow>
     (if is_nil N t then s = NullSlot else \<exists>x. decode_text N t = Some x \<and> s = TextSlot x)"
  "binary_value N t = Ok s \<longleftrightarrow>
     (if is_nil N t then s = NullSlot else \<exists>b. decode_bytes N t = Some b \<and> s = BytesSlot b)"
  "fixed_binary_value N len t = Ok s \<longleftrightarrow>
     (if is_nil N t then s = NullSlot
      else \<exists>b. decode_bytes N t = Some b \<and> int (length b) = len \<and> s = BytesSlot b)"
  "decimal_value N p t = Ok s \<longleftrightarrow>
     (if is_nil N t then s = NullSlot
      else \<exists>x i. decode_text N t = Some x \<and> p x = Some i \<and> s = IntSlot i)"
  by (auto simp: primitive_value_def string_value_def binary_value_def fixed_binary_value_def
      decimal_value_def result_simps)

lemmas encode_leaf_defs = encode_leaf_def encode_boolean_def encode_primitive_def encode_decimal_def
  encode_string_def encode_binary_def int_native_def float_native_def

lemma parse_int_fits: "parse_int w s = Some i \<Longrightarrow> fits_signed w i"
  by (auto simp: parse_int_def width_simps split: list.splits option.splits if_splits)

section \<open>Induction over types\<close>

definition nested :: "data_type \<Rightarrow> bool" where
  "nested data_type =
     (case data_type of
        ListType _ \<Rightarrow> True | LargeListType _ \<Rightarrow> True | FixedSizeList _ _ \<Rightarrow> True
      | StructType _ \<Rightarrow> True | _ \<Rightarrow> False)"

lemma nested_cases:
  assumes "nested t"
  obtains (list) name child n where "t = ListType (Field name child n)"
    | (large_list) name child n where "t = LargeListType (Field name child n)"
    | (fixed_list) name child n len where "t = FixedSizeList (Field name child n) len"
    | (struct) fs where "t = StructType fs"
  using assms by (cases t) (auto simp: nested_def intro: field.exhaust)

lemma data_type_induct [case_names leaf list large_list fixed_list struct nil cons]:
  assumes "\<And>t. \<not> nested t \<Longrightarrow> P t"
    and "\<And>name child n. P child \<Longrightarrow> P (ListType (Field name child n))"
    and "\<And>name child n. P child \<Longrightarrow> P (LargeListType (Field name child n))"
    and "\<And>name child n len. P child \<Longrightarrow> P (FixedSizeList (Field name child n) len)"
    and "\<And>fs. Q fs \<Longrightarrow> P (StructType fs)"
    and "Q []"
    and "\<And>name child n fs. P child \<Longrightarrow> Q fs \<Longrightarrow> Q (Field name child n # fs)"
  shows "P data_type" and "Q members"
proof (induction data_type and members rule: regular_type_regular_fields.induct)
  case (1 data_type)
  show ?case
  proof (cases data_type)
    case (ListType f)
    obtain nm child n where f: "f = Field nm child n" by (cases f)
    then have "P child" by (rule 1(1) [OF ListType])
    then show ?thesis using assms(2) ListType f by simp
  next
    case (LargeListType f)
    obtain nm child n where f: "f = Field nm child n" by (cases f)
    then have "P child" by (rule 1(2) [OF LargeListType])
    then show ?thesis using assms(3) LargeListType f by simp
  next
    case (FixedSizeList f len)
    obtain nm child n where f: "f = Field nm child n" by (cases f)
    then have "P child" by (rule 1(3) [OF FixedSizeList])
    then show ?thesis using assms(4) FixedSizeList f by simp
  next
    case (StructType fs)
    then show ?thesis using 1(4) assms(5) by blast
  qed (auto intro!: assms(1) simp: nested_def)
qed (use assms(6,7) in blast)+

lemma leaf_equations:
  assumes "\<not> nested dt"
  shows "append_value N dt nullable t =
      (if is_nil N t \<and> \<not> nullable
       then Err (invalid_batch ''null value violates a non-nullable field'') else append_leaf N dt t)"
    and "encode_value N dt s = (if s = NullSlot then Ok (nil_term N) else encode_leaf N dt s)"
    and "slot_typed N dt nullable s = (if s = NullSlot then nullable else leaf_typed N dt s)"
    and "supported_type N dt = padded_leaf N dt"
    and "append_null N dt = (if padded_leaf N dt then Ok ()
       else Err (invalid_batch ''nested null padding is unsupported for this type''))"
  using assms
  by (cases dt; simp add: append_value.simps encode_value.simps slot_typed.simps supported_type.simps
      append_null.simps nested_def)+

lemmas nested_equations = list_value_def fixed_list_value_def encode_list_def encode_slots_def
  append_value.simps [of _ "ListType (Field nm c cn)" for nm c cn]
  append_value.simps [of _ "LargeListType (Field nm c cn)" for nm c cn]
  append_value.simps [of _ "FixedSizeList (Field nm c cn) len" for nm c cn len]
  append_value.simps [of _ "StructType fs" for fs]
  encode_value.simps [of _ "ListType (Field nm c cn)" for nm c cn]
  encode_value.simps [of _ "LargeListType (Field nm c cn)" for nm c cn]
  encode_value.simps [of _ "FixedSizeList (Field nm c cn) len" for nm c cn len]
  encode_value.simps [of _ "StructType fs" for fs]
  slot_typed.simps [of _ "ListType (Field nm c cn)" for nm c cn]
  slot_typed.simps [of _ "LargeListType (Field nm c cn)" for nm c cn]
  slot_typed.simps [of _ "FixedSizeList (Field nm c cn) len" for nm c cn len]
  slot_typed.simps [of _ "StructType fs" for fs]
  supported_type.simps [of _ "ListType (Field nm c cn)" for nm c cn]
  supported_type.simps [of _ "LargeListType (Field nm c cn)" for nm c cn]
  supported_type.simps [of _ "FixedSizeList (Field nm c cn) len" for nm c cn len]
  supported_type.simps [of _ "StructType fs" for fs]
  regular_type.simps [of "ListType (Field nm c cn)" for nm c cn]
  regular_type.simps [of "LargeListType (Field nm c cn)" for nm c cn]
  regular_type.simps [of "FixedSizeList (Field nm c cn) len" for nm c cn len]
  regular_type.simps [of "StructType fs" for fs]
  append_null.simps [of _ "ListType (Field nm c cn)" for nm c cn]
  append_null.simps [of _ "LargeListType (Field nm c cn)" for nm c cn]
  append_null.simps [of _ "FixedSizeList (Field nm c cn) len" for nm c cn len]
  append_null.simps [of _ "StructType fs" for fs]

lemma supported_padded:
  "supported_type N data_type \<Longrightarrow> append_null N data_type = Ok ()"
  "supported_fields N members \<Longrightarrow> append_nulls N members = Ok ()"
  by (induction data_type and members rule: data_type_induct) (auto simp: nested_equations leaf_equations)

context term_codec
begin

lemma decimal_shape_laws:
  assumes "decimal_shape N data_type = Some (width, parse_text, show_int)"
  shows "parse_text s = Some i \<Longrightarrow> fits_signed width i"
    and "fits_signed width i \<Longrightarrow> parse_text (show_int i) = Some i \<and> text_value N (show_int i)"
  using assms i256_law i256_bound parse_int_fits parse_int_to_string digits_text
  by (auto simp: decimal_shape_def split: data_type.splits)

lemma nil_leaf: "padded_leaf N data_type \<Longrightarrow> is_nil N t \<Longrightarrow> append_leaf N data_type t = Ok NullSlot"
  unfolding padded_leaf_def append_leaf_def
  by (auto simp: leaf_values split: option.splits data_type.splits)

lemma append_leaf_typed:
  assumes "append_leaf N data_type t = Ok s" and "\<not> is_nil N t"
  shows "s \<noteq> NullSlot \<and> leaf_typed N data_type s"
proof (cases "int_shape data_type")
  case (Some p)
  then show ?thesis
    using assms int_bound by (cases p) (auto simp: append_leaf_def leaf_typed_def leaf_values)
next
  case none: None
  show ?thesis
  proof (cases "decimal_shape N data_type")
    case (Some p)
    obtain w q sh where p: "p = (w, q, sh)" by (metis surj_pair)
    show ?thesis
      using assms none Some p decimal_shape_laws(1) [OF Some [unfolded p]]
      by (auto simp: append_leaf_def leaf_typed_def leaf_values)
  next
    case None
    then show ?thesis
      using assms none f32_bound f64_bound text_bound
      by (cases data_type) (auto simp: append_leaf_def leaf_typed_def leaf_values)
  qed
qed

lemma leaf_round:
  assumes "encode_leaf N data_type s = Ok t" and "leaf_typed N data_type s"
  shows "\<not> is_nil N t \<and> append_leaf N data_type t = Ok s"
proof (cases "int_shape data_type")
  case (Some p)
  then show ?thesis
    using assms int_law plain_not_nil
    by (cases p; cases s) (auto simp: encode_leaf_defs append_leaf_def leaf_typed_def leaf_values is_nil_def)
next
  case none: None
  show ?thesis
  proof (cases "decimal_shape N data_type")
    case (Some p)
    obtain w q sh where p: "p = (w, q, sh)" by (metis surj_pair)
    obtain i where i: "s = IntSlot i" "fits_signed w i"
      using assms(2) none Some p by (auto simp: leaf_typed_def split: slot.splits)
    have "decode_text N (encode_text N (sh i)) = Some (sh i)" "q (sh i) = Some i"
      using decimal_shape_laws(2) [OF Some [unfolded p] i(2)] text_law by auto
    then show ?thesis
      using assms(1) none Some p i(1) plain_not_nil
      by (auto simp: encode_leaf_defs append_leaf_def leaf_values is_nil_def)
  next
    case None
    then show ?thesis
      using assms none unfolding encode_leaf_defs leaf_typed_def
      by (cases data_type)
        (auto simp: append_leaf_def leaf_values is_nil_def bytes_term_def result_simps bool_law f32_law
          f64_law text_law plain_not_nil dest: bytes_law bytes_not_nil split: slot.splits)
  qed
qed

lemma nil_decodes: "is_nil N (nil_term N)"
  by (simp add: is_nil_def nil_term_def atom_law)

lemma collect_typed:
  assumes "collect_results (map f ts) = Ok ss" and "\<And>t s. f t = Ok s \<Longrightarrow> P s"
  shows "list_all P ss"
proof -
  have "map f ts = map Ok ss" using assms(1) by (simp add: collect_results_Ok_iff)
  then have "\<exists>t. f t = Ok s" if "s \<in> set ss" for s
    using that by (metis (no_types, lifting) ex_map_conv list.set_map rev_image_eqI)
  then show ?thesis using assms(2) by (auto simp: list_all_iff)
qed

lemma append_value_typed:
  "append_value N data_type nullable t = Ok s \<Longrightarrow> slot_typed N data_type nullable s"
  "append_fields N members t = Ok ss \<Longrightarrow> slots_typed N members ss"
proof (induction data_type and members arbitrary: nullable t s and t ss rule: data_type_induct)
  case (leaf dt)
  show ?case
  proof (cases "is_nil N t")
    case True
    then show ?thesis using leaf
      by (auto simp: leaf_equations append_leaf_def leaf_values split: option.splits if_splits data_type.splits)
  next
    case False
    then show ?thesis using leaf append_leaf_typed by (simp add: leaf_equations)
  qed
next
  case (list name child n)
  note typed = collect_typed [where P = "slot_typed N child n"]
  show ?case using list by (auto simp: nested_equations result_simps intro!: typed split: if_splits)
next
  case (large_list name child n)
  note typed = collect_typed [where P = "slot_typed N child n"]
  show ?case using large_list by (auto simp: nested_equations result_simps intro!: typed split: if_splits)
next
  case (fixed_list name child n len)
  note typed = collect_typed [where P = "slot_typed N child n"]
  show ?case
  proof (cases "is_nil N t")
    case True
    then show ?thesis using fixed_list(2) by (auto simp: nested_equations result_simps split: if_splits)
  next
    case False
    then obtain ts ss where ts: "list_terms N t = Ok ts" "int (length ts) = len mod 2 ^ 64"
      and ss: "collect_results (map (append_value N child n) ts) = Ok ss" "s = ListSlot ss"
      using fixed_list(2) by (auto simp: nested_equations result_simps split: if_splits)
    have "list_all (slot_typed N child n) ss" using typed [OF ss(1)] fixed_list(1) by blast
    then show ?thesis using collect_results_length [OF ss(1)] ts(2) ss(2) by (simp add: nested_equations)
  qed
next
  case (struct fs)
  then show ?case by (auto simp: nested_equations result_simps split: if_splits)
next
  case nil
  then show ?case by simp
next
  case (cons name child n fs)
  then show ?case by (auto simp: result_simps)
qed

text \<open>
  A value that encodes is read back. For a struct the members are found in the map under their
  names, whatever else the map holds.
\<close>

definition member_round :: "field list \<Rightarrow> slot list \<Rightarrow> 't \<Rightarrow> 't \<Rightarrow> bool" where
  "member_round fs ss m t \<longleftrightarrow>
     is_map N t \<and> (\<forall>j. j \<notin> set (map field_name fs) \<longrightarrow> map_get N t j = map_get N m j) \<and>
     (\<forall>u. (\<forall>j \<in> set (map field_name fs). map_get N u j = map_get N t j) \<longrightarrow>
        append_fields N fs u = Ok ss)"

lemma collect_round:
  assumes "collect_results (map f ss) = Ok ts"
    and "\<And>s t. s \<in> set ss \<Longrightarrow> f s = Ok t \<Longrightarrow> g t = Ok s"
  shows "collect_results (map g ts) = Ok ss"
  using collect_results_transfer [OF assms(1), of g "\<lambda>s. s"] assms(2) by simp

lemma list_round:
  assumes "collect_results (map (encode_value N child) ss) = Ok ts"
    and "list_all (slot_typed N child n) ss"
    and "\<And>s t. encode_value N child s = Ok t \<Longrightarrow> slot_typed N child n s \<Longrightarrow>
      append_value N child n t = Ok s"
  shows "collect_results (map (append_value N child n) ts) = Ok ss" "list_terms N (encode_terms N ts) = Ok ts"
    "\<not> is_nil N (encode_terms N ts)" "length ts = length ss"
  using collect_round [OF assms(1)] assms terms_law plain_not_nil collect_results_length [OF assms(1)]
  by (auto simp: list_terms_def is_nil_def list_all_iff)

lemma encode_null:
  assumes "slot_typed N dt nullable NullSlot" and "encode_value N dt NullSlot = Ok t"
    and "supported_type N dt"
  shows "append_value N dt nullable t = Ok NullSlot"
proof -
  have t: "t = nil_term N" using assms(2) by (cases dt) (simp_all add: encode_value.simps)
  have nullable using assms(1) by (cases dt) (simp_all add: slot_typed.simps)
  note nil = t nil_decodes \<open>nullable\<close>
  show ?thesis
  proof (cases "nested dt")
    case False
    then show ?thesis using nil assms(3) by (simp add: leaf_equations nil_leaf)
  next
    case True
    have "append_null N dt = Ok ()" by (rule supported_padded(1) [OF assms(3)])
    from True this nil show ?thesis
      by (cases rule: nested_cases) (auto simp: nested_equations)
  qed
qed

end

end
