(* ===== verification/Codec_Proofs.thy ===== *)
theory Codec_Proofs
  imports Codec_Laws
begin

text \<open>
  The round trip of one value, by induction over its type.
\<close>

section \<open>Values\<close>

context term_codec
begin

lemma list_value_round:
  assumes "encode_value N dt s = Ok t" and "supported_type N dt"
    and "dt = ListType (Field name child n) \<or> dt = LargeListType (Field name child n) \<or>
      dt = FixedSizeList (Field name child n) len"
    and "slot_typed N dt nullable s"
    and "\<And>s t. encode_value N child s = Ok t \<Longrightarrow> slot_typed N child n s \<Longrightarrow> append_value N child n t = Ok s"
  shows "append_value N dt nullable t = Ok s"
proof (cases "s = NullSlot")
  case True
  then show ?thesis using encode_null [of dt nullable t] assms(1,2,4) by simp
next
  case False
  then obtain ss where s: "s = ListSlot ss" and ss: "list_all (slot_typed N child n) ss"
    and len: "dt = FixedSizeList (Field name child n) len \<longrightarrow> int (length ss) = len mod 2 ^ 64"
    using assms(3,4) by (auto simp: nested_equations split: slot.splits)
  obtain ts where ts: "collect_results (map (encode_value N child) ss) = Ok ts" and t: "t = encode_terms N ts"
    using assms(1,3) s by (auto simp: nested_equations result_simps)
  note round = list_round [OF ts ss assms(5)]
  show ?thesis using assms(3) len round by (auto simp: nested_equations s t)
qed

lemma encode_round:
  "encode_value N data_type s = Ok t \<Longrightarrow> slot_typed N data_type nullable s \<Longrightarrow>
     supported_type N data_type \<Longrightarrow> regular_type data_type \<Longrightarrow>
     append_value N data_type nullable t = Ok s"
  "encode_members N members ss m = Ok t \<Longrightarrow> is_map N m \<Longrightarrow> slots_typed N members ss \<Longrightarrow>
     supported_fields N members \<Longrightarrow> regular_fields members \<Longrightarrow> distinct (map field_name members) \<Longrightarrow>
     member_round members ss m t"
proof (induction data_type and members arbitrary: nullable s t and ss m t rule: data_type_induct)
  case (leaf dt)
  then show ?case
    using encode_null [of dt nullable t] leaf_round
    by (cases "s = NullSlot") (auto simp: leaf_equations)
next
  case (list name child n)
  show ?case
    by (rule list_value_round [OF list(2,4) disjI1 [OF refl] list(3)])
      (use list(1,4,5) in \<open>simp add: nested_equations\<close>)
next
  case (large_list name child n)
  show ?case
    by (rule list_value_round [OF large_list(2,4) disjI2 [OF disjI1 [OF refl]] large_list(3)])
      (use large_list(1,4,5) in \<open>simp add: nested_equations\<close>)
next
  case (fixed_list name child n len)
  show ?case
    by (rule list_value_round [OF fixed_list(2,4) disjI2 [OF disjI2 [OF refl]] fixed_list(3)])
      (use fixed_list(1,4,5) in \<open>simp add: nested_equations\<close>)
next
  case (struct fs)
  show ?case
  proof (cases "s = NullSlot")
    case True
    then show ?thesis using struct encode_null [of "StructType fs" nullable t] by simp
  next
    case False
    then obtain ss where s: "s = StructSlot ss" and ss: "slots_typed N fs ss"
      and t: "encode_members N fs ss (map_new N) = Ok t"
      using struct(2,3) by (auto simp: nested_equations split: slot.splits)
    have "member_round fs ss (map_new N) t"
      using struct(1) [OF t new_law ss] struct(4,5) by (simp add: nested_equations)
    then show ?thesis
      using map_not_nil [of t] s by (simp add: nested_equations member_round_def is_nil_def)
  qed
next
  case nil
  then show ?case by (simp add: member_round_def)
next
  case (cons name child n fs)
  obtain s ss' where ss: "ss = s # ss'" and s: "slot_typed N child n s" and ss': "slots_typed N fs ss'"
    using cons(5) by (auto split: list.splits)
  obtain v m' where v: "encode_value N child s = Ok v" and m': "map_put N m name v = Some m'"
    and t: "encode_members N fs ss' m' = Ok t"
    using cons(3) ss by (auto simp: result_simps)
  have put: "is_map N m'" "\<And>j. map_get N m' j = (if j = name then Some v else map_get N m j)"
    using put_law [OF cons(4), of name v] m' by auto
  have round: "member_round fs ss' m' t"
    using cons(2) [OF t put(1) ss'] cons(6-8) by simp
  have v_round: "append_value N child n v = Ok s" using cons(1) [OF v s] cons(6,7) by simp
  have "map_get N t name = Some v" using round put(2) cons(8) by (simp add: member_round_def)
  then show ?case
    using round put(2) v_round ss by (auto simp: member_round_def)
qed

end

end
