(* ===== verification/Erlang_Terms.thy ===== *)
theory Erlang_Terms
  imports Codec_Laws
begin

text \<open>
  Erlang terms as far as the boundary uses them, with the conversions \<^verbatim>\<open>rustler\<close> documents, as a
  concrete instance of the term library: integers decode within the width asked for, a Rust
  string is a binary that is valid UTF-8, a map has terms as keys.
\<close>

section \<open>Text\<close>

definition continuation :: "8 word \<Rightarrow> bool" where
  "continuation b \<longleftrightarrow> 0x80 \<le> b \<and> b \<le> 0xBF"

fun utf8_valid :: "bytes \<Rightarrow> bool" where
  "utf8_valid [] = True"
| "utf8_valid (b # bs) =
     (if b < 0x80 then utf8_valid bs
      else
        (case bs of
           [] \<Rightarrow> False
         | c # cs \<Rightarrow>
             if 0xC2 \<le> b \<and> b \<le> 0xDF then continuation c \<and> utf8_valid cs
             else
               (case cs of
                  [] \<Rightarrow> False
                | d # ds \<Rightarrow>
                    if 0xE0 \<le> b \<and> b \<le> 0xEF then
                      continuation c \<and> continuation d \<and> (b = 0xE0 \<longrightarrow> 0xA0 \<le> c) \<and>
                      (b = 0xED \<longrightarrow> c \<le> 0x9F) \<and> utf8_valid ds
                    else
                      (case ds of
                         [] \<Rightarrow> False
                       | e # es \<Rightarrow>
                           0xF0 \<le> b \<and> b \<le> 0xF4 \<and> continuation c \<and> continuation d \<and>
                           continuation e \<and> (b = 0xF0 \<longrightarrow> 0x90 \<le> c) \<and>
                           (b = 0xF4 \<longrightarrow> c \<le> 0x8F) \<and> utf8_valid es))))"

definition text_bytes :: "string \<Rightarrow> bytes" where
  "text_bytes s = map (\<lambda>c. word_of_nat (of_char c)) s"

definition bytes_text :: "bytes \<Rightarrow> string" where
  "bytes_text bs = map (\<lambda>b. char_of (unat b)) bs"

lemma byte_char: "char_of (unat (word_of_nat (of_char c) :: 8 word)) = c"
proof -
  have "(of_char c :: nat) < 256" by simp
  then have "unat (word_of_nat (of_char c) :: 8 word) = of_char c" by (simp add: unat_of_nat)
  then show ?thesis by simp
qed

lemma char_byte: "word_of_nat (of_char (char_of (unat b))) = (b :: 8 word)"
proof -
  have "unat b < 256" using unsigned_less [of b] by simp
  then have "of_char (char_of (unat b)) = unat b" by simp
  then show ?thesis by simp
qed

lemma bytes_text_inverse [simp]: "bytes_text (text_bytes s) = s" "text_bytes (bytes_text bs) = bs"
  by (simp_all add: bytes_text_def text_bytes_def comp_def byte_char char_byte del: of_char_of)

lemma ascii_valid: "list_all (\<lambda>c. (of_char c :: nat) < 128) s \<Longrightarrow> utf8_valid (text_bytes s)"
proof (induction s)
  case (Cons c s)
  then have "unat (word_of_nat (of_char c) :: 8 word) < 128" by (simp add: unat_of_nat)
  then have "(word_of_nat (of_char c) :: 8 word) < 0x80" by (simp add: word_less_nat_alt)
  with Cons show ?case by (simp add: text_bytes_def)
qed (simp add: text_bytes_def)

lemma digits_ascii: "list_all (\<lambda>c. (of_char c :: nat) < 128) (int_to_string i)"
proof -
  have "(of_char c :: nat) < 128" if "c \<in> set (nat_to_string n)" for c n
    using nat_to_string_digits [OF that] by (auto simp: digit_char_def)
  then show ?thesis by (auto simp: int_to_string_def list_all_iff)
qed

section \<open>Terms\<close>

datatype erl =
    ErlAtom atom
  | ErlInt int
  | ErlFloat f64
  | ErlBinary bytes
  | ErlList "erl list"
  | ErlTuple "erl list"
  | ErlMap "(erl \<times> erl) list"

text \<open>
  The numbers of the 32-bit float type. \<^verbatim>\<open>rustler\<close> rounds other numbers to the nearest of these;
  the instance refuses them, which the laws leave open.
\<close>

definition f32_exact :: "f64 \<Rightarrow> bool" where
  "f32_exact x \<longleftrightarrow>
     x = NegZero \<or>
     (\<exists>m k. \<bar>m\<bar> < 2 ^ 24 \<and> k \<le> 104 \<and> x = Finite (of_int m * 2 ^ k)) \<or>
     (\<exists>m k. \<bar>m\<bar> < 2 ^ 24 \<and> k \<le> 149 \<and> x = Finite (of_int m / 2 ^ k))"

definition erl_text :: "erl \<Rightarrow> string option" where
  "erl_text t =
     (case t of ErlBinary bs \<Rightarrow> if utf8_valid bs then Some (bytes_text bs) else None | _ \<Rightarrow> None)"

fun erl_columns :: "erl list \<Rightarrow> (string \<times> erl) list option" where
  "erl_columns [] = Some []"
| "erl_columns (ErlTuple [n, t] # ts) =
     (case (erl_text n, erl_columns ts) of (Some s, Some cs) \<Rightarrow> Some ((s, t) # cs) | _ \<Rightarrow> None)"
| "erl_columns _ = None"

definition erl_shape :: "erl \<Rightarrow> (atom \<times> nat \<times> (string \<times> erl) list) option" where
  "erl_shape t =
     (case t of
        ErlTuple [ErlAtom a, ErlInt n, ErlList ts] \<Rightarrow>
          if fits_unsigned 64 n then map_option (\<lambda>cs. (a, nat n, cs)) (erl_columns ts) else None
      | _ \<Rightarrow> None)"

definition erl_codec :: "erl nif" where
  "erl_codec =
     \<lparr>decode_atom = (\<lambda>t. case t of ErlAtom a \<Rightarrow> Some a | _ \<Rightarrow> None),
      decode_bool = (\<lambda>t. if t = ErlAtom ''true'' then Some True
                          else if t = ErlAtom ''false'' then Some False else None),
      decode_int = (\<lambda>sg w t. case t of ErlInt i \<Rightarrow> if int_fits sg w i then Some i else None | _ \<Rightarrow> None),
      decode_f32 = (\<lambda>t. case t of ErlFloat x \<Rightarrow> if f32_exact x then Some x else None | _ \<Rightarrow> None),
      decode_f64 = (\<lambda>t. case t of ErlFloat x \<Rightarrow> if is_finite x then Some x else None | _ \<Rightarrow> None),
      decode_text = erl_text,
      decode_bytes = (\<lambda>t. case t of ErlBinary bs \<Rightarrow> Some bs | _ \<Rightarrow> None),
      decode_terms = (\<lambda>t. case t of ErlList ts \<Rightarrow> Some ts | _ \<Rightarrow> None),
      decode_shape = erl_shape,
      map_get = (\<lambda>t k. case t of ErlMap m \<Rightarrow> map_of m (ErlBinary (text_bytes k)) | _ \<Rightarrow> None),
      encode_atom = ErlAtom,
      encode_bool = (\<lambda>b. ErlAtom (if b then ''true'' else ''false'')),
      encode_int = ErlInt, encode_f32 = ErlFloat, encode_f64 = ErlFloat,
      encode_text = (\<lambda>s. ErlBinary (text_bytes s)),
      encode_bytes = (\<lambda>bs. Some (ErlBinary bs)),
      encode_terms = ErlList,
      encode_shape = (\<lambda>(a, n, cs). ErlTuple [ErlAtom a, ErlInt (int n),
        ErlList (map (\<lambda>(s, t). ErlTuple [ErlBinary (text_bytes s), t]) cs)]),
      map_new = ErlMap [],
      map_put = (\<lambda>t k v. case t of ErlMap m \<Rightarrow> Some (ErlMap ((ErlBinary (text_bytes k), v) # m)) | _ \<Rightarrow> None),
      is_map = (\<lambda>t. case t of ErlMap _ \<Rightarrow> True | _ \<Rightarrow> False),
      text_value = (\<lambda>s. utf8_valid (text_bytes s)),
      f32_value = f32_exact, parse_i256 = parse_int 256, show_i256 = int_to_string\<rparr>"

lemma erl_columns_round:
  "list_all (\<lambda>c. utf8_valid (text_bytes (fst c))) cs \<Longrightarrow>
     erl_columns (map (\<lambda>(s, t). ErlTuple [ErlBinary (text_bytes s), t]) cs) = Some cs"
  by (induction cs) (auto simp: erl_text_def)

lemma text_bytes_inj: "text_bytes a = text_bytes b \<longleftrightarrow> a = b"
  by (metis bytes_text_inverse(1))

interpretation erl: term_codec erl_codec
proof
  fix n :: nat and cs :: "(string \<times> erl) list" and a
  assume "n < 2 ^ 64" "list_all (\<lambda>c. text_value erl_codec (fst c)) cs"
  then show "decode_shape erl_codec (encode_shape erl_codec (a, n, cs)) = Some (a, n, cs)"
    by (simp add: erl_codec_def erl_shape_def erl_columns_round fits_unsigned_def)
next
  fix m k v
  assume "is_map erl_codec m"
  then show "\<exists>m'. map_put erl_codec m k v = Some m' \<and> is_map erl_codec m' \<and>
      (\<forall>j. map_get erl_codec m' j = (if j = k then Some v else map_get erl_codec m j))"
    by (cases m) (auto simp: erl_codec_def text_bytes_inj)
qed (auto simp: erl_codec_def erl_text_def digits_ascii ascii_valid parse_int_to_string parse_int_fits
    split: erl.splits if_splits)

end
