(* ===== verification/Codec_Properties.thy ===== *)
theory Codec_Properties
  imports Codec_Proofs Erlang_Terms
begin

text \<open>
  What the batch boundary promises: a batch the writer accepts is well typed, a schema it accepts is
  supported throughout, and a batch that was handed out is accepted again and is the same batch.
\<close>

section \<open>Batches\<close>

definition columns_typed :: "'t nif \<Rightarrow> record_batch \<Rightarrow> bool" where
  "columns_typed N b \<longleftrightarrow>
     (\<forall>i < length (batch_fields b).
        list_all (slot_typed N (field_data_type (batch_fields b ! i)) (field_nullable (batch_fields b ! i)))
          (array_slots (batch_columns b ! i)))"

text \<open>
  The documented behaviour of the builders and of \<^verbatim>\<open>RecordBatch::try_new\<close>: a batch has at least one
  column and its columns fit the schema; columns that do make a batch; and the columns of a
  batch, whose arrays have the same offsets as those that are built, can be built again slot by
  slot when builders exist for their types.
\<close>

definition columns_held :: "'t nif \<Rightarrow> batch_lib \<Rightarrow> record_batch \<Rightarrow> bool" where
  "columns_held N B b \<longleftrightarrow>
     (\<forall>i k. i < length (batch_fields b) \<longrightarrow>
        supported_type N (field_data_type (batch_fields b ! i)) \<longrightarrow>
        regular_type (field_data_type (batch_fields b ! i)) \<longrightarrow>
        builder_holds B (field_data_type (batch_fields b ! i)) (take k (array_slots (batch_columns b ! i))))"

definition batch_lib_ok :: "'t nif \<Rightarrow> batch_lib \<Rightarrow> bool" where
  "batch_lib_ok N B \<longleftrightarrow>
     (\<forall>fs cs b. batch_try_new B fs cs = Some b \<longrightarrow>
        fs \<noteq> [] \<and> batch_ok b \<and> batch_fields b = fs \<and> batch_columns b = cs) \<and>
     (\<forall>b. batch_fields b \<noteq> [] \<and> batch_ok b \<and> columns_typed N b \<longrightarrow>
        batch_try_new B (batch_fields b) (batch_columns b) = Some b \<and> columns_held N B b)"

lemma unwind_result_Ok:
  "unwind_result r f = Returned (Ok y) \<longleftrightarrow> (\<exists>x. r = Returned (Ok x) \<and> f x = Returned (Ok y))"
  by (auto simp: unwind_result_def split: unwind.splits sum.splits)

lemma append_terms_Ok:
  "append_terms N B f ss ts = Returned (Ok r) \<longleftrightarrow>
     (\<exists>rs. collect_results (map (append_value N (field_data_type f) (field_nullable f)) ts) = Ok rs \<and>
        r = ss @ rs \<and>
        (\<forall>k. 0 < k \<longrightarrow> k \<le> length rs \<longrightarrow> builder_holds B (field_data_type f) (ss @ take k rs)))"
proof (induction ts arbitrary: ss)
  case (Cons t ts)
  show ?case
  proof (cases "append_value N (field_data_type f) (field_nullable f) t")
    case (Inr s)
    have split: "(\<forall>k. 0 < k \<longrightarrow> k \<le> Suc (length rs) \<longrightarrow> P (take k (s # rs))) \<longleftrightarrow>
        P [s] \<and> (\<forall>k. 0 < k \<longrightarrow> k \<le> length rs \<longrightarrow> P (s # take k rs))" for P rs
    proof
      assume all: "\<forall>k. 0 < k \<longrightarrow> k \<le> Suc (length rs) \<longrightarrow> P (take k (s # rs))"
      show "P [s] \<and> (\<forall>k. 0 < k \<longrightarrow> k \<le> length rs \<longrightarrow> P (s # take k rs))"
        using all [rule_format, of 1] all [rule_format, of "Suc k" for k] by auto
    next
      assume step: "P [s] \<and> (\<forall>k. 0 < k \<longrightarrow> k \<le> length rs \<longrightarrow> P (s # take k rs))"
      show "\<forall>k. 0 < k \<longrightarrow> k \<le> Suc (length rs) \<longrightarrow> P (take k (s # rs))"
      proof (intro allI impI)
        fix k assume "0 < k" "k \<le> Suc (length rs)"
        then show "P (take k (s # rs))" using step by (cases k; cases "k - 1") auto
      qed
    qed
    show ?thesis
      using Inr Cons.IH [of "ss @ [s]"] split [of _ "\<lambda>xs. builder_holds B (field_data_type f) (ss @ xs)"]
      by (auto simp: result_simps)
  qed (simp add: result_simps)
qed auto

lemma build_array_Ok:
  "build_array N B f ts = Returned (Ok a) \<longleftrightarrow>
     (\<exists>ss. collect_results (map (append_value N (field_data_type f) (field_nullable f)) ts) = Ok ss \<and>
        a = \<lparr>array_type = field_data_type f, array_slots = ss\<rparr> \<and>
        (\<forall>k \<le> length ss. builder_holds B (field_data_type f) (take k ss)))"
proof -
  have "(\<forall>k \<le> length ss. P (take k ss)) \<longleftrightarrow>
      P [] \<and> (\<forall>k. 0 < k \<longrightarrow> k \<le> length ss \<longrightarrow> P (take k ss))" for P and ss :: "slot list"
    by (metis bot_nat_0.extremum bot_nat_0.not_eq_extremum take0)
  then show ?thesis by (auto simp: build_array_def unwind_result_Ok append_terms_Ok)
qed

context term_codec
begin

lemma decode_columns_typed:
  assumes "decode_columns N B n columns fs = Returned (Ok arrays)" and "length columns = length fs"
  shows "length arrays = length fs \<and> (\<forall>i < length fs. length (array_slots (arrays ! i)) = n \<and>
    list_all (slot_typed N (field_data_type (fs ! i)) (field_nullable (fs ! i)))
      (array_slots (arrays ! i)))"
  using assms
proof (induction columns fs arbitrary: arrays rule: list_induct2')
  case (4 c columns f fs)
  obtain name column where c: "c = (name, column)" by fastforce
  obtain ts a rest where ts: "decode_terms N column = Some ts" "length ts = n"
    and a: "build_array N B f ts = Returned (Ok a)"
    and rest: "decode_columns N B n columns fs = Returned (Ok rest)" and arrays: "arrays = a # rest"
    using 4(2) c by (auto simp: unwind_result_Ok split: if_splits option.splits)
  obtain ss where ss: "collect_results (map (append_value N (field_data_type f) (field_nullable f)) ts) = Ok ss"
    and a': "array_slots a = ss"
    using a by (auto simp: build_array_Ok)
  have "list_all (slot_typed N (field_data_type f) (field_nullable f)) ss"
    by (rule collect_typed [OF ss]) (rule append_value_typed(1))
  moreover have "length ss = n" using collect_results_length [OF ss] ts(2) by simp
  ultimately show ?case
    using 4(1) [OF rest] 4(3) arrays a' by (auto simp: nth_Cons split: nat.splits)
qed auto

lemma decode_batch_typed:
  assumes lib: "batch_lib_ok N B" and ok: "decode_batch N B t schema max_rows = Returned (Ok b)"
  shows "batch_ok b \<and> batch_fields b = schema \<and> batch_rows b \<le> max_rows \<and> columns_typed N b"
proof -
  obtain n columns arrays where n: "n \<le> max_rows" and len: "length columns = length schema"
    and arrays: "decode_columns N B n columns schema = Returned (Ok arrays)"
    and b: "batch_try_new B schema arrays = Some b"
    using ok by (auto simp: decode_batch_def unwind_result_Ok result_simps not_less split: option.splits if_splits)
  have new: "schema \<noteq> []" "batch_ok b" "batch_fields b = schema" "batch_columns b = arrays"
    using lib b by (auto simp: batch_lib_ok_def)
  note typed = decode_columns_typed [OF arrays len]
  have "batch_rows b = n"
    using batch_ok_nth [OF new(2), of 0] typed new by auto
  then show ?thesis using new typed n by (auto simp: columns_typed_def)
qed

lemma encode_columns_round:
  assumes enc: "collect_results (map (\<lambda>(field, a). and_then (encode_array N a) (\<lambda>t. Ok (field_name field, t)))
      (zip fs arrays)) = Ok columns"
    and len: "length arrays = length fs"
    and typed: "\<And>i. i < length fs \<Longrightarrow> array_type (arrays ! i) = field_data_type (fs ! i) \<and>
      length (array_slots (arrays ! i)) = n \<and>
      list_all (slot_typed N (field_data_type (fs ! i)) (field_nullable (fs ! i))) (array_slots (arrays ! i))"
    and held: "\<And>i k. i < length fs \<Longrightarrow> builder_holds B (field_data_type (fs ! i)) (take k (array_slots (arrays ! i)))"
    and types: "\<And>f. f \<in> set fs \<Longrightarrow> supported_type N (field_data_type f) \<and> regular_type (field_data_type f)"
  shows "decode_columns N B n columns fs = Returned (Ok arrays) \<and> length columns = length fs \<and>
    map fst columns = map field_name fs"
  using enc len typed held types
proof (induction fs arrays arbitrary: columns rule: list_induct2')
  case (4 f fs a arrays)
  obtain t columns' where t: "encode_array N a = Ok t" and c: "columns = (field_name f, t) # columns'"
    and rest: "collect_results (map (\<lambda>(field, a). and_then (encode_array N a) (\<lambda>t. Ok (field_name field, t)))
      (zip fs arrays)) = Ok columns'"
    using 4(2) by (auto simp: result_simps)
  have a: "array_type a = field_data_type f" "length (array_slots a) = n"
    "list_all (slot_typed N (field_data_type f) (field_nullable f)) (array_slots a)"
    using 4(4) [of 0] by auto
  have f: "supported_type N (field_data_type f)" "regular_type (field_data_type f)"
    using 4(6) [of f] by auto
  obtain ts where ts: "collect_results (map (encode_value N (array_type a)) (array_slots a)) = Ok ts"
    and t': "t = encode_terms N ts"
    using t by (auto simp: encode_array_def encode_slots_def result_simps)
  have "collect_results (map (append_value N (field_data_type f) (field_nullable f)) ts) = Ok (array_slots a)"
    by (rule collect_round [OF ts]) (use encode_round(1) a f in \<open>auto simp: list_all_iff\<close>)
  then have "build_array N B f ts = Returned (Ok a)"
    using 4(5) [of 0] a by (auto simp: build_array_Ok)
  moreover have "length ts = n" using collect_results_length [OF ts] a(2) by simp
  moreover have "decode_columns N B n columns' fs = Returned (Ok arrays) \<and>
      length columns' = length fs \<and> map fst columns' = map field_name fs"
  proof (rule 4(1) [OF rest])
    show "length arrays = length fs" using 4(3) by simp
  next
    fix i assume "i < length fs"
    then show "array_type (arrays ! i) = field_data_type (fs ! i) \<and> length (array_slots (arrays ! i)) = n \<and>
        list_all (slot_typed N (field_data_type (fs ! i)) (field_nullable (fs ! i))) (array_slots (arrays ! i))"
      using 4(4) [of "Suc i"] by simp
  next
    fix i k assume "i < length fs"
    then show "builder_holds B (field_data_type (fs ! i)) (take k (array_slots (arrays ! i)))"
      using 4(5) [of "Suc i" k] by simp
  qed (use 4(6) in auto)
  ultimately show ?case using c t' terms_law by (simp add: unwind_result_def)
qed auto

lemma batch_round:
  assumes lib: "batch_lib_ok N B" and b: "batch_ok b" "batch_fields b \<noteq> []" "columns_typed N b"
    and types: "\<And>f. f \<in> set (batch_fields b) \<Longrightarrow>
      supported_type N (field_data_type f) \<and> regular_type (field_data_type f) \<and> text_value N (field_name f)"
    and rows: "batch_rows b \<le> max_rows" "max_rows < 2 ^ 64"
    and enc: "encode_batch N b = Ok t"
  shows "decode_batch N B t (batch_fields b) max_rows = Returned (Ok b)"
proof -
  obtain columns where columns: "collect_results (map (\<lambda>(field, a).
      and_then (encode_array N a) (\<lambda>t. Ok (field_name field, t))) (zip (batch_fields b) (batch_columns b))) =
      Ok columns"
    and t: "t = encode_shape N (''batch'', batch_rows b, columns)"
    using enc by (auto simp: encode_batch_def result_simps)
  have held: "columns_held N B b" using lib b by (auto simp: batch_lib_ok_def)
  have round: "decode_columns N B (batch_rows b) columns (batch_fields b) = Returned (Ok (batch_columns b))"
    "length columns = length (batch_fields b)" "map fst columns = map field_name (batch_fields b)"
    using encode_columns_round [OF columns, of "batch_rows b" B] types b(3) batch_ok_nth [OF b(1)]
      batch_ok_lengths [OF b(1)] held by (auto simp: columns_typed_def columns_held_def)
  have "text_value N (fst c)" if "c \<in> set columns" for c
  proof -
    have "fst c \<in> set (map field_name (batch_fields b))" using that round(3) by (metis image_eqI list.set_map)
    then show ?thesis using types by auto
  qed
  then have "decode_shape N t = Some (''batch'', batch_rows b, columns)"
    unfolding t using rows by (intro shape_law) (auto simp: list_all_iff)
  moreover have "batch_try_new B (batch_fields b) (batch_columns b) = Some b"
    using lib b by (auto simp: batch_lib_ok_def)
  ultimately show ?thesis using round rows by (simp add: decode_batch_def unwind_result_def)
qed

end

section \<open>Schemas\<close>

lemma leaf_supported: "leaf_type t \<Longrightarrow> supported_type N t"
  by (cases t) (auto simp: leaf_type_def supported_type.simps padded_leaf_def int_shape_def
      decimal_shape_def split: time_unit.splits)

lemma supported_fields_iff:
  "supported_fields N fs \<longleftrightarrow> list_all (\<lambda>f. supported_type N (field_data_type f)) fs"
proof (induction fs)
  case (Cons f fs)
  then show ?case by (cases f) simp
qed simp

lemma arrow_supported:
  shows "arrow_field d = Ok f \<Longrightarrow> supported_type N (field_data_type f)"
    and "arrow_data_type e = Ok t \<Longrightarrow> supported_type N t"
proof (induction d and e arbitrary: f and t rule: arrow_field_arrow_data_type.induct)
  case (1 name nullable data_type)
  then show ?case by (auto simp: result_simps)
next
  case (2 kind width is_signed unit tz precision scale len children)
  consider (list) "kind = ''list'' \<or> kind = ''large_list'' \<or> kind = ''fixed_list''"
    | (struct) "kind = ''struct''"
    | (other) "kind \<notin> {''list'', ''large_list'', ''fixed_list'', ''struct''}"
    by blast
  then show ?case
  proof cases
    case list
    obtain child rest field where c: "children = child # rest"
      and f: "arrow_field child = Ok field"
      and t: "t = ListType field \<or> t = LargeListType field \<or> (\<exists>l. t = FixedSizeList field l)"
      by (rule arrow_list [OF "2.prems" list])
    have "supported_type N (field_data_type field)"
      by (rule "2.IH"(1)) (use list c f in auto)
    then show ?thesis using t by (cases field) (auto simp: nested_equations)
  next
    case struct
    with "2.prems" obtain ms where ms: "collect_results (map arrow_field children) = Ok ms"
      and t: "t = StructType ms"
      by (auto simp: arrow_struct result_simps)
    have "list_all (\<lambda>f. supported_type N (field_data_type f)) ms"
      by (rule list_all_transfer [OF ms], rule "2.IH"(2)) (use struct in auto)
    then show ?thesis using t by (simp add: nested_equations supported_fields_iff)
  next
    case other
    then have "leaf_type t" by (intro arrow_leaf [OF "2.prems"]) simp
    then show ?thesis by (rule leaf_supported)
  qed
qed

section \<open>Refusals\<close>

text \<open>The two errors that refuse a value for the type of its column.\<close>

definition type_refusal :: "native_failure \<Rightarrow> bool" where
  "type_refusal e \<longleftrightarrow>
     e = invalid_batch ''batch type is unsupported for writing'' \<or>
     e = invalid_batch ''nested null padding is unsupported for this type''"

lemma invalid_batch_eq [simp]: "invalid_batch a = invalid_batch b \<longleftrightarrow> a = b"
  by (simp add: invalid_batch_def failure_invalid_def failure_new_def)

lemma refusal_message [simp]:
  "type_refusal (invalid_batch m) \<longleftrightarrow>
     m = ''batch type is unsupported for writing'' \<or>
     m = ''nested null padding is unsupported for this type''"
  by (simp add: type_refusal_def)

lemma values_not_refused:
  "primitive_value N d t = Err e \<Longrightarrow> \<not> type_refusal e" "decimal_value N q t = Err e \<Longrightarrow> \<not> type_refusal e"
  "string_value N t = Err e \<Longrightarrow> \<not> type_refusal e" "binary_value N t = Err e \<Longrightarrow> \<not> type_refusal e"
  "fixed_binary_value N len t = Err e \<Longrightarrow> \<not> type_refusal e"
  by (auto simp: primitive_value_def decimal_value_def string_value_def binary_value_def
      fixed_binary_value_def ok_or_def result_simps split: option.splits if_splits)

lemma leaf_not_refused:
  assumes "padded_leaf N dt" and "append_leaf N dt t = Err e"
  shows "\<not> type_refusal e"
proof (cases "int_shape dt")
  case (Some p)
  then show ?thesis using assms(2) by (cases p) (auto simp: append_leaf_def dest: values_not_refused)
next
  case none: None
  show ?thesis
  proof (cases "decimal_shape N dt")
    case (Some p)
    then show ?thesis using assms(2) none by (cases p) (auto simp: append_leaf_def dest: values_not_refused)
  next
    case None
    then show ?thesis using assms none
      by (cases dt) (auto simp: append_leaf_def padded_leaf_def type_refusal_def
          dest: values_not_refused split: if_splits)
  qed
qed

lemma collect_failure:
  "collect_results (map f ts) = Err e \<Longrightarrow> \<exists>t. f t = Err e"
  by (induction ts) (auto simp: result_simps)

lemma supported_not_refused:
  "supported_type N data_type \<Longrightarrow> append_value N data_type nullable t = Err e \<Longrightarrow> \<not> type_refusal e"
  "supported_fields N members \<Longrightarrow> append_fields N members t = Err e \<Longrightarrow> \<not> type_refusal e"
proof (induction data_type and members arbitrary: nullable t e and t e rule: data_type_induct)
  case (leaf dt)
  then show ?case using leaf_not_refused [of N dt t]
    by (auto simp: leaf_equations split: if_splits)
next
  case (list name child n)
  then show ?case by (auto simp: nested_equations result_simps list_terms_def ok_or_def
      dest!: collect_failure split: if_splits option.splits)
next
  case (large_list name child n)
  then show ?case by (auto simp: nested_equations result_simps list_terms_def ok_or_def
      dest!: collect_failure split: if_splits option.splits)
next
  case (fixed_list name child n len)
  then show ?case using supported_padded(1) [of N child]
    by (auto simp: nested_equations result_simps list_terms_def ok_or_def
      dest!: collect_failure split: if_splits option.splits)
next
  case (struct fs)
  then show ?case using supported_padded(2) [of N fs]
    by (auto simp: nested_equations result_simps split: if_splits)
next
  case (cons name child n fs)
  then show ?case by (auto simp: nested_equations result_simps ok_or_def split: option.splits)
qed simp

text \<open>The fields inside a type, at every depth.\<close>

fun type_fields :: "data_type \<Rightarrow> field list" and member_fields :: "field list \<Rightarrow> field list" where
  "type_fields data_type =
     (case data_type of
        ListType (Field name child n) \<Rightarrow> Field name child n # type_fields child
      | LargeListType (Field name child n) \<Rightarrow> Field name child n # type_fields child
      | FixedSizeList (Field name child n) len \<Rightarrow> Field name child n # type_fields child
      | StructType fs \<Rightarrow> member_fields fs
      | leaf \<Rightarrow> [])"
| "member_fields [] = []"
| "member_fields (Field name child n # fs) = Field name child n # type_fields child @ member_fields fs"

declare type_fields.simps [simp del]

lemma supported_inside:
  "supported_type N data_type \<Longrightarrow> g \<in> set (type_fields data_type) \<Longrightarrow> supported_type N (field_data_type g)"
  "supported_fields N members \<Longrightarrow> g \<in> set (member_fields members) \<Longrightarrow> supported_type N (field_data_type g)"
proof (induction data_type and members rule: data_type_induct)
  case (leaf dt)
  then show ?case by (cases dt) (simp_all add: type_fields.simps nested_def)
qed (auto simp: type_fields.simps nested_equations)

lemma decode_not_refused:
  assumes "list_all (\<lambda>f. supported_type N (field_data_type f)) fs"
    and "decode_columns N B n columns fs = Returned (Err e)"
  shows "\<not> type_refusal e"
  using assms
proof (induction columns fs rule: list_induct2')
  case (4 c columns f fs)
  have one: "\<not> type_refusal e" if "append_value N (field_data_type f) (field_nullable f) t = Err e" for t
    using supported_not_refused(1) [OF _ that] 4(2) by simp
  have terms: "\<not> type_refusal e" if "append_terms N B f ss ts = Returned (Err e)" for ss ts
    using that one by (induction ts arbitrary: ss) (auto split: sum.splits if_splits)
  then show ?case using 4
    by (cases c) (auto simp: unwind_result_def build_array_def
        split: if_splits option.splits unwind.splits sum.splits)
qed auto

section \<open>A sample\<close>

text \<open>A library that makes exactly the builders and batches the laws ask for, and a batch of two columns.\<close>

definition sample_batch_lib :: batch_lib where
  "sample_batch_lib =
     \<lparr>builder_holds = (\<lambda>t ss. supported_type erl_codec t \<and> regular_type t),
      batch_try_new = (\<lambda>fs cs.
        let b = \<lparr>batch_fields = fs, batch_columns = cs,
                 batch_rows = (case cs of [] \<Rightarrow> 0 | c # _ \<Rightarrow> length (array_slots c))\<rparr>
        in if fs \<noteq> [] \<and> batch_ok b \<and> columns_typed erl_codec b then Some b else None)\<rparr>"

lemma sample_batch_lib_ok: "batch_lib_ok erl_codec sample_batch_lib"
  unfolding batch_lib_ok_def
proof (intro conjI allI impI)
  fix b assume b: "batch_fields b \<noteq> [] \<and> batch_ok b \<and> columns_typed erl_codec b"
  then obtain c cs where c: "batch_columns b = c # cs"
    by (cases "batch_columns b") (auto simp: batch_ok_def)
  then have "length (array_slots c) = batch_rows b" using b batch_ok_nth [of b 0] batch_ok_lengths [of b] by auto
  then have "b = \<lparr>batch_fields = batch_fields b, batch_columns = batch_columns b,
    batch_rows = length (array_slots c)\<rparr>" by simp
  then show "batch_try_new sample_batch_lib (batch_fields b) (batch_columns b) = Some b"
    using b c by (simp add: sample_batch_lib_def)
  show "columns_held erl_codec sample_batch_lib b"
    by (simp add: columns_held_def sample_batch_lib_def)
qed (auto simp: sample_batch_lib_def Let_def split: if_splits)

definition sample_inputs :: "native_field list" where
  "sample_inputs =
     [NativeField ''tags'' True
        (nested_type ''list'' [NativeField ''item'' True (simple_type ''utf8'')]),
      NativeField ''at'' False
        (nested_type ''struct'' [NativeField ''x'' False (simple_type ''date32'')])]"

definition sample_typed_batch :: record_batch where
  "sample_typed_batch =
     \<lparr>batch_fields =
        [Field ''tags'' (ListType (Field ''item'' Utf8 True)) True,
         Field ''at'' (StructType [Field ''x'' Date32 False]) False],
      batch_columns =
        [\<lparr>array_type = ListType (Field ''item'' Utf8 True),
          array_slots = [ListSlot [TextSlot ''a'', NullSlot], NullSlot]\<rparr>,
         \<lparr>array_type = StructType [Field ''x'' Date32 False],
          array_slots = [StructSlot [IntSlot 1], StructSlot [IntSlot (- 5)]]\<rparr>],
      batch_rows = 2\<rparr>"

definition sample_batch_term :: erl where
  "sample_batch_term =
     ErlTuple [ErlAtom ''batch'', ErlInt 2, ErlList
       [ErlTuple [ErlBinary (text_bytes ''tags''),
          ErlList [ErlList [ErlBinary (text_bytes ''a''), ErlAtom ''nil''], ErlAtom ''nil'']],
        ErlTuple [ErlBinary (text_bytes ''at''),
          ErlList [ErlMap [(ErlBinary (text_bytes ''x''), ErlInt 1)],
            ErlMap [(ErlBinary (text_bytes ''x''), ErlInt (- 5))]]]]]"

lemma sample_arrow: "collect_results (map arrow_field sample_inputs) = Ok (batch_fields sample_typed_batch)"
  by (simp add: sample_inputs_def sample_typed_batch_def nested_type_def simple_type_def arrow_data_type.simps
      result_simps)

lemma sample_typed: "batch_ok sample_typed_batch" "columns_typed erl_codec sample_typed_batch"
    "list_all (\<lambda>f. regular_type (field_data_type f) \<and> text_value erl_codec (field_name f))
       (batch_fields sample_typed_batch)"
  by (auto simp: sample_typed_batch_def batch_ok_def columns_typed_def less_Suc_eq nested_equations
      leaf_equations nested_def leaf_typed_def int_shape_def decimal_shape_def int_fits_def
      fits_signed_def erl_codec_def ascii_valid regular_type.simps)

lemma sample_encodes: "encode_batch erl_codec sample_typed_batch = Ok sample_batch_term"
  by (simp add: encode_batch_def sample_typed_batch_def sample_batch_term_def encode_array_def encode_slots_def
      nested_equations leaf_equations nested_def encode_leaf_defs int_shape_def decimal_shape_def
      nil_term_def erl_codec_def result_simps)

lemma sample_decodes:
  "decode_batch erl_codec sample_batch_lib sample_batch_term (batch_fields sample_typed_batch) 8 =
     Returned (Ok sample_typed_batch)"
proof (rule erl.batch_round [OF sample_batch_lib_ok sample_typed(1) _ sample_typed(2) _ _ _ sample_encodes])
  fix f assume "f \<in> set (batch_fields sample_typed_batch)"
  then show "supported_type erl_codec (field_data_type f) \<and> regular_type (field_data_type f) \<and>
      text_value erl_codec (field_name f)"
    using sample_typed(3) list_all_transfer [OF sample_arrow, of "\<lambda>f. supported_type erl_codec (field_data_type f)"]
      arrow_supported(1) by (auto simp: list_all_iff)
qed (simp_all add: sample_typed_batch_def)

section \<open>Properties\<close>

text \<open>C11: a batch the writer accepts is well typed: whatever term arrives, if decoding succeeds, the
  batch has exactly the columns of the schema, all of the same length and no longer than the row
  bound, every integer fits the width of its column, every text is valid, fixed lengths are met,
  and a null stands only where the schema allows one, at every depth.\<close>

theorem decoded_batch_typed:
  assumes "term_codec N" and "batch_lib_ok N B"
    and "decode_batch N B t schema max_rows = Returned (Ok b)"
  shows "batch_ok b \<and> batch_fields b = schema \<and> batch_rows b \<le> max_rows \<and> columns_typed N b"
  by (rule term_codec.decode_batch_typed [OF assms])

theorem decoded_batch_typed_witness:
  "decode_batch erl_codec sample_batch_lib sample_batch_term (batch_fields sample_typed_batch) 8 =
     Returned (Ok sample_typed_batch) \<and> batch_ok sample_typed_batch \<and> batch_rows sample_typed_batch \<le> 8 \<and>
   columns_typed erl_codec sample_typed_batch"
  using decoded_batch_typed [OF erl.term_codec_axioms sample_batch_lib_ok sample_decodes] sample_decodes
  by blast

text \<open>C3: a batch that was handed out is accepted again: under any schema the writer opened, with
  fixed lengths that are not negative and different names in a struct, the term that encodes a
  well-typed batch decodes to that batch, value for value, nested types and nulls included.\<close>

theorem batch_round_trip:
  assumes "term_codec N" and "batch_lib_ok N B"
    and "collect_results (map arrow_field inputs) = Ok (batch_fields b)" and "batch_fields b \<noteq> []"
    and "list_all (\<lambda>f. regular_type (field_data_type f) \<and> text_value N (field_name f)) (batch_fields b)"
    and "batch_ok b" and "columns_typed N b" and "batch_rows b \<le> max_rows" and "max_rows < 2 ^ 64"
    and "encode_batch N b = Ok t"
  shows "decode_batch N B t (batch_fields b) max_rows = Returned (Ok b)"
proof (rule term_codec.batch_round [OF assms(1,2,6,4,7) _ assms(8-10)])
  fix f assume f: "f \<in> set (batch_fields b)"
  have "list_all (\<lambda>f. supported_type N (field_data_type f)) (batch_fields b)"
    by (rule list_all_transfer [OF assms(3)]) (rule arrow_supported(1))
  then show "supported_type N (field_data_type f) \<and> regular_type (field_data_type f) \<and>
      text_value N (field_name f)"
    using assms(5) f by (auto simp: list_all_iff)
qed

theorem batch_round_trip_witness:
  "encode_batch erl_codec sample_typed_batch = Ok sample_batch_term \<and>
   decode_batch erl_codec sample_batch_lib sample_batch_term (batch_fields sample_typed_batch) 2 =
     Returned (Ok sample_typed_batch)"
proof -
  have "batch_fields sample_typed_batch \<noteq> []" "batch_rows sample_typed_batch \<le> 2" "(2::nat) < 2 ^ 64"
    by (simp_all add: sample_typed_batch_def)
  then show ?thesis
    using batch_round_trip [OF erl.term_codec_axioms sample_batch_lib_ok sample_arrow _ sample_typed(3,1,2) _ _
        sample_encodes] sample_encodes by blast
qed

text \<open>C35: no batch is refused for its type: in a schema the writer opened, whatever the term and the row
  bound, decoding never fails with the unsupported-type error or the padding error; neither does
  any value of any field at any depth, and a field at any depth that allows nulls takes one.\<close>

theorem accepted_schema_never_refused:
  assumes "term_codec N" and "collect_results (map arrow_field inputs) = Ok fs"
  shows "(\<forall>t max_rows e. decode_batch N B t fs max_rows = Returned (Err e) \<longrightarrow> \<not> type_refusal e) \<and>
    (\<forall>f g. f \<in> set fs \<longrightarrow> g \<in> set (f # type_fields (field_data_type f)) \<longrightarrow>
       (\<forall>nullable t e. append_value N (field_data_type g) nullable t = Err e \<longrightarrow> \<not> type_refusal e) \<and>
       (field_nullable g \<longrightarrow>
          append_value N (field_data_type g) (field_nullable g) (nil_term N) = Ok NullSlot))"
proof (intro conjI allI impI)
  have all: "list_all (\<lambda>f. supported_type N (field_data_type f)) fs"
    by (rule list_all_transfer [OF assms(2)]) (rule arrow_supported(1))
  {
    fix t max_rows e
    assume "decode_batch N B t fs max_rows = Returned (Err e)"
    then show "\<not> type_refusal e"
      using decode_not_refused [OF all]
      by (auto simp: decode_batch_def unwind_result_def ok_or_def
          split: option.splits if_splits unwind.splits sum.splits)
  }
  fix f g
  assume "f \<in> set fs" and g: "g \<in> set (f # type_fields (field_data_type f))"
  then have "supported_type N (field_data_type f)" using all by (auto simp: list_all_iff)
  then have s: "supported_type N (field_data_type g)" using g supported_inside(1) by auto
  show "\<not> type_refusal e" if "append_value N (field_data_type g) nullable t = Err e" for nullable t e
    using supported_not_refused(1) [OF s that] .
  assume n: "field_nullable g"
  have "slot_typed N (field_data_type g) True NullSlot"
    "encode_value N (field_data_type g) NullSlot = Ok (nil_term N)"
    by (subst slot_typed.simps encode_value.simps, simp)+
  then show "append_value N (field_data_type g) (field_nullable g) (nil_term N) = Ok NullSlot"
    using term_codec.encode_null [OF assms(1) _ _ s] n by simp
qed

theorem accepted_schema_never_refused_witness:
  "append_value erl_codec Utf8 True (ErlAtom ''nil'') = Ok NullSlot \<and>
   (\<forall>t. case decode_batch erl_codec sample_batch_lib t (batch_fields sample_typed_batch) 8 of
      Returned (Inl e) \<Rightarrow> \<not> type_refusal e | _ \<Rightarrow> True)"
proof -
  note all = accepted_schema_never_refused [OF erl.term_codec_axioms sample_arrow]
  let ?f = "Field ''tags'' (ListType (Field ''item'' Utf8 True)) True"
  have f: "?f \<in> set (batch_fields sample_typed_batch)" by (simp add: sample_typed_batch_def)
  have g: "Field ''item'' Utf8 True \<in> set (?f # type_fields (field_data_type ?f))"
    by (simp add: type_fields.simps)
  show ?thesis
    using conjunct1 [OF all] conjunct2 [OF all, rule_format, OF f g]
    by (simp add: nil_term_def erl_codec_def split: unwind.splits sum.splits)
qed

end
