(* ===== verification/Parquet_Writer.thy ===== *)
theory Parquet_Writer
  imports Store Batch_Codec
begin

text \<open>
  The Parquet writer (\<^verbatim>\<open>writer.rs\<close>): the options, the encoder over the staged output, the states
  of an open writer and the resource that holds it. The encoder (\<^verbatim>\<open>ArrowWriter\<close> of the
  \<^verbatim>\<open>parquet\<close> crate) is the record parameter \<open>encoder_lib\<close>.
\<close>

section \<open>Options\<close>

record writer_options =
  wo_compression :: atom
  wo_max_batch_rows :: usize
  wo_max_row_group_rows :: usize
  wo_data_page_size_limit :: usize
  wo_flush :: atom
  wo_sync :: atom
  wo_statistics :: atom

datatype compression_codec = Uncompressed | Snappy | Zstandard | Gzip | Lz4Raw

datatype enabled_statistics = NoStatistics | ChunkStatistics

definition invalid_option :: "string \<Rightarrow> native_failure" where
  "invalid_option message = failure_invalid OpParquetWriterOpen message"

definition compression_of :: "atom \<Rightarrow> compression_codec native_result" where
  "compression_of v =
     (if v = ''uncompressed'' then Ok Uncompressed
      else if v = ''snappy'' then Ok Snappy
      else if v = ''zstd'' then Ok Zstandard
      else if v = ''gzip'' then Ok Gzip
      else if v = ''lz4_raw'' then Ok Lz4Raw
      else Err (invalid_option ''unsupported compression''))"

definition compression_name :: "atom \<Rightarrow> string native_result" where
  "compression_name v =
     (if v = ''uncompressed'' then Ok ''uncompressed''
      else if v = ''snappy'' then Ok ''snappy''
      else if v = ''zstd'' then Ok ''zstd''
      else if v = ''gzip'' then Ok ''gzip''
      else if v = ''lz4_raw'' then Ok ''lz4_raw''
      else Err (invalid_option ''unsupported compression''))"

definition flush_policy_of :: "atom \<Rightarrow> flush_policy native_result" where
  "flush_policy_of v =
     (if v = ''none'' then Ok FlushNone
      else if v = ''each_chunk'' then Ok FlushEachChunk
      else if v = ''before_publish'' then Ok FlushBeforePublish
      else Err (invalid_option ''invalid flush policy''))"

definition sync_policy_of :: "atom \<Rightarrow> sync_policy native_result" where
  "sync_policy_of v =
     (if v = ''none'' then Ok SyncNone
      else if v = ''data'' then Ok SyncData
      else if v = ''all'' then Ok SyncAll
      else Err (invalid_option ''invalid sync policy''))"

definition statistics_policy_of :: "atom \<Rightarrow> enabled_statistics native_result" where
  "statistics_policy_of v =
     (if v = ''chunk'' then Ok ChunkStatistics
      else if v = ''none'' then Ok NoStatistics
      else Err (invalid_option ''invalid statistics policy''))"

section \<open>The encoder\<close>

text \<open>What the code hands to \<^verbatim>\<open>WriterProperties::builder()\<close>.\<close>

record writer_properties =
  wp_compression :: compression_codec
  wp_max_row_group_rows :: usize
  wp_data_page_size_limit :: usize
  wp_write_batch_size :: usize
  wp_statistics :: enabled_statistics
  wp_key_values :: "(string \<times> string) list"

text \<open>
  The encoder sees the staged output only through \<^verbatim>\<open>std::io::Write\<close>: a use of the sink is a
  program of its calls, each continued by the answer.
\<close>

datatype 'a sink_prog =
    SinkDone 'a
  | SinkWrite bytes "io_error + usize \<Rightarrow> 'a sink_prog"
  | SinkFlush "io_error + unit \<Rightarrow> 'a sink_prog"

text \<open>
  \<open>encoder_new\<close>, \<open>encoder_write\<close> and \<open>encoder_into_inner\<close> are \<^verbatim>\<open>ArrowWriter::try_new\<close>,
  \<^verbatim>\<open>write\<close> and \<^verbatim>\<open>into_inner\<close>; dropping an encoder may still write what it has buffered.
  The builder of the properties panics unless \<open>properties_accepted\<close> holds of the row group rows,
  the page size and the batch size.
\<close>

record 'e encoder_lib =
  properties_accepted :: "usize \<Rightarrow> usize \<Rightarrow> usize \<Rightarrow> bool"
  encoder_new :: "field list \<Rightarrow> writer_properties \<Rightarrow> 'e option unwind sink_prog"
  encoder_write :: "'e \<Rightarrow> record_batch \<Rightarrow> ('e \<times> bool unwind) sink_prog"
  encoder_in_progress_size :: "'e \<Rightarrow> usize"
  encoder_into_inner :: "'e \<Rightarrow> bool unwind sink_prog"
  encoder_drop :: "'e \<Rightarrow> unit sink_prog"
  batch_memory_size :: "record_batch \<Rightarrow> usize"

text \<open>
  \<^verbatim>\<open>StagedOutput\<close> passes every call on to the store writer.
\<close>

primrec run_sink ::
  "'r remote_lib \<Rightarrow> 'a sink_prog \<Rightarrow> 'r store_writer_world \<Rightarrow> 'r store_writer_world \<times> 'a" where
  "run_sink L (SinkDone x) = (\<lambda>ws. (ws, x))"
| "run_sink L (SinkWrite bs k) =
     (\<lambda>ws. case store_io_write L bs ws of (ws, r) \<Rightarrow> run_sink L (k r) ws)"
| "run_sink L (SinkFlush k) =
     (\<lambda>ws. case store_io_flush ws of (ws, r) \<Rightarrow> run_sink L (k r) ws)"

definition staged_publish_object ::
  "'r remote_lib \<Rightarrow> ('r store_writer_world, native_failure, object_metadata) action" where
  "staged_publish_object L ws =
     (case store_writer_publish L ws of (ws, r) \<Rightarrow>
        (ws, and_then r (\<lambda>m. Ok
           \<lparr>object_path = sm_path m, object_size = sm_size m,
            object_modified_unix_ns = sm_modified_unix_ns m\<rparr>)))"

section \<open>An open writer\<close>

record writer_stats =
  ws_active :: bool
  ws_batches :: usize
  ws_rows :: usize
  ws_peak_batch_bytes :: usize
  ws_peak_encoder_bytes :: usize
  ws_multipart_buffer_limit_bytes :: usize

record 'e writer_state =
  pw_writer :: "('e \<times> store_writer) option"
  pw_schema :: "field list"
  pw_cancellation :: cancellation_token
  pw_max_batch_rows :: usize
  pw_stats :: writer_stats

type_synonym ('e, 'r) pw_world = "'e writer_state \<times> 'r store_world"

text \<open>
  The token is shared (\<^verbatim>\<open>Arc\<close>) with the staged output: the two fields hold the same token, so a
  cancellation of one is a cancellation of both.
\<close>

definition writer_token :: "store_writer \<Rightarrow> cancellation_token" where
  "writer_token w =
     (case w of
        LocalStoreWriter w _ \<Rightarrow> lw_cancellation w | S3StoreWriter w _ \<Rightarrow> rw_cancellation w)"

definition with_token :: "cancellation_token \<Rightarrow> store_writer \<Rightarrow> store_writer" where
  "with_token token w =
     (case w of
        LocalStoreWriter w base \<Rightarrow> LocalStoreWriter (w\<lparr>lw_cancellation := token\<rparr>) base
      | S3StoreWriter w key \<Rightarrow> S3StoreWriter (w\<lparr>rw_cancellation := token\<rparr>) key)"

definition cancel_state :: "'e writer_state \<Rightarrow> 'e writer_state" where
  "cancel_state st =
     (let token = token_cancel (pw_cancellation st)
      in st\<lparr>pw_cancellation := token,
           pw_writer := map_option (\<lambda>(e, w). (e, with_token token w)) (pw_writer st)\<rparr>)"

definition set_active :: "bool \<Rightarrow> 'e writer_state \<Rightarrow> 'e writer_state" where
  "set_active b st = st\<lparr>pw_stats := (pw_stats st)\<lparr>ws_active := b\<rparr>\<rparr>"

definition encode_failure :: "operation \<Rightarrow> native_failure" where
  "encode_failure operation = failure_new MalformedData operation ''Parquet batch encoding failed''"

text \<open>The counters are \<^verbatim>\<open>usize\<close>, whose addition wraps in a release build.\<close>

definition count_batch :: "'e encoder_lib \<Rightarrow> 'e \<Rightarrow> record_batch \<Rightarrow> writer_stats \<Rightarrow> writer_stats" where
  "count_batch E enc batch stats =
     stats\<lparr>ws_batches := ws_batches stats + 1,
       ws_rows := ws_rows stats + word_of_nat (batch_rows batch),
       ws_peak_batch_bytes := max (ws_peak_batch_bytes stats) (batch_memory_size E batch),
       ws_peak_encoder_bytes :=
         max (ws_peak_encoder_bytes stats) (encoder_in_progress_size E enc)\<rparr>"

definition parquet_write_batch ::
  "'t nif \<Rightarrow> batch_lib \<Rightarrow> 'e encoder_lib \<Rightarrow> 'r remote_lib \<Rightarrow> 't \<Rightarrow> ('e, 'r) pw_world
   \<Rightarrow> ('e, 'r) pw_world \<times> writer_stats native_result unwind" where
  "parquet_write_batch N B E L t ws =
     (case ws of (st, s) \<Rightarrow>
        if cancelled_flag (pw_cancellation st) \<or> \<not> ws_active (pw_stats st)
        then ((st, s), Returned (Err (failure_cancelled OpParquetWriterWrite)))
        else
          (case decode_batch N B t (pw_schema st) (unat (pw_max_batch_rows st)) of
             Panicked \<Rightarrow> ((st, s), Panicked)
           | Returned (Inl e) \<Rightarrow> ((st, s), Returned (Err e))
           | Returned (Inr batch) \<Rightarrow>
               (case pw_writer st of
                  None \<Rightarrow> ((st, s), Returned (Err (failure_cancelled OpParquetWriterWrite)))
                | Some (enc, out) \<Rightarrow>
                    (case run_sink L (encoder_write E enc batch) (out, s) of
                       ((out, s), (enc, result)) \<Rightarrow>
                         (let st = st\<lparr>pw_writer := Some (enc, out)\<rparr>
                          in case result of
                               Panicked \<Rightarrow> ((st, s), Panicked)
                             | Returned False \<Rightarrow>
                                 ((st, s), Returned (Err (encode_failure OpParquetWriterWrite)))
                             | Returned True \<Rightarrow>
                                 (let st = st\<lparr>pw_stats := count_batch E enc batch (pw_stats st)\<rparr>
                                  in ((st, s), Returned (Ok (pw_stats st)))))))))"

text \<open>The staged output goes out of scope: the destructor of the store writer runs.\<close>

definition release_staged ::
  "'r remote_lib \<Rightarrow> 'e writer_state \<Rightarrow> 'r store_writer_world \<Rightarrow> ('e, 'r) pw_world" where
  "release_staged L st ws =
     (case store_writer_drop L ws of (out, s) \<Rightarrow>
        (st\<lparr>pw_cancellation := writer_token out\<rparr>, s))"

definition parquet_close ::
  "'e encoder_lib \<Rightarrow> 'r remote_lib \<Rightarrow> ('e, 'r) pw_world
   \<Rightarrow> ('e, 'r) pw_world \<times> object_metadata native_result unwind" where
  "parquet_close E L ws =
     (case ws of (st, s) \<Rightarrow>
        if cancelled_flag (pw_cancellation st)
        then ((st, s), Returned (Err (failure_cancelled OpParquetWriterClose)))
        else
          (case pw_writer st of
             None \<Rightarrow> ((st, s), Returned (Err (failure_cancelled OpParquetWriterClose)))
           | Some (enc, out) \<Rightarrow>
               (let st = st\<lparr>pw_writer := None\<rparr>
                in case run_sink L (encoder_into_inner E enc) (out, s) of
                     (ws, Panicked) \<Rightarrow> (release_staged L st ws, Panicked)
                   | (ws, Returned False) \<Rightarrow>
                       (release_staged L (set_active False st) ws,
                        Returned (Err (encode_failure OpParquetWriterClose)))
                   | (ws, Returned True) \<Rightarrow>
                       (case staged_publish_object L ws of (ws, published) \<Rightarrow>
                          (release_staged L (set_active False st) ws,
                           Returned (map_err
                             (\<lambda>e. e\<lparr>failure_operation := OpParquetWriterClose\<rparr>) published))))))"

definition parquet_abort ::
  "'e encoder_lib \<Rightarrow> 'r remote_lib \<Rightarrow> ('e, 'r) pw_world \<Rightarrow> ('e, 'r) pw_world \<times> bool" where
  "parquet_abort E L ws =
     (case ws of (st, s) \<Rightarrow>
        if \<not> ws_active (pw_stats st) then ((st, s), False)
        else
          (let st = cancel_state st
           in case pw_writer st of
                None \<Rightarrow> ((set_active False st, s), True)
              | Some (enc, out) \<Rightarrow>
                  (case run_sink L (encoder_drop E enc) (out, s) of (ws, _) \<Rightarrow>
                     (release_staged L (set_active False (st\<lparr>pw_writer := None\<rparr>)) ws, True))))"

definition parquet_stats :: "'e writer_state \<Rightarrow> writer_stats" where
  "parquet_stats st = pw_stats st"

section \<open>Opening\<close>

definition key_values :: "writer_options \<Rightarrow> string \<Rightarrow> (string \<times> string) list" where
  "key_values options name =
     [(''parquex.compression'', name),
      (''parquex.max_row_group_rows'', nat_to_string (unat (wo_max_row_group_rows options))),
      (''parquex.data_page_size_limit'', nat_to_string (unat (wo_data_page_size_limit options)))]"

definition properties_of ::
  "'e encoder_lib \<Rightarrow> writer_options \<Rightarrow> writer_properties native_result unwind" where
  "properties_of E options =
     (case compression_of (wo_compression options) of
        Inl e \<Rightarrow> Returned (Err e)
      | Inr compression \<Rightarrow>
     (case compression_name (wo_compression options) of
        Inl e \<Rightarrow> Returned (Err e)
      | Inr name \<Rightarrow>
     (let batch_size = min (wo_max_batch_rows options) (wo_max_row_group_rows options)
      in if \<not> properties_accepted E (wo_max_row_group_rows options)
               (wo_data_page_size_limit options) batch_size
         then Panicked
         else
           Returned (and_then (statistics_policy_of (wo_statistics options)) (\<lambda>statistics. Ok
             \<lparr>wp_compression = compression, wp_max_row_group_rows = wo_max_row_group_rows options,
              wp_data_page_size_limit = wo_data_page_size_limit options,
              wp_write_batch_size = batch_size, wp_statistics = statistics,
              wp_key_values = key_values options name\<rparr>)))))"

definition stats_init :: "usize \<Rightarrow> writer_stats" where
  "stats_init limit =
     \<lparr>ws_active = True, ws_batches = 0, ws_rows = 0, ws_peak_batch_bytes = 0,
      ws_peak_encoder_bytes = 0, ws_multipart_buffer_limit_bytes = limit\<rparr>"

text \<open>Whenever the function leaves without a resource, the staged output is dropped.\<close>

definition open_output ::
  "'e encoder_lib \<Rightarrow> 'r remote_lib \<Rightarrow> native_field list \<Rightarrow> writer_options \<Rightarrow> usize
   \<Rightarrow> 'r store_writer_world \<Rightarrow> 'r store_world \<times> 'e writer_state native_result unwind" where
  "open_output E L inputs options limit ws =
     (case collect_results (map arrow_field inputs) of
        Inl e \<Rightarrow> (snd (store_writer_drop L ws), Returned (Err e))
      | Inr schema \<Rightarrow>
     (case properties_of E options of
        Panicked \<Rightarrow> (snd (store_writer_drop L ws), Panicked)
      | Returned (Inl e) \<Rightarrow> (snd (store_writer_drop L ws), Returned (Err e))
      | Returned (Inr properties) \<Rightarrow>
     (case run_sink L (encoder_new E schema properties) ws of
        (ws, Panicked) \<Rightarrow> (snd (store_writer_drop L ws), Panicked)
      | (ws, Returned None) \<Rightarrow>
          (snd (store_writer_drop L ws), Returned (Err (encode_failure OpParquetWriterOpen)))
      | ((out, s), Returned (Some enc)) \<Rightarrow>
          (s, Returned (Ok
             \<lparr>pw_writer = Some (enc, out), pw_schema = schema,
              pw_cancellation = writer_token out,
              pw_max_batch_rows = wo_max_batch_rows options, pw_stats = stats_init limit\<rparr>)))))"

definition parquet_open_store ::
  "'e encoder_lib \<Rightarrow> 'r remote_lib \<Rightarrow> store_resource \<Rightarrow> string \<Rightarrow> native_field list \<Rightarrow> writer_options
   \<Rightarrow> 'r store_world \<Rightarrow> 'r store_world \<times> 'e writer_state native_result unwind" where
  "parquet_open_store E L store key inputs options s =
     (case flush_policy_of (wo_flush options) of
        Inl e \<Rightarrow> (s, Returned (Err e))
      | Inr flush \<Rightarrow>
     (case sync_policy_of (wo_sync options) of
        Inl e \<Rightarrow> (s, Returned (Err e))
      | Inr sync \<Rightarrow>
     (case store_open_writer L store key flush sync token_default s of
        (s, Inl e) \<Rightarrow> (s, Returned (Err e))
      | (s, Inr out) \<Rightarrow>
          open_output E L inputs options (store_multipart_buffer_limit store) (out, s))))"

section \<open>The resource\<close>

text \<open>A mutex is poisoned when the thread that holds it panics.\<close>

record 'e parquet_writer =
  pr_state :: "'e writer_state"
  pr_poisoned :: bool

definition parquet_lock :: "'e parquet_writer \<Rightarrow> operation \<Rightarrow> 'e writer_state native_result" where
  "parquet_lock r operation =
     (if pr_poisoned r
      then Err (failure_expected operation ''native Parquet writer is unavailable'')
      else Ok (pr_state r))"

definition resource_write ::
  "'t nif \<Rightarrow> batch_lib \<Rightarrow> 'e encoder_lib \<Rightarrow> 'r remote_lib \<Rightarrow> 't \<Rightarrow> 'e parquet_writer \<times> 'r store_world
   \<Rightarrow> ('e parquet_writer \<times> 'r store_world) \<times> writer_stats native_result unwind" where
  "resource_write N B E L t rs =
     (case rs of (r, s) \<Rightarrow>
        (case parquet_lock r OpParquetWriterWrite of
           Inl e \<Rightarrow> ((r, s), Returned (Err e))
         | Inr st \<Rightarrow>
             (case parquet_write_batch N B E L t (st, s) of ((st, s), result) \<Rightarrow>
                ((\<lparr>pr_state = st, pr_poisoned = (result = Panicked)\<rparr>, s), result))))"

definition resource_close_writer ::
  "'e encoder_lib \<Rightarrow> 'r remote_lib \<Rightarrow> 'e parquet_writer \<times> 'r store_world
   \<Rightarrow> ('e parquet_writer \<times> 'r store_world) \<times> object_metadata native_result unwind" where
  "resource_close_writer E L rs =
     (case rs of (r, s) \<Rightarrow>
        (case parquet_lock r OpParquetWriterClose of
           Inl e \<Rightarrow> ((r, s), Returned (Err e))
         | Inr st \<Rightarrow>
             (case parquet_close E L (st, s) of ((st, s), result) \<Rightarrow>
                ((\<lparr>pr_state = st, pr_poisoned = (result = Panicked)\<rparr>, s), result))))"

definition resource_abort_writer ::
  "'e encoder_lib \<Rightarrow> 'r remote_lib \<Rightarrow> 'e parquet_writer \<times> 'r store_world
   \<Rightarrow> ('e parquet_writer \<times> 'r store_world) \<times> bool native_result" where
  "resource_abort_writer E L rs =
     (case rs of (r, s) \<Rightarrow>
        (case parquet_lock r OpParquetWriterAbort of
           Inl e \<Rightarrow> ((r, s), Err e)
         | Inr st \<Rightarrow>
             (case parquet_abort E L (st, s) of ((st, s), aborted) \<Rightarrow>
                ((r\<lparr>pr_state := st\<rparr>, s), Ok aborted))))"

definition resource_writer_stats :: "'e parquet_writer \<Rightarrow> writer_stats native_result" where
  "resource_writer_stats r =
     and_then (parquet_lock r OpParquetWriterStats) (\<lambda>st. Ok (parquet_stats st))"

text \<open>\<^verbatim>\<open>down\<close>: the token is cancelled without the lock, then the state is aborted under it.\<close>

definition writer_cancel :: "'e parquet_writer \<Rightarrow> 'e parquet_writer" where
  "writer_cancel r = r\<lparr>pr_state := cancel_state (pr_state r)\<rparr>"

definition writer_down_abort ::
  "'e encoder_lib \<Rightarrow> 'r remote_lib \<Rightarrow> 'e parquet_writer \<times> 'r store_world
   \<Rightarrow> 'e parquet_writer \<times> 'r store_world" where
  "writer_down_abort E L rs =
     (case rs of (r, s) \<Rightarrow>
        if pr_poisoned r then (r, s)
        else (case parquet_abort E L (pr_state r, s) of ((st, s), _) \<Rightarrow> (r\<lparr>pr_state := st\<rparr>, s)))"

text \<open>The destructor of the state aborts it whatever the lock says.\<close>

definition parquet_drop ::
  "'e encoder_lib \<Rightarrow> 'r remote_lib \<Rightarrow> 'e parquet_writer \<times> 'r store_world \<Rightarrow> 'r store_world" where
  "parquet_drop E L rs =
     (case rs of (r, s) \<Rightarrow> snd (fst (parquet_abort E L (pr_state r, s))))"

end
