(* ===== verification/Writer_Proofs.thy ===== *)
theory Writer_Proofs
  imports Parquet_Writer Store_Properties
begin

text \<open>
  The Parquet writer over a local store: what a program of sink calls does to the staging file,
  with failures and without, and what each operation of the writer does to the state and to the
  files.
\<close>

section \<open>Programs on a staging file\<close>

text \<open>A change of nothing but the content of one inode and the schedule of failures.\<close>

definition grown :: "nat \<Rightarrow> 'z filesystem_scheme \<Rightarrow> 'z filesystem_scheme \<Rightarrow> bool" where
  "grown h s t \<longleftrightarrow> (\<exists>fl node. t = s\<lparr>fs_faults := fl, inodes := (inodes s)(h := node)\<rparr>)"

lemma grown_faults: "grown h s (s\<lparr>fs_faults := fl\<rparr>)"
  unfolding grown_def by (intro exI [of _ fl] exI [of _ "inodes s h"]) simp

lemma grown_append: "grown h s (append_bytes h bs (s\<lparr>fs_faults := fl\<rparr>))"
  unfolding grown_def append_bytes_def by (intro exI) simp

lemma grown_refl [simp]: "grown h s s"
  using grown_faults [of h s "fs_faults s"] by simp

lemma grown_trans: "grown h s t \<Longrightarrow> grown h t u \<Longrightarrow> grown h s u"
  unfolding grown_def by (elim exE, intro exI) simp

lemma io_write_local:
  assumes "store_io_write L bs (LocalStoreWriter w base, s) = ((out, t), r)" and "lw_file w = Some h"
  shows "out = LocalStoreWriter w base \<and> grown h s t"
proof -
  obtain w' s' q where q: "writer_write bs (w, s) = ((w', s'), q)" by (metis surj_pair)
  then have "w' = w \<and> grown h s s'"
    using assms(2) by (cases rule: writer_write_cases) (auto simp: grown_append)
  then show ?thesis
    using assms(1) q
    by (simp add: store_io_write_def store_writer_write_def on_local_writer_def act_map_err_def)
qed

lemma io_flush_local:
  assumes "store_io_flush (LocalStoreWriter w base, s) = ((out, t), r)" and "lw_file w = Some h"
  shows "out = LocalStoreWriter w base \<and> grown h s t"
proof -
  obtain u q where u: "fs_barrier s = (u, q)" by fastforce
  obtain fl where "u = s\<lparr>fs_faults := fl\<rparr>" using quietD [OF quiet_calls(1) u] by blast
  then show ?thesis
    using assms u grown_faults
    by (auto simp: store_io_flush_def on_local_writer_def writer_io_flush_def ensure_open_eq split: if_splits)
qed

lemma run_local:
  "run_sink L prog (LocalStoreWriter w base, s) = ((out, t), x) \<Longrightarrow> lw_file w = Some h \<Longrightarrow>
     out = LocalStoreWriter w base \<and> grown h s t"
proof (induction prog arbitrary: s)
  case (SinkDone y)
  then show ?case by simp
next
  case (SinkWrite bs k)
  obtain o1 s1 r where r: "store_io_write L bs (LocalStoreWriter w base, s) = ((o1, s1), r)" by (metis surj_pair)
  note step = io_write_local [OF r SinkWrite.prems(2)]
  have "run_sink L (k r) (LocalStoreWriter w base, s1) = ((out, t), x)" using SinkWrite.prems(1) r step by simp
  then show ?case using SinkWrite.IH [OF rangeI _ SinkWrite.prems(2)] step grown_trans by metis
next
  case (SinkFlush k)
  obtain o1 s1 r where r: "store_io_flush (LocalStoreWriter w base, s) = ((o1, s1), r)" by (metis surj_pair)
  note step = io_flush_local [OF r SinkFlush.prems(2)]
  have "run_sink L (k r) (LocalStoreWriter w base, s1) = ((out, t), x)" using SinkFlush.prems(1) r step by simp
  then show ?case using SinkFlush.IH [OF rangeI _ SinkFlush.prems(2)] step grown_trans by metis
qed

text \<open>What a program writes when every call succeeds, and its result.\<close>

primrec sink_log :: "'a sink_prog \<Rightarrow> bytes \<times> 'a" where
  "sink_log (SinkDone x) = ([], x)"
| "sink_log (SinkWrite bs k) =
     (case sink_log (k (Ok (vec_len bs))) of (rest, x) \<Rightarrow> (bs @ rest, x))"
| "sink_log (SinkFlush k) = sink_log (k (Ok ()))"

lemma run_local_ok:
  assumes "staged w s h content" and "fs_faults s = []" and "writer_ready w"
  shows "\<exists>t. run_sink L prog (LocalStoreWriter w base, s) =
      ((LocalStoreWriter w base, t), snd (sink_log prog)) \<and>
    staged w t h (content @ fst (sink_log prog)) \<and> fs_faults t = [] \<and> grown h s t"
  using assms(1,2)
proof (induction prog arbitrary: s content)
  case (SinkDone x)
  then show ?case by simp
next
  case (SinkWrite bs k)
  let ?t = "append_bytes h bs s"
  have "writer_write bs (w, s) = ((w, ?t), Ok (vec_len bs))"
    by (rule write_ok [OF SinkWrite.prems assms(3)])
  then have io: "store_io_write L bs (LocalStoreWriter w base, s) =
      ((LocalStoreWriter w base, ?t), Ok (vec_len bs))"
    by (simp add: store_io_write_def store_writer_write_def on_local_writer_def act_map_err_def)
  have g: "grown h s ?t" using grown_append [of h s bs "fs_faults s"] by simp
  obtain t where t: "run_sink L (k (Ok (vec_len bs))) (LocalStoreWriter w base, ?t) =
      ((LocalStoreWriter w base, t), snd (sink_log (k (Ok (vec_len bs)))))"
    "staged w t h ((content @ bs) @ fst (sink_log (k (Ok (vec_len bs)))))" "fs_faults t = []" "grown h ?t t"
    using SinkWrite.IH [OF rangeI staged_append [OF SinkWrite.prems(1), of bs], of "Ok (vec_len bs)"]
      SinkWrite.prems(2) by auto
  then show ?case using io grown_trans [OF g] by (auto split: prod.splits)
next
  case (SinkFlush k)
  have "store_io_flush (LocalStoreWriter w base, s) = ((LocalStoreWriter w base, s), Ok ())"
    using SinkFlush.prems assms(3)
    by (simp add: store_io_flush_def on_local_writer_def writer_io_flush_def ensure_open_eq staged_def)
  then show ?case using SinkFlush.IH [OF rangeI SinkFlush.prems] by simp
qed

section \<open>The staging file of a writer\<close>

definition owned :: "local_writer \<Rightarrow> 'z local_world_scheme \<Rightarrow> nat \<Rightarrow> bool" where
  "owned w s h \<longleftrightarrow>
     (\<exists>content. staged w s h content) \<and> tree_ok s \<and>
     (\<forall>p. lookup s p = Some (FileEntry h) \<longrightarrow> p = lw_stage_path w)"

definition kept :: "local_writer \<Rightarrow> 'z filesystem_scheme \<Rightarrow> 'z filesystem_scheme \<Rightarrow> bool" where
  "kept w s t \<longleftrightarrow> (\<forall>p. p \<noteq> lw_stage_path w \<longrightarrow> file_at t p = file_at s p)"

lemma kept_refl [simp]: "kept w s s"
  by (simp add: kept_def)

lemma kept_trans: "kept w s t \<Longrightarrow> kept w t u \<Longrightarrow> kept w s u"
  by (simp add: kept_def)

lemma kept_token [simp]: "kept (w\<lparr>lw_cancellation := token\<rparr>) = kept w"
  by (simp add: kept_def fun_eq_iff)

lemma owned_token [simp]: "owned (w\<lparr>lw_cancellation := token\<rparr>) s h = owned w s h"
  by (simp add: owned_def staged_def)

lemma owned_file: "owned w s h \<Longrightarrow> lw_file w = Some h \<and> lw_active w"
  by (auto simp: owned_def staged_def)

lemma owned_grown:
  assumes "owned w s h" and "grown h s t"
  shows "owned w t h \<and> kept w s t \<and> active_writers t = active_writers s"
proof -
  obtain fl node where t: "t = s\<lparr>fs_faults := fl, inodes := (inodes s)(h := node)\<rparr>"
    using assms(2) by (auto simp: grown_def)
  have l: "lookup t = lookup s" by (simp add: t lookup_def fun_eq_iff)
  have "tree_ok t" using assms(1) l by (auto simp: owned_def tree_ok_def t)
  moreover have "file_at t p = file_at s p" if "p \<noteq> lw_stage_path w" for p
    using assms(1) that l by (auto simp: owned_def file_at_def t split: option.splits entry.splits)
  moreover have "active_writers t = active_writers s" "file_bytes (inodes t h) = file_bytes node"
    by (simp_all add: t)
  moreover have "\<exists>content. staged w t h content"
    using assms(1) by (auto simp: owned_def staged_def l)
  ultimately show ?thesis using assms(1) by (simp add: owned_def kept_def l)
qed

lemma drop_local:
  assumes "owned w s h" and "store_writer_drop L (LocalStoreWriter w base, s) = (out, t)"
  shows "kept w s t \<and> tree_ok t \<and> active_writers t = active_writers s - 1"
proof -
  obtain w' t' where d: "writer_drop (w, s) = (w', t')" by fastforce
  then have t: "t = t'" using assms(2) by (simp add: store_writer_drop_def)
  from d show ?thesis
  proof (cases rule: writer_drop_cases)
    case inactive
    then show ?thesis using owned_file [OF assms(1)] by simp
  next
    case (dropped u)
    note tree = dropped_tree [OF dropped(2)]
    have "file_at t p = file_at s p" if "p \<noteq> lw_stage_path w" for p
      using tree dropped(4) t that by (intro file_at_same) auto
    moreover have "tree_ok u" using tree assms(1) by (simp add: owned_def)
    then have "tree_ok t" by (simp add: dropped(4) t tree_ok_def)
    ultimately show ?thesis using dropped(4) t by (simp add: kept_def)
  qed
qed

lemma drop_closed:
  "store_writer_drop L (LocalStoreWriter (closed_writer w) base, s) = (LocalStoreWriter (closed_writer w) base, s)"
  by (simp add: store_writer_drop_def writer_drop_def closed_writer_def)

section \<open>The operations of a writer\<close>

definition writing ::
  "string list \<Rightarrow> 'e writer_state \<Rightarrow> 'r store_world \<Rightarrow> local_writer \<Rightarrow> nat \<Rightarrow> bool" where
  "writing base st s w h \<longleftrightarrow>
     ws_active (pw_stats st) \<and> owned w s h \<and> lw_cancellation w = pw_cancellation st \<and>
     (\<exists>enc. pw_writer st = Some (enc, LocalStoreWriter w base))"

definition finished :: "'e writer_state \<Rightarrow> bool" where
  "finished st \<longleftrightarrow> pw_writer st = None \<and> \<not> ws_active (pw_stats st)"

lemma finished_refused:
  assumes "finished st"
  shows "parquet_write_batch N B E L t (st, s) =
      ((st, s), Returned (Err (failure_cancelled OpParquetWriterWrite)))"
    and "parquet_close E L (st, s) = ((st, s), Returned (Err (failure_cancelled OpParquetWriterClose)))"
    and "parquet_abort E L (st, s) = ((st, s), False)" and "finished (cancel_state st)"
  using assms
  by (simp_all add: finished_def parquet_write_batch_def parquet_close_def parquet_abort_def
      cancel_state_def Let_def)

lemma write_batch_writing:
  assumes wr: "writing base st s w h" and run: "parquet_write_batch N B E L t (st, s) = ((st', s'), r)"
  shows "writing base st' s' w h \<and> kept w s s' \<and> active_writers s' = active_writers s"
proof -
  obtain enc where pw: "pw_writer st = Some (enc, LocalStoreWriter w base)"
    using wr by (auto simp: writing_def)
  consider "st' = st" "s' = s"
    | b enc' res stats where "run_sink L (encoder_write E enc b) (LocalStoreWriter w base, s) =
          ((LocalStoreWriter w base, s'), (enc', res))"
        "st' = st\<lparr>pw_writer := Some (enc', LocalStoreWriter w base), pw_stats := stats\<rparr>" "ws_active stats"
  proof (cases "cancelled_flag (pw_cancellation st)")
    case True
    then show ?thesis using run that(1) by (simp add: parquet_write_batch_def)
  next
    case False
    have act: "ws_active (pw_stats st)" using wr by (simp add: writing_def)
    show ?thesis
    proof (cases "\<exists>b. decode_batch N B t (pw_schema st) (unat (pw_max_batch_rows st)) = Returned (Ok b)")
      case no: False
      then show ?thesis
        using run False act by (intro that(1))
          (auto simp: parquet_write_batch_def split: unwind.splits sum.splits)
    next
      case True
      then obtain b where b: "decode_batch N B t (pw_schema st) (unat (pw_max_batch_rows st)) = Returned (Ok b)"
        by blast
      obtain o1 s1 enc' res where sink: "run_sink L (encoder_write E enc b) (LocalStoreWriter w base, s) =
          ((o1, s1), (enc', res))" by (metis surj_pair)
      have o1: "o1 = LocalStoreWriter w base"
        using run_local [OF sink] wr owned_file by (auto simp: writing_def)
      define st1 where "st1 = st\<lparr>pw_writer := Some (enc', LocalStoreWriter w base)\<rparr>"
      have "s' = s1 \<and> (st' = st1 \<or> st' = st1\<lparr>pw_stats := count_batch E enc' b (pw_stats st)\<rparr>)"
        using run False act b pw sink o1
        by (auto simp: parquet_write_batch_def st1_def Let_def split: unwind.splits bool.splits)
      moreover have "st1 = st1\<lparr>pw_stats := pw_stats st\<rparr>" by (simp add: st1_def)
      moreover have "ws_active (count_batch E enc' b (pw_stats st))" using act by (simp add: count_batch_def)
      ultimately obtain stats where stats: "st' = st1\<lparr>pw_stats := stats\<rparr>" "ws_active stats" "s' = s1"
        using act by metis
      show ?thesis by (rule that(2) [of b enc' res stats]) (use sink o1 stats in \<open>simp_all add: st1_def\<close>)
    qed
  qed
  then show ?thesis
  proof cases
    case 1
    then show ?thesis using wr by simp
  next
    case 2
    have "grown h s s'" using run_local [OF 2(1)] wr owned_file by (auto simp: writing_def)
    then show ?thesis using owned_grown [of w s h s'] wr 2(2,3) by (auto simp: writing_def)
  qed
qed

lemma cancel_writing:
  assumes "writing base st s w h"
  shows "writing base (cancel_state st) s (w\<lparr>lw_cancellation := token_cancel (lw_cancellation w)\<rparr>) h"
  using assms by (auto simp: writing_def cancel_state_def with_token_def Let_def)

text \<open>The staged output of a writer that ends is dropped after a last program of sink calls.\<close>

lemma release_local:
  assumes "owned w s h" and "run_sink L prog (LocalStoreWriter w base, s) = (ws, x)"
    and "release_staged L st ws = (st', s')"
  shows "kept w s s' \<and> active_writers s' = active_writers s - 1 \<and> pw_writer st' = pw_writer st \<and>
    pw_stats st' = pw_stats st"
proof -
  obtain out s1 where ws: "ws = (out, s1)" by fastforce
  have fw: "lw_file w = Some h" using owned_file [OF assms(1)] by simp
  have out: "out = LocalStoreWriter w base" and g: "grown h s s1"
    using run_local [OF assms(2) [unfolded ws] fw] by simp_all
  note own = owned_grown [OF assms(1) g]
  obtain o2 s2 where d: "store_writer_drop L (LocalStoreWriter w base, s1) = (o2, s2)" by fastforce
  have st': "s' = s2" "pw_writer st' = pw_writer st" "pw_stats st' = pw_stats st"
    using assms(3) d by (auto simp: release_staged_def ws out)
  have "kept w s1 s2" "active_writers s2 = active_writers s1 - 1"
    using drop_local [OF conjunct1 [OF own] d] by simp_all
  moreover from this own have "kept w s s2" using kept_trans [of w s s1 s2] by simp
  ultimately show ?thesis using own st' by simp
qed

lemma abort_writing:
  assumes wr: "writing base st s w h" and run: "parquet_abort E L (st, s) = ((st', s'), b)"
  shows "finished st' \<and> kept w s s' \<and> b \<and> active_writers s' = active_writers s - 1"
proof -
  let ?w = "w\<lparr>lw_cancellation := token_cancel (lw_cancellation w)\<rparr>"
  have wr': "writing base (cancel_state st) s ?w h" by (rule cancel_writing [OF wr])
  obtain enc where pw: "pw_writer (cancel_state st) = Some (enc, LocalStoreWriter ?w base)"
    using wr' by (auto simp: writing_def)
  have act: "ws_active (pw_stats st)" using wr by (simp add: writing_def)
  obtain ws u where sink: "run_sink L (encoder_drop E enc) (LocalStoreWriter ?w base, s) = (ws, u)"
    by (metis surj_pair)
  have rel: "release_staged L (set_active False ((cancel_state st)\<lparr>pw_writer := None\<rparr>)) ws = (st', s')" and b
    using run act pw sink by (simp_all add: parquet_abort_def Let_def)
  have "owned ?w s h" using wr' by (simp add: writing_def)
  from release_local [OF this sink rel] \<open>b\<close> show ?thesis
    by (simp add: finished_def set_active_def)
qed

text \<open>
  Closing. The bytes that become visible are those of the staging file when the encoder has
  finished; an error after the replacement is the synchronisation of the directory, or a
  destination that is not beneath the root.
\<close>

definition published_error :: "local_writer \<Rightarrow> string list \<Rightarrow> bool" where
  "published_error w base \<longleftrightarrow>
     lw_sync w = SyncAll \<or>
     \<not> is_prefix_of (RootDir # map Normal base) (path_components (path_string (lw_destination w)))"

lemma publish_object_local:
  assumes st: "staged w s h content" and tree: "tree_ok s" and ready: "writer_ready w"
    and run: "staged_publish_object L (LocalStoreWriter w base, s) = (ws, r)"
  shows "\<exists>s'. ws = (LocalStoreWriter (closed_writer w) base, s') \<and>
    active_writers s' = active_writers s - 1 \<and>
    (\<forall>p. p \<noteq> lw_destination w \<longrightarrow> p \<noteq> lw_stage_path w \<longrightarrow> file_at s' p = file_at s p) \<and>
    (case r of
       Inr md \<Rightarrow> file_at s' (lw_destination w) = Some content \<and>
         object_size md = word_of_nat (length content)
     | Inl e \<Rightarrow> file_at s' (lw_destination w) = file_at s (lw_destination w) \<or>
         file_at s' (lw_destination w) = Some content \<and> published_error w base)"
proof -
  obtain w' s' q where q: "writer_publish (w, s) = ((w', s'), q)" by (metis surj_pair)
  note pub = staged_publish [OF st tree q ready]
  have ws: "ws = (LocalStoreWriter w' base, s')"
    and r: "r = and_then (and_then q (local_metadata base)) (\<lambda>m. Ok
       \<lparr>object_path = sm_path m, object_size = sm_size m,
        object_modified_unix_ns = sm_modified_unix_ns m\<rparr>)"
    using run q by (simp_all add: staged_publish_object_def store_writer_publish_def on_local_writer_def)
  show ?thesis
  proof (cases q)
    case (Inl e)
    then show ?thesis using pub ws r by (auto simp: published_error_def)
  next
    case (Inr md)
    then have md: "object_path md = path_string (lw_destination w)"
      "file_at s' (lw_destination w) = Some content" "object_size md = word_of_nat (length content)"
      using pub by auto
    show ?thesis
    proof (cases "local_metadata base md")
      case (Inl e)
      then have "published_error w base"
        using md(1) by (auto simp: local_metadata_def Let_def published_error_def split: if_splits)
      then show ?thesis using pub ws r Inr Inl md by simp
    next
      case ok: (Inr m)
      then have "sm_size m = object_size md"
        by (auto simp: local_metadata_def Let_def split: if_splits)
      then show ?thesis using pub ws r Inr ok md by simp
    qed
  qed
qed

text \<open>The staging file when the encoder has been told to finish.\<close>

definition sealed_file :: "'e encoder_lib \<Rightarrow> 'r remote_lib \<Rightarrow> 'e writer_state \<Rightarrow> 'r store_world \<Rightarrow> local_writer \<Rightarrow> bytes option" where
  "sealed_file E L st s w =
     (case pw_writer st of
        None \<Rightarrow> None
      | Some (enc, out) \<Rightarrow>
          file_at (snd (fst (run_sink L (encoder_into_inner E enc) (out, s)))) (lw_stage_path w))"

lemma sealed_file_token [simp]:
  "sealed_file E L st s (w\<lparr>lw_cancellation := token\<rparr>) = sealed_file E L st s w"
  by (simp add: sealed_file_def split: option.splits)

lemma staged_file: "staged w s h content \<Longrightarrow> file_at s (lw_stage_path w) = Some content"
  by (simp add: staged_def file_at_def)

lemma close_writing:
  assumes wr: "writing base st s w h" and run: "parquet_close E L (st, s) = ((st', s'), r)"
  shows "(cancelled_flag (lw_cancellation w) \<and> st' = st \<and> s' = s \<and>
      r = Returned (Err (failure_cancelled OpParquetWriterClose))) \<or>
    (pw_writer st' = None \<and> ws_active (pw_stats st') = (r = Panicked) \<and>
     active_writers s' = active_writers s - 1 \<and>
     (\<forall>p. p \<noteq> lw_destination w \<longrightarrow> p \<noteq> lw_stage_path w \<longrightarrow> file_at s' p = file_at s p) \<and>
     (\<exists>content. sealed_file E L st s w = Some content \<and> (case r of
        Returned (Inr md) \<Rightarrow> file_at s' (lw_destination w) = Some content \<and>
          object_size md = word_of_nat (length content)
      | Returned (Inl e) \<Rightarrow> file_at s' (lw_destination w) = file_at s (lw_destination w) \<or>
          file_at s' (lw_destination w) = Some content \<and> published_error w base
      | Panicked \<Rightarrow> file_at s' (lw_destination w) = file_at s (lw_destination w))))"
proof (cases "cancelled_flag (lw_cancellation w)")
  case True
  then show ?thesis using run wr by (simp add: parquet_close_def writing_def)
next
  case False
  obtain enc where pw: "pw_writer st = Some (enc, LocalStoreWriter w base)"
    using wr by (auto simp: writing_def)
  have tok: "\<not> cancelled_flag (pw_cancellation st)" and own: "owned w s h"
    and act: "ws_active (pw_stats st)" using wr False by (auto simp: writing_def)
  obtain out s1 x where sink: "run_sink L (encoder_into_inner E enc) (LocalStoreWriter w base, s) = ((out, s1), x)"
    by (metis surj_pair)
  have out: "out = LocalStoreWriter w base" and g: "grown h s s1"
    using run_local [OF sink] owned_file [OF own] by auto
  note own1 = owned_grown [OF own g]
  have ne: "lw_stage_path w \<noteq> lw_destination w" using own by (auto simp: owned_def staged_def)
  obtain content where st1: "staged w s1 h content" using own1 by (auto simp: owned_def)
  have seal: "sealed_file E L st s w = Some content"
    using pw sink staged_file [OF st1] by (simp add: sealed_file_def)
  have unpublished: ?thesis
    if "release_staged L st0 ((out, s1)) = (st', s')" "pw_writer st0 = None"
      "ws_active (pw_stats st0) = (r = Panicked)" "\<And>md. r \<noteq> Returned (Ok md)" for st0
  proof -
    from release_local [OF own sink that(1)] that(2-4) seal ne show ?thesis
      by (auto simp: kept_def split: unwind.splits sum.splits)
  qed
  show ?thesis
  proof (cases "x = Returned True")
    case no: False
    then show ?thesis
    proof (cases x)
      case Panicked
      then show ?thesis
        using run tok pw sink act by (intro unpublished [of "st\<lparr>pw_writer := None\<rparr>"])
          (auto simp: parquet_close_def Let_def)
    next
      case (Returned b)
      then show ?thesis
        using run tok pw sink no by (intro unpublished [of "set_active False (st\<lparr>pw_writer := None\<rparr>)"])
          (auto simp: parquet_close_def Let_def set_active_def)
    qed
  next
    case True
    obtain ws q where pub: "staged_publish_object L (LocalStoreWriter w base, s1) = (ws, q)" by fastforce
    have ready: "writer_ready w"
      using False st1 by (simp add: writer_ready_def staged_def)
    have tree1: "tree_ok s1" using own1 by (simp add: owned_def)
    obtain s2 where s2: "ws = (LocalStoreWriter (closed_writer w) base, s2)"
      "active_writers s2 = active_writers s1 - 1"
      "\<forall>p. p \<noteq> lw_destination w \<longrightarrow> p \<noteq> lw_stage_path w \<longrightarrow> file_at s2 p = file_at s1 p"
      "case q of
         Inr md \<Rightarrow> file_at s2 (lw_destination w) = Some content \<and>
           object_size md = word_of_nat (length content)
       | Inl e \<Rightarrow> file_at s2 (lw_destination w) = file_at s1 (lw_destination w) \<or>
           file_at s2 (lw_destination w) = Some content \<and> published_error w base"
      using publish_object_local [OF st1 tree1 ready pub] by blast
    have end_state: "pw_writer st' = None" "\<not> ws_active (pw_stats st')" "s' = s2"
      "r = Returned (map_err (\<lambda>e. e\<lparr>failure_operation := OpParquetWriterClose\<rparr>) q)"
      using run tok pw sink True out pub s2(1)
      by (auto simp: parquet_close_def Let_def release_staged_def drop_closed set_active_def)
    have "\<forall>p. p \<noteq> lw_stage_path w \<longrightarrow> file_at s1 p = file_at s p" using own1 by (simp add: kept_def)
    then show ?thesis
      using end_state s2(2-4) own1 seal ne by (intro disjI2) (auto split: sum.splits)
  qed
qed

end
