(* ===== verification/Writer_Properties.thy ===== *)
theory Writer_Properties
  imports Writer_Proofs
begin

text \<open>
  What the Parquet writer promises over a local store: until a close succeeds no file changes but
  the staging file, a close publishes whole or not at all, without failures the published bytes
  are those of the encoder, and the statistics count what was accepted.
\<close>

section \<open>Opening\<close>

lemma ensure_parts_tree:
  "tree_ok s \<Longrightarrow> ensure_parts cur ps s = (t, r) \<Longrightarrow> tree_ok t"
proof (induction ps arbitrary: cur s)
  case (Cons part ps)
  show ?case
  proof (cases part)
    case (Normal n)
    obtain u q where q: "fs_symlink_metadata (cur @ [n]) s = (u, q)" by fastforce
    obtain fl where "u = s\<lparr>fs_faults := fl\<rparr>" using quietD [OF quiet_calls(4) q] by blast
    then have tree: "tree_ok u" using Cons.prems(1) by (simp add: tree_ok_def)
    obtain v k where k: "fs_create_dir (cur @ [n]) u = (v, k)" by fastforce
    from k have tree': "tree_ok v"
    proof (cases rule: create_dir_cases)
      case (fault fl' e)
      then show ?thesis using tree by (simp add: tree_ok_def)
    next
      case (ok fl')
      let ?u = "u\<lparr>fs_faults := fl'\<rparr>"
      have "tree_ok ?u" using tree by (simp add: tree_ok_def)
      moreover have "parent_is_dir ?u (cur @ [n])" "lookup ?u (cur @ [n]) = None"
        using ok(2,3) by (simp_all add: parent_is_dir_def)
      ultimately have "tree_ok (add_dirs [cur @ [n]] ?u)" by (rule tree_ok_add_dir)
      moreover have "v = add_dirs [cur @ [n]] ?u" using ok(4) by (simp add: add_dirs_def)
      ultimately show ?thesis by simp
    qed
    show ?thesis
      using Cons.prems(2) Cons.IH [OF tree] Cons.IH [OF tree'] tree tree' Normal q k
      by (auto split: sum.splits if_splits)
  qed (use Cons in auto)
qed simp

lemma stage_owned:
  assumes st: "local_stage location options token s = (t, Ok w)" and tree: "tree_ok s"
  shows "owned w t (next_inode s) \<and> kept w s t \<and> lw_cancellation w = token \<and>
    lw_flush w = option_flush options \<and> lw_sync w = option_sync options \<and>
    active_writers t = active_writers s + 1"
proof -
  from st obtain u dest where u: "resolve_destination location OpWriterOpen s = (u, Ok dest)"
    and wo: "writer_open dest options token u = (t, Ok w)"
    unfolding local_stage_def by (rule act_bind_cases) auto
  obtain fl where fl: "u = s\<lparr>fs_faults := fl\<rparr>" using quietD [OF quiet_resolve(2) u] by blast
  have dest: "dest \<noteq> []" using wo by (auto simp: writer_open_def)
  then obtain p h where al: "allocate_stage 64 (butlast dest) (last dest) u = (t, Ok (p, h))"
    and w: "w = \<lparr>lw_file = Some h, lw_stage_path = p, lw_destination = dest,
       lw_flush = option_flush options, lw_sync = option_sync options,
       lw_cancellation = token, lw_active = True\<rparr>"
    using wo by (auto simp: writer_open_def elim!: act_bind_cases)
  obtain fl' k q where p: "p = butlast dest @ [stage_name (process_id u) (last dest) q]"
    and h: "h = next_inode u" and free: "lookup u p = None"
    and dir: "lookup u (butlast dest) = Some DirEntry"
    and t: "t = u\<lparr>fs_faults := fl', stage_sequence := k, active_writers := active_writers u + 1,
         entries := (p, FileEntry h) # entries u,
         inodes := (inodes u)(h := \<lparr>file_bytes = [], file_modified = fs_clock u\<rparr>),
         next_inode := Suc h\<rparr>"
    using allocate_stage_spec [OF al] by auto
  have lu: "lookup u = lookup s" and nu: "next_inode u = next_inode s" by (simp_all add: fl)
  have e: "entries t = (p, FileEntry h) # entries s" and n: "next_inode t = Suc h"
    and cwd: "fs_cwd t = fs_cwd s" and i: "inodes t = (inodes s)(h := \<lparr>file_bytes = [], file_modified = fs_clock u\<rparr>)"
    and act: "active_writers t = active_writers s + 1"
    by (simp_all add: t fl)
  have l: "lookup t = (lookup s)(p \<mapsto> FileEntry h)"
    by (simp add: lookup_def e p fun_eq_iff)
  have treet: "tree_ok t"
    by (rule tree_ok_add [OF tree _ _ l cwd])
      (use p dir free lu nu h n in \<open>auto simp: parent_is_dir_def\<close>)
  have below: "lookup s r = Some (FileEntry h) \<Longrightarrow> False" for r
    using tree_ok_inode [OF tree, of r h] h nu by simp
  have "last dest \<noteq> stage_name (process_id u) (last dest) q"
    using stage_name_longer [of "last dest" "process_id u" q] by (metis less_irrefl)
  then have ne: "p \<noteq> dest" using p by (metis last_snoc)
  have "staged w t h []" using l i w p dest ne by (simp add: staged_def)
  moreover have "r = p" if "lookup t r = Some (FileEntry h)" for r
    using that l below [of r] by (auto split: if_splits)
  ultimately have "owned w t h" using treet w by (auto simp: owned_def)
  moreover have "file_at t r = file_at s r" if "r \<noteq> p" for r
    using that l i below [of r] by (auto simp: file_at_def split: option.splits entry.splits)
  ultimately show ?thesis using act w h nu by (simp add: kept_def)
qed

lemma open_writer_owned:
  assumes op: "store_open_writer L store key flush sync token s = (t, Ok out)" and tree: "tree_ok s"
    and backend: "store_backend_of store = LocalBackend base"
  shows "\<exists>w h. out = LocalStoreWriter w base \<and> owned w t h \<and> kept w s t \<and> lw_cancellation w = token \<and>
    lw_sync w = sync \<and> active_writers t = active_writers s + 1"
proof -
  obtain u w where u: "ensure_local_parent base key s = (u, Ok ())"
    and w: "local_stage (local_location base key) \<lparr>option_flush = flush, option_sync = sync\<rparr> token u = (t, Ok w)"
    and out: "out = LocalStoreWriter w base"
    using op backend by (auto simp: store_open_writer_def elim!: act_bind_cases)
  have treeu: "tree_ok u" using ensure_parts_tree [OF tree] u by (auto simp: ensure_local_parent_def)
  obtain fl ds where g: "u = (add_dirs ds s)\<lparr>fs_faults := fl\<rparr>" "\<forall>p \<in> set ds. lookup s p = None"
    using ensure_parts_grown u unfolding ensure_local_parent_def by blast
  have "file_at (s\<lparr>fs_faults := fl\<rparr>) = file_at s" by (simp add: file_at_def fun_eq_iff)
  then have "file_at u = file_at s" using file_at_add_dirs [of ds "s\<lparr>fs_faults := fl\<rparr>"] g by simp
  moreover have "active_writers u = active_writers s" by (simp add: g(1))
  ultimately show ?thesis using stage_owned [OF w treeu] out by (auto simp: kept_def)
qed

lemma open_output_writing:
  assumes run: "open_output E L inputs options limit (LocalStoreWriter w base, s) = (t, Returned (Ok st))"
    and own: "owned w s h"
  shows "writing base st t w h \<and> kept w s t \<and> active_writers t = active_writers s \<and>
    pw_stats st = stats_init limit \<and> (\<exists>enc. pw_writer st = Some (enc, LocalStoreWriter w base))"
proof -
  obtain fs props where ok: "collect_results (map arrow_field inputs) = Ok fs"
    "properties_of E options = Returned (Ok props)"
    using run by (auto simp: open_output_def split: sum.splits unwind.splits)
  obtain out s1 x where sink: "run_sink L (encoder_new E fs props) (LocalStoreWriter w base, s) = ((out, s1), x)"
    by (metis surj_pair)
  have out: "out = LocalStoreWriter w base" and g: "grown h s s1"
    using run_local [OF sink] owned_file [OF own] by simp_all
  obtain enc where "x = Returned (Some enc)" and t: "t = s1"
    and st: "st = \<lparr>pw_writer = Some (enc, out), pw_schema = fs, pw_cancellation = writer_token out,
              pw_max_batch_rows = wo_max_batch_rows options, pw_stats = stats_init limit\<rparr>"
    using run ok sink by (auto simp: open_output_def split: unwind.splits option.splits)
  then show ?thesis
    using owned_grown [OF own g] out by (auto simp: writing_def stats_init_def writer_token_def)
qed

lemma open_output_failed:
  assumes run: "open_output E L inputs options limit (LocalStoreWriter w base, s) = (t, r)"
    and own: "owned w s h" and failed: "\<And>st. r \<noteq> Returned (Ok st)"
  shows "kept w s t \<and> active_writers t = active_writers s - 1"
proof -
  have at_once: ?thesis if "t = snd (store_writer_drop L (LocalStoreWriter w base, s1))" "grown h s s1" for s1
  proof -
    obtain o2 s2 where d: "store_writer_drop L (LocalStoreWriter w base, s1) = (o2, s2)" by fastforce
    note own1 = owned_grown [OF own that(2)]
    have "kept w s1 s2 \<and> active_writers s2 = active_writers s1 - 1"
      using drop_local [OF conjunct1 [OF own1] d] by simp
    then show ?thesis using own1 that(1) d kept_trans [of w s s1 s2] by simp
  qed
  show ?thesis
  proof (cases "\<exists>fs props. collect_results (map arrow_field inputs) = Ok fs \<and>
      properties_of E options = Returned (Ok props)")
    case False
    then show ?thesis using run
      by (intro at_once [of s]) (auto simp: open_output_def split: sum.splits unwind.splits)
  next
    case True
    then obtain fs props where ok: "collect_results (map arrow_field inputs) = Ok fs"
      "properties_of E options = Returned (Ok props)" by blast
    obtain out s1 x where sink: "run_sink L (encoder_new E fs props) (LocalStoreWriter w base, s) = ((out, s1), x)"
      by (metis surj_pair)
    have out: "out = LocalStoreWriter w base" and g: "grown h s s1"
      using run_local [OF sink] owned_file [OF own] by simp_all
    show ?thesis using run ok sink failed out
      by (intro at_once [OF _ g]) (auto simp: open_output_def split: unwind.splits option.splits)
  qed
qed

lemma open_store_local:
  assumes run: "parquet_open_store E L store key inputs options s = (t, r)" and tree: "tree_ok s"
    and backend: "store_backend_of store = LocalBackend base" and ok: "r = Returned (Ok st)"
  shows "\<exists>w h enc. writing base st t w h \<and> kept w s t \<and> active_writers t = active_writers s + 1 \<and>
    pw_stats st = stats_init 0 \<and> pw_writer st = Some (enc, LocalStoreWriter w base) \<and>
    sync_policy_of (wo_sync options) = Ok (lw_sync w)"
proof -
  obtain flush sync out u where f: "flush_policy_of (wo_flush options) = Ok flush"
    "sync_policy_of (wo_sync options) = Ok sync"
    and u: "store_open_writer L store key flush sync token_default s = (u, Ok out)"
    and o: "open_output E L inputs options (store_multipart_buffer_limit store) (out, u) = (t, r)"
    using run ok unfolding parquet_open_store_def by (auto split: sum.splits prod.splits)
  obtain w h where w: "out = LocalStoreWriter w base" "owned w u h" "kept w s u" "lw_sync w = sync"
    "active_writers u = active_writers s + 1"
    using open_writer_owned [OF u tree backend] by blast
  have lim: "store_multipart_buffer_limit store = 0" using backend by (simp add: store_multipart_buffer_limit_def)
  note wr = open_output_writing [OF o [unfolded w(1) ok lim] w(2)]
  then show ?thesis using w f kept_trans [of w s u t] by auto
qed

section \<open>Sequences of calls\<close>

datatype 't writer_call = WriteCall 't | CloseCall | AbortCall | CancelCall | DownCall

text \<open>One call on the resource; \<open>CancelCall\<close> is the lock-free part of \<^verbatim>\<open>down\<close>, \<open>DownCall\<close> the rest.\<close>

definition writer_call ::
  "'t nif \<Rightarrow> batch_lib \<Rightarrow> 'e encoder_lib \<Rightarrow> 'r remote_lib \<Rightarrow> 't writer_call
   \<Rightarrow> 'e parquet_writer \<times> 'r store_world \<Rightarrow> 'e parquet_writer \<times> 'r store_world" where
  "writer_call N B E L call rs =
     (case call of
        WriteCall t \<Rightarrow> fst (resource_write N B E L t rs)
      | CloseCall \<Rightarrow> fst (resource_close_writer E L rs)
      | AbortCall \<Rightarrow> fst (resource_abort_writer E L rs)
      | CancelCall \<Rightarrow> (writer_cancel (fst rs), snd rs)
      | DownCall \<Rightarrow> writer_down_abort E L rs)"

fun writer_calls ::
  "'t nif \<Rightarrow> batch_lib \<Rightarrow> 'e encoder_lib \<Rightarrow> 'r remote_lib \<Rightarrow> 't writer_call list
   \<Rightarrow> 'e parquet_writer \<times> 'r store_world \<Rightarrow> 'e parquet_writer \<times> 'r store_world" where
  "writer_calls N B E L [] rs = rs"
| "writer_calls N B E L (c # cs) rs = writer_calls N B E L cs (writer_call N B E L c rs)"

text \<open>Before the first close: still writing the same staging file, or aborted.\<close>

definition before_close :: "string list \<Rightarrow> local_writer \<Rightarrow> nat \<Rightarrow> 'e writer_state \<Rightarrow> 'r store_world \<Rightarrow> bool" where
  "before_close base w h st s \<longleftrightarrow> (\<exists>token. writing base st s (w\<lparr>lw_cancellation := token\<rparr>) h) \<or> finished st"

definition writer_count :: "'e writer_state \<Rightarrow> usize" where
  "writer_count st = (if ws_active (pw_stats st) then 1 else 0)"

lemma writing_count: "writing base st s w h \<Longrightarrow> writer_count st = 1"
  by (simp add: writing_def writer_count_def)

lemma finished_count: "finished st \<Longrightarrow> writer_count st = 0"
  by (simp add: finished_def writer_count_def)

definition steady :: "local_writer \<Rightarrow> 'e writer_state \<times> 'r store_world \<Rightarrow> 'e writer_state \<times> 'r store_world \<Rightarrow> bool" where
  "steady w ss tt \<longleftrightarrow>
     kept w (snd ss) (snd tt) \<and>
     active_writers (snd tt) + writer_count (fst ss) = active_writers (snd ss) + writer_count (fst tt)"

lemma steady_refl [simp]: "steady w ss ss"
  by (simp add: steady_def)

lemma steady_trans:
  assumes "steady w a b" and "steady w b c"
  shows "steady w a c"
proof -
  have "active_writers (snd c) + writer_count (fst a) = active_writers (snd a) + writer_count (fst c)"
  proof -
    have "active_writers (snd b) = active_writers (snd a) + writer_count (fst b) - writer_count (fst a)"
      "active_writers (snd c) = active_writers (snd b) + writer_count (fst c) - writer_count (fst b)"
      using assms by (simp_all add: steady_def eq_diff_eq)
    then show ?thesis by simp
  qed
  then show ?thesis using assms kept_trans [of w "snd a" "snd b" "snd c"] by (simp add: steady_def)
qed

lemma write_steady:
  assumes "before_close base w h st s" and "parquet_write_batch N B E L t (st, s) = ((st', s'), r)"
  shows "before_close base w h st' s' \<and> steady w (st, s) (st', s')"
proof (cases "finished st")
  case True
  then show ?thesis using assms finished_refused(1) [OF True, of N B E L t s] by simp
next
  case False
  then obtain token where "writing base st s (w\<lparr>lw_cancellation := token\<rparr>) h"
    using assms(1) by (auto simp: before_close_def)
  from this write_batch_writing [OF this assms(2)] show ?thesis
    by (auto simp: before_close_def steady_def writing_count)
qed

lemma abort_steady:
  assumes "before_close base w h st s" and "parquet_abort E L (st, s) = ((st', s'), b)"
  shows "finished st' \<and> steady w (st, s) (st', s')"
proof (cases "finished st")
  case True
  then show ?thesis using assms finished_refused(3) [OF True, of E L s] by simp
next
  case False
  then obtain token where wr: "writing base st s (w\<lparr>lw_cancellation := token\<rparr>) h"
    using assms(1) by (auto simp: before_close_def)
  from abort_writing [OF wr assms(2)] show ?thesis
    by (auto simp: steady_def writing_count [OF wr] finished_count)
qed

lemma cancel_steady:
  assumes "before_close base w h st s"
  shows "before_close base w h (cancel_state st) s \<and> steady w (st, s) (cancel_state st, s)"
proof (cases "finished st")
  case True
  then show ?thesis using finished_refused(4) [OF True]
    by (simp add: before_close_def steady_def finished_count)
next
  case False
  then obtain token where "writing base st s (w\<lparr>lw_cancellation := token\<rparr>) h"
    using assms(1) by (auto simp: before_close_def)
  note wr = cancel_writing [OF this] this
  then have "before_close base w h (cancel_state st) s" unfolding before_close_def by auto
  then show ?thesis using wr by (simp add: steady_def writing_count)
qed

lemma call_steady:
  assumes "before_close base w h (pr_state r) s" and "c \<noteq> CloseCall"
    and "writer_call N B E L c (r, s) = (r', s')"
  shows "before_close base w h (pr_state r') s' \<and> steady w (pr_state r, s) (pr_state r', s')"
proof (cases c)
  case (WriteCall t)
  obtain st1 s1 x where x: "parquet_write_batch N B E L t (pr_state r, s) = ((st1, s1), x)" by (metis surj_pair)
  show ?thesis using assms(3) WriteCall write_steady [OF assms(1) x] x assms(1)
    by (auto simp: writer_call_def resource_write_def parquet_lock_def split: if_splits)
next
  case AbortCall
  obtain st1 s1 x where x: "parquet_abort E L (pr_state r, s) = ((st1, s1), x)" by (metis surj_pair)
  show ?thesis using assms(3) AbortCall abort_steady [OF assms(1) x] x assms(1)
    by (auto simp: writer_call_def resource_abort_writer_def parquet_lock_def before_close_def split: if_splits)
next
  case DownCall
  obtain st1 s1 x where x: "parquet_abort E L (pr_state r, s) = ((st1, s1), x)" by (metis surj_pair)
  show ?thesis using assms(3) DownCall abort_steady [OF assms(1) x] x assms(1)
    by (auto simp: writer_call_def writer_down_abort_def before_close_def split: if_splits)
next
  case CancelCall
  then show ?thesis using assms(3) cancel_steady [OF assms(1)]
    by (auto simp: writer_call_def writer_cancel_def)
qed (use assms(2) in simp)

lemma calls_steady:
  "before_close base w h (pr_state r) s \<Longrightarrow> CloseCall \<notin> set cs \<Longrightarrow> writer_calls N B E L cs (r, s) = (r', s') \<Longrightarrow>
     before_close base w h (pr_state r') s' \<and> steady w (pr_state r, s) (pr_state r', s')"
proof (induction cs arbitrary: r s)
  case (Cons c cs)
  obtain r1 s1 where c: "writer_call N B E L c (r, s) = (r1, s1)" by fastforce
  have step: "before_close base w h (pr_state r1) s1" "steady w (pr_state r, s) (pr_state r1, s1)"
    using call_steady [OF Cons.prems(1) _ c] Cons.prems(2) by auto
  have "before_close base w h (pr_state r') s' \<and> steady w (pr_state r1, s1) (pr_state r', s')"
    using Cons.IH [OF step(1)] Cons.prems c by simp
  then show ?case using steady_trans [OF step(2)] by blast
qed simp

text \<open>What a close does to the destination.\<close>

definition close_outcome ::
  "local_writer \<Rightarrow> string list \<Rightarrow> bytes option \<Rightarrow> 'z filesystem_scheme \<Rightarrow> 'z filesystem_scheme
   \<Rightarrow> object_metadata native_result unwind \<Rightarrow> bool" where
  "close_outcome w base seal s t r \<longleftrightarrow>
     (\<forall>p. p \<noteq> lw_destination w \<longrightarrow> p \<noteq> lw_stage_path w \<longrightarrow> file_at t p = file_at s p) \<and>
     (case r of
        Returned (Inr md) \<Rightarrow> \<exists>content. seal = Some content \<and>
          file_at t (lw_destination w) = Some content \<and> object_size md = word_of_nat (length content)
      | Returned (Inl e) \<Rightarrow> file_at t (lw_destination w) = file_at s (lw_destination w) \<or>
          file_at t (lw_destination w) = seal \<and> published_error w base
      | Panicked \<Rightarrow> file_at t (lw_destination w) = file_at s (lw_destination w))"

lemma close_outcome_refused: "close_outcome w base seal s s (Returned (Err e))"
  by (simp add: close_outcome_def)

lemma close_outcome_kept:
  "close_outcome w base seal s t r \<Longrightarrow> kept w s0 s \<Longrightarrow> lw_stage_path w \<noteq> lw_destination w \<Longrightarrow>
     close_outcome w base seal s0 t r"
  by (auto simp: close_outcome_def kept_def split: unwind.splits sum.splits)

lemma close_before_close:
  assumes b: "before_close base w h (pr_state r) s" and run: "resource_close_writer E L (r, s) = ((r', t), x)"
  shows "close_outcome w base (sealed_file E L (pr_state r) s w) s t x"
proof (cases "pr_poisoned r \<or> finished (pr_state r)")
  case True
  then show ?thesis using run finished_refused(2) [of "pr_state r" E L s] close_outcome_refused [of w base _ s]
    by (auto simp: resource_close_writer_def parquet_lock_def split: if_splits)
next
  case False
  then obtain token where wr: "writing base (pr_state r) s (w\<lparr>lw_cancellation := token\<rparr>) h"
    using b by (auto simp: before_close_def)
  obtain st1 s1 y where y: "parquet_close E L (pr_state r, s) = ((st1, s1), y)" by (metis surj_pair)
  have x: "x = y" "t = s1"
    using run False y by (auto simp: resource_close_writer_def parquet_lock_def)
  from close_writing [OF wr y] show ?thesis
  proof
    assume "cancelled_flag (lw_cancellation (w\<lparr>lw_cancellation := token\<rparr>)) \<and> st1 = pr_state r \<and> s1 = s \<and>
      y = Returned (Err (failure_cancelled OpParquetWriterClose))"
    then show ?thesis using x close_outcome_refused by auto
  next
    assume *: "pw_writer st1 = None \<and> ws_active (pw_stats st1) = (y = Panicked) \<and>
      active_writers s1 = active_writers s - 1 \<and>
      (\<forall>p. p \<noteq> lw_destination (w\<lparr>lw_cancellation := token\<rparr>) \<longrightarrow>
        p \<noteq> lw_stage_path (w\<lparr>lw_cancellation := token\<rparr>) \<longrightarrow> file_at s1 p = file_at s p) \<and>
      (\<exists>content. sealed_file E L (pr_state r) s (w\<lparr>lw_cancellation := token\<rparr>) = Some content \<and> (case y of
           Returned (Inr md) \<Rightarrow> file_at s1 (lw_destination (w\<lparr>lw_cancellation := token\<rparr>)) = Some content \<and>
             object_size md = word_of_nat (length content)
         | Returned (Inl e) \<Rightarrow> file_at s1 (lw_destination (w\<lparr>lw_cancellation := token\<rparr>)) =
               file_at s (lw_destination (w\<lparr>lw_cancellation := token\<rparr>)) \<or>
             file_at s1 (lw_destination (w\<lparr>lw_cancellation := token\<rparr>)) = Some content \<and>
             published_error (w\<lparr>lw_cancellation := token\<rparr>) base
         | Panicked \<Rightarrow> file_at s1 (lw_destination (w\<lparr>lw_cancellation := token\<rparr>)) =
             file_at s (lw_destination (w\<lparr>lw_cancellation := token\<rparr>))))"
    then show ?thesis using x
      by (auto simp: close_outcome_def published_error_def split: unwind.splits sum.splits)
  qed
qed

section \<open>The destination\<close>

lemma writing_apart: "writing base st s w h \<Longrightarrow> lw_stage_path w \<noteq> lw_destination w"
  by (auto simp: writing_def owned_def staged_def)

text \<open>C4: nothing becomes visible before a successful close, whatever the encoder writes, whatever
  fails, and whichever writes, aborts, cancellations and owner deaths come first: up to the close
  no file but the staging file differs from the state before the open, and the count of active
  writers is one more exactly while the writer is active. A close that succeeds puts into the
  destination exactly the bytes the finished encoder left in the staging file, and reports
  their number; a close that fails or panics leaves the destination as it was, except for the
  errors after the replacement.\<close>

theorem writer_destination_safe:
  assumes "parquet_open_store E L store key inputs options s = (s1, Returned (Ok st))"
    and "tree_ok s" and "store_backend_of store = LocalBackend base"
    and "CloseCall \<notin> set calls"
    and "writer_calls N B E L calls (\<lparr>pr_state = st, pr_poisoned = False\<rparr>, s1) = (r, s2)"
    and "resource_close_writer E L (r, s2) = ((r', s3), result)"
  shows "\<exists>w enc. pw_writer st = Some (enc, LocalStoreWriter w base) \<and> kept w s s2 \<and>
    active_writers s2 = active_writers s + writer_count (pr_state r) \<and>
    close_outcome w base (sealed_file E L (pr_state r) s2 w) s s3 result"
proof -
  obtain w h enc where op: "writing base st s1 w h" "kept w s s1" "active_writers s1 = active_writers s + 1"
    "pw_writer st = Some (enc, LocalStoreWriter w base)"
    using open_store_local [OF assms(1-3) refl] by blast
  have "w = w\<lparr>lw_cancellation := lw_cancellation w\<rparr>" by simp
  then have before: "before_close base w h st s1" using op(1) unfolding before_close_def by metis
  have calls: "before_close base w h (pr_state r) s2" "steady w (st, s1) (pr_state r, s2)"
    using calls_steady [OF _ assms(4,5)] before by simp_all
  have kept: "kept w s s2" using calls(2) kept_trans [OF op(2)] by (simp add: steady_def)
  have "active_writers s2 = active_writers s + writer_count (pr_state r)"
    using calls(2) op(3) writing_count [OF op(1)] by (simp add: steady_def)
  moreover have "close_outcome w base (sealed_file E L (pr_state r) s2 w) s s3 result"
    by (rule close_outcome_kept [OF close_before_close [OF calls(1) assms(6)] kept writing_apart [OF op(1)]])
  ultimately show ?thesis using op(4) kept by blast
qed

end
