(* ===== verification/Writer_Refinement.thy ===== *)
theory Writer_Refinement
  imports Writer_Properties Codec_Properties
begin

text \<open>
  Without failures the Parquet writer refines the encoder: what is published is what the encoder
  writes for the decoded batches, and it is read back through the store. The end of a writer is
  final.
\<close>

section \<open>The encoder alone\<close>

fun encode_batches :: "'e encoder_lib \<Rightarrow> 'e \<Rightarrow> record_batch list \<Rightarrow> (bytes \<times> 'e) option" where
  "encode_batches E enc [] = Some ([], enc)"
| "encode_batches E enc (b # bs) =
     (case sink_log (encoder_write E enc b) of
        (out, (enc, result)) \<Rightarrow>
          if result = Returned True
          then map_option (\<lambda>(rest, enc). (out @ rest, enc)) (encode_batches E enc bs)
          else None)"

definition encode_file ::
  "'e encoder_lib \<Rightarrow> field list \<Rightarrow> writer_properties \<Rightarrow> record_batch list \<Rightarrow> bytes option" where
  "encode_file E schema properties bs =
     (case sink_log (encoder_new E schema properties) of
        (start, Returned (Some enc)) \<Rightarrow>
          (case encode_batches E enc bs of
             None \<Rightarrow> None
           | Some (body, enc) \<Rightarrow>
               (case sink_log (encoder_into_inner E enc) of
                  (end, result) \<Rightarrow> if result = Returned True then Some (start @ body @ end) else None))
      | _ \<Rightarrow> None)"

section \<open>The steps\<close>

definition undisturbed ::
  "string list \<Rightarrow> 'e writer_state \<Rightarrow> 'r store_world \<Rightarrow> local_writer \<Rightarrow> nat \<Rightarrow> 'e \<Rightarrow> bytes \<Rightarrow> bool" where
  "undisturbed base st s w h enc content \<longleftrightarrow>
     pw_writer st = Some (enc, LocalStoreWriter w base) \<and> pw_cancellation st = lw_cancellation w \<and>
     ws_active (pw_stats st) \<and> staged w s h content \<and> fs_faults s = [] \<and> writer_ready w"

lemma write_batch_ok:
  assumes u: "undisturbed base st s w h enc content"
    and b: "decode_batch N B t (pw_schema st) (unat (pw_max_batch_rows st)) = Returned (Ok b)"
    and e: "sink_log (encoder_write E enc b) = (out, (enc', Returned True))"
  shows "\<exists>s'. parquet_write_batch N B E L t (st, s) =
      ((st\<lparr>pw_writer := Some (enc', LocalStoreWriter w base), pw_stats := count_batch E enc' b (pw_stats st)\<rparr>, s'),
       Returned (Ok (count_batch E enc' b (pw_stats st)))) \<and>
    undisturbed base (st\<lparr>pw_writer := Some (enc', LocalStoreWriter w base),
      pw_stats := count_batch E enc' b (pw_stats st)\<rparr>) s' w h enc' (content @ out) \<and> grown h s s'"
proof -
  have facts: "staged w s h content" "fs_faults s = []" "writer_ready w"
    "pw_writer st = Some (enc, LocalStoreWriter w base)" "\<not> cancelled_flag (pw_cancellation st)"
    "ws_active (pw_stats st)"
    using u by (simp_all add: undisturbed_def writer_ready_def)
  obtain s' where s': "run_sink L (encoder_write E enc b) (LocalStoreWriter w base, s) =
      ((LocalStoreWriter w base, s'), (enc', Returned True))"
    "staged w s' h (content @ out)" "fs_faults s' = []" "grown h s s'"
    using run_local_ok [OF facts(1-3), of L "encoder_write E enc b" base] e by auto
  then show ?thesis
    using facts b u by (intro exI [of _ s']) (simp add: parquet_write_batch_def undisturbed_def count_batch_def Let_def)
qed

fun parquet_write_all ::
  "'t nif \<Rightarrow> batch_lib \<Rightarrow> 'e encoder_lib \<Rightarrow> 'r remote_lib \<Rightarrow> 't list \<Rightarrow> ('e, 'r) pw_world
   \<Rightarrow> ('e, 'r) pw_world \<times> writer_stats list native_result unwind" where
  "parquet_write_all N B E L [] ws = (ws, Returned (Ok []))"
| "parquet_write_all N B E L (t # ts) ws =
     (case parquet_write_batch N B E L t ws of
        (ws, r) \<Rightarrow>
          (case r of
             Panicked \<Rightarrow> (ws, Panicked)
           | Returned (Inl e) \<Rightarrow> (ws, Returned (Err e))
           | Returned (Inr stats) \<Rightarrow>
               (case parquet_write_all N B E L ts ws of
                  (ws, r) \<Rightarrow> (ws, unwind_result r (\<lambda>all. Returned (Ok (stats # all)))))))"

lemma write_all_ok:
  assumes "undisturbed base st s w h enc content" and "pw_schema st = fs" and "unat (pw_max_batch_rows st) = n"
    and "list_all2 (\<lambda>t b. decode_batch N B t fs n = Returned (Ok b)) ts bs"
    and "encode_batches E enc bs = Some (out, enc')"
  shows "\<exists>st' s' replies. parquet_write_all N B E L ts (st, s) = ((st', s'), Returned (Ok replies)) \<and>
    undisturbed base st' s' w h enc' (content @ out) \<and> grown h s s' \<and>
    ws_batches (pw_stats st') = ws_batches (pw_stats st) + word_of_nat (length bs) \<and>
    ws_rows (pw_stats st') = ws_rows (pw_stats st) + word_of_nat (sum_list (map batch_rows bs)) \<and>
    length replies = length ts"
  using assms
proof (induction ts bs arbitrary: st s enc content out rule: list_induct2')
  case 1
  then show ?case by auto
next
  case (4 t ts b bs)
  obtain o1 enc1 where e: "sink_log (encoder_write E enc b) = (o1, (enc1, Returned True))"
    and rest: "\<exists>o2. encode_batches E enc1 bs = Some (o2, enc') \<and> out = o1 @ o2"
    using 4(6) by (auto split: prod.splits if_splits)
  obtain o2 where o2: "encode_batches E enc1 bs = Some (o2, enc')" "out = o1 @ o2" using rest by blast
  let ?st = "st\<lparr>pw_writer := Some (enc1, LocalStoreWriter w base), pw_stats := count_batch E enc1 b (pw_stats st)\<rparr>"
  have b: "decode_batch N B t (pw_schema st) (unat (pw_max_batch_rows st)) = Returned (Ok b)"
    using 4(3-5) by simp
  obtain s1 where s1: "parquet_write_batch N B E L t (st, s) =
      ((?st, s1), Returned (Ok (count_batch E enc1 b (pw_stats st))))"
    "undisturbed base ?st s1 w h enc1 (content @ o1)" "grown h s s1"
    using write_batch_ok [OF 4(2) b e, of L] by blast
  obtain st' s' replies where ih: "parquet_write_all N B E L ts (?st, s1) = ((st', s'), Returned (Ok replies))"
    "undisturbed base st' s' w h enc' ((content @ o1) @ o2)" "grown h s1 s'"
    "ws_batches (pw_stats st') = ws_batches (pw_stats ?st) + word_of_nat (length bs)"
    "ws_rows (pw_stats st') = ws_rows (pw_stats ?st) + word_of_nat (sum_list (map batch_rows bs))"
    "length replies = length ts"
    using 4(1) [OF s1(2) _ _ _ o2(1)] 4(3-5) by auto
  then show ?case
    using s1 o2(2) grown_trans [OF s1(3) ih(3)] by (simp add: unwind_result_def count_batch_def)
qed auto

lemma close_ok:
  assumes u: "undisturbed base st s w h enc content"
    and e: "sink_log (encoder_into_inner E enc) = (out, Returned True)"
    and own: "owned w s h" and parent: "parent_is_dir s (lw_destination w)"
    and dest: "lookup s (lw_destination w) \<noteq> Some DirEntry"
    and path: "lw_destination w = base @ ns" "list_all plain_name (base @ ns)"
  shows "\<exists>st' t md. parquet_close E L (st, s) = ((st', t), Returned (Ok md)) \<and> finished st' \<and>
    pw_stats st' = (pw_stats st)\<lparr>ws_active := False\<rparr> \<and>
    object_path md = join_with CHR ''/'' ns \<and> object_size md = word_of_nat (length (content @ out)) \<and>
    active_writers t = active_writers s - 1 \<and> tree_ok t \<and> fs_faults t = [] \<and>
    file_at t (lw_destination w) = Some (content @ out) \<and> file_at t (lw_stage_path w) = None \<and>
    (\<forall>p. p \<noteq> lw_destination w \<longrightarrow> p \<noteq> lw_stage_path w \<longrightarrow> file_at t p = file_at s p)"
proof -
  have facts: "staged w s h content" "fs_faults s = []" "writer_ready w"
    "pw_writer st = Some (enc, LocalStoreWriter w base)" "\<not> cancelled_flag (pw_cancellation st)"
    using u by (simp_all add: undisturbed_def writer_ready_def)
  obtain s1 where s1: "run_sink L (encoder_into_inner E enc) (LocalStoreWriter w base, s) =
      ((LocalStoreWriter w base, s1), Returned True)"
    "staged w s1 h (content @ out)" "fs_faults s1 = []" "grown h s s1"
    using run_local_ok [OF facts(1-3), of L "encoder_into_inner E enc" base] e by auto
  obtain fl node where g: "s1 = s\<lparr>fs_faults := fl, inodes := (inodes s)(h := node)\<rparr>"
    using s1(4) by (auto simp: grown_def)
  have l: "lookup s1 = lookup s" and act: "active_writers s1 = active_writers s"
    by (simp_all add: g lookup_def fun_eq_iff)
  have tree1: "tree_ok s1" and same: "kept w s s1" using owned_grown [OF own s1(4)] by (simp_all add: owned_def)
  have parent1: "parent_is_dir s1 (lw_destination w)" "lookup s1 (lw_destination w) \<noteq> Some DirEntry"
    using parent dest by (simp_all add: parent_is_dir_def l)
  obtain t md where pub: "writer_publish (w, s1) = ((closed_writer w, t), Ok md)" "fs_faults t = []"
    using publish_ok [OF s1(2,3) facts(3) tree1 parent1(2,1)] by blast
  note after = staged_publish [OF s1(2) tree1 pub(1) facts(3)]
  have md: "object_path md = path_string (base @ ns)" "object_size md = word_of_nat (length (content @ out))"
    using after path(1) by simp_all
  let ?md = "\<lparr>object_path = join_with CHR ''/'' ns, object_size = object_size md,
    object_modified_unix_ns = object_modified_unix_ns md\<rparr>"
  let ?st = "set_active False (st\<lparr>pw_writer := None, pw_cancellation := lw_cancellation w\<rparr>)"
  have "parquet_close E L (st, s) = ((?st, t), Returned (Ok ?md))"
    using facts s1(1) pub(1) local_metadata_plain [OF path(2) md(1)]
    by (simp add: parquet_close_def Let_def staged_publish_object_def store_writer_publish_def
        on_local_writer_def release_staged_def drop_closed set_active_def writer_token_def closed_writer_def
        store_writer_drop_def writer_drop_def)
  moreover have "finished ?st" by (simp add: finished_def set_active_def)
  moreover have "pw_stats ?st = (pw_stats st)\<lparr>ws_active := False\<rparr>" by (simp add: set_active_def)
  moreover have "file_at t (lw_stage_path w) = None" using after by (simp add: file_at_def)
  moreover have "file_at t p = file_at s p" if "p \<noteq> lw_destination w" "p \<noteq> lw_stage_path w" for p
    using after same that by (simp add: kept_def)
  ultimately show ?thesis using after act md(2) pub(2) by auto
qed

lemma parquet_open_ok:
  assumes base: "list_all plain_name base" and key: "validate_key key False = Ok ()"
    and can: "can_create base (key_names key) s" and backend: "store_backend_of store = LocalBackend base"
    and policies: "flush_policy_of (wo_flush options) = Ok flush" "sync_policy_of (wo_sync options) = Ok sync"
    and schema: "collect_results (map arrow_field inputs) = Ok fs"
    and props: "properties_of E options = Returned (Ok properties)"
    and e: "sink_log (encoder_new E fs properties) = (start, Returned (Some enc))"
  shows "\<exists>t st w h. parquet_open_store E L store key inputs options s = (t, Returned (Ok st)) \<and>
    undisturbed base st t w h enc start \<and> pw_schema st = fs \<and>
    pw_max_batch_rows st = wo_max_batch_rows options \<and> pw_stats st = stats_init 0 \<and>
    lw_destination w = base @ key_names key \<and> owned w t h \<and> kept w s t \<and>
    parent_is_dir t (lw_destination w) \<and> lookup t (lw_destination w) \<noteq> Some DirEntry \<and>
    active_writers t = active_writers s + 1 \<and> file_at s (lw_stage_path w) = None"
proof -
  obtain ds ns n where ns: "key_names key = ns @ [n]"
    and ensure: "ensure_local_parent base key s = (add_dirs ds s, Ok ())"
    and fresh: "\<And>p. p \<in> set ds \<Longrightarrow> lookup s p = None" and long: "\<And>x. base @ ns @ [x] \<notin> set ds"
    and ds: "tree_ok (add_dirs ds s)" "lookup (add_dirs ds s) (base @ ns) = Some DirEntry"
    and res: "resolve_destination (local_location base key) OpWriterOpen (add_dirs ds s) =
      (add_dirs ds s, Ok ((base @ ns) @ [n]))"
    and dest: "lookup s (base @ ns @ [n]) \<noteq> Some DirEntry"
    and free: "lookup s (base @ ns @ [stage_name (process_id s) n (stage_sequence s)]) = None"
    by (rule ensure_parent_ok [OF base key can]) blast
  let ?s = "add_dirs ds s" and ?options = "\<lparr>option_flush = flush, option_sync = sync\<rparr>"
  have nf: "fs_faults ?s = []" using can by (simp add: can_create_def)
  have free': "lookup ?s ((base @ ns) @ [stage_name (process_id ?s) n (stage_sequence ?s)]) = None"
    using free long by (simp add: lookup_add_dirs)
  obtain w t where w: "local_stage (local_location base key) ?options token_default ?s = (t, Ok w)"
    "staged w t (next_inode ?s) []" "writer_ready w" "lw_destination w = (base @ ns) @ [n]"
    "lw_stage_path w = (base @ ns) @ [stage_name (process_id ?s) n (stage_sequence ?s)]"
    "fs_faults t = []" "lookup t = (lookup ?s)(lw_stage_path w \<mapsto> FileEntry (next_inode ?s))"
    by (rule stage_ok_eval [OF nf res ds(2) free' ds(1), of ?options])
  note own = stage_owned [OF w(1) ds(1)]
  have kept: "kept w s t" using own file_at_add_dirs [of ds s] fresh by (simp add: kept_def)
  have open_w: "store_open_writer L store key flush sync token_default s = (t, Ok (LocalStoreWriter w base))"
    using key backend ensure w(1) by (simp add: store_open_writer_def)
  obtain t1 where t1: "run_sink L (encoder_new E fs properties) (LocalStoreWriter w base, t) =
      ((LocalStoreWriter w base, t1), Returned (Some enc))"
    "staged w t1 (next_inode ?s) start" "fs_faults t1 = []" "grown (next_inode ?s) t t1"
    using run_local_ok [OF w(2,6,3), of L "encoder_new E fs properties" base] e by auto
  have own1: "owned w t1 (next_inode ?s)" "kept w t t1" "active_writers t1 = active_writers t"
    using owned_grown [OF conjunct1 [OF own] t1(4)] by simp_all
  let ?st = "\<lparr>pw_writer = Some (enc, LocalStoreWriter w base), pw_schema = fs,
    pw_cancellation = lw_cancellation w, pw_max_batch_rows = wo_max_batch_rows options,
    pw_stats = stats_init 0\<rparr>"
  have run: "parquet_open_store E L store key inputs options s = (t1, Returned (Ok ?st))"
    using policies open_w schema props t1(1) backend
    by (simp add: parquet_open_store_def open_output_def store_multipart_buffer_limit_def writer_token_def)
  have "undisturbed base ?st t1 w (next_inode ?s) enc start"
    using t1(2,3) w(3) by (simp add: undisturbed_def stats_init_def)
  moreover have l: "lookup t1 = lookup t" using t1(4) by (auto simp: grown_def lookup_def fun_eq_iff)
  have parent: "butlast (lw_destination w) = base @ ns" "lw_stage_path w \<noteq> base @ ns"
    by (simp only: w(4) butlast_snoc) (simp only: w(5), simp)
  have "lookup t (base @ ns) = Some DirEntry" "lookup t (base @ ns @ [n]) \<noteq> Some DirEntry"
    using w(2,4,7) ds(2) dest long parent(2) by (auto simp: lookup_add_dirs staged_def)
  then have "parent_is_dir t1 (lw_destination w)" "lookup t1 (lw_destination w) \<noteq> Some DirEntry"
    using parent(1) w(4) by (simp_all add: l parent_is_dir_def)
  moreover have "file_at s (lw_stage_path w) = None" using free w(5) by (simp add: file_at_def)
  moreover have "kept w s t1" by (rule kept_trans [OF kept own1(2)])
  moreover have "active_writers t1 = active_writers s + 1" using own own1(3) by simp
  ultimately show ?thesis using run own1(1) w(4) ns by (auto intro!: exI [of _ ?st] exI [of _ w])
qed

section \<open>A sample\<close>

text \<open>An encoder that writes a magic byte, buffers one byte for each batch and flushes at the end.\<close>

definition sample_encoder :: "bytes encoder_lib" where
  "sample_encoder =
     \<lparr>properties_accepted = (\<lambda>rows page batch. 0 < rows \<and> 0 < batch),
      encoder_new = (\<lambda>fs p. SinkWrite [80] (\<lambda>r.
        SinkDone (Returned (if isl r then None else Some [])))),
      encoder_write = (\<lambda>enc b. SinkDone (enc @ [word_of_nat (batch_rows b)], Returned True)),
      encoder_in_progress_size = vec_len,
      encoder_into_inner = (\<lambda>enc. SinkWrite enc (\<lambda>r.
        if isl r then SinkDone (Returned False) else SinkFlush (\<lambda>r. SinkDone (Returned (\<not> isl r))))),
      encoder_drop = (\<lambda>enc. SinkDone ()),
      batch_memory_size = (\<lambda>b. 16)\<rparr>"

definition sample_options :: writer_options where
  "sample_options =
     \<lparr>wo_compression = ''snappy'', wo_max_batch_rows = 8, wo_max_row_group_rows = 4,
      wo_data_page_size_limit = 100, wo_flush = ''none'', wo_sync = ''none'', wo_statistics = ''chunk''\<rparr>"

definition sample_properties :: writer_properties where
  "sample_properties =
     \<lparr>wp_compression = Snappy, wp_max_row_group_rows = 4, wp_data_page_size_limit = 100,
      wp_write_batch_size = 4, wp_statistics = ChunkStatistics,
      wp_key_values = key_values sample_options ''snappy''\<rparr>"

lemma sample_settings:
  "flush_policy_of (wo_flush sample_options) = Ok FlushNone"
  "sync_policy_of (wo_sync sample_options) = Ok SyncNone"
  "properties_of sample_encoder sample_options = Returned (Ok sample_properties)"
  by (simp_all add: sample_options_def sample_properties_def flush_policy_of_def sync_policy_of_def
      properties_of_def compression_of_def compression_name_def statistics_policy_of_def
      sample_encoder_def Let_def)

lemma sample_encodes_file:
  "encode_file sample_encoder fs p [sample_typed_batch] = Some [80, 2]"
  by (simp add: encode_file_def sample_encoder_def sample_typed_batch_def)

lemma sample_batches:
  "list_all2 (\<lambda>t b. decode_batch erl_codec sample_batch_lib t (batch_fields sample_typed_batch)
     (unat (wo_max_batch_rows sample_options)) = Returned (Ok b)) [sample_batch_term] [sample_typed_batch]"
  using sample_decodes by (simp add: sample_options_def)

lemma sample_opens:
  fixes L :: "unit remote_lib"
  obtains s1 st where "parquet_open_store sample_encoder L sample_store ''a/f'' sample_inputs sample_options
      sample_store_world = (s1, Returned (Ok st))" "ws_active (pw_stats st)"
proof -
  have "sink_log (encoder_new sample_encoder (batch_fields sample_typed_batch) sample_properties) =
      ([80], Returned (Some []))" by (simp add: sample_encoder_def)
  from parquet_open_ok [OF sample_store_facts(3) sample_store_key(1) sample_can_create sample_store_facts(4)
      sample_settings(1,2) sample_arrow sample_settings(3) this, of L]
  show ?thesis using that by (auto simp: undisturbed_def)
qed

section \<open>Properties\<close>

lemma writer_refines:
  assumes base: "list_all plain_name base" and key: "validate_key key False = Ok ()"
    and can: "can_create base (key_names key) s" and backend: "store_backend_of store = LocalBackend base"
    and policies: "flush_policy_of (wo_flush options) = Ok flush" "sync_policy_of (wo_sync options) = Ok sync"
    and schema: "collect_results (map arrow_field inputs) = Ok fs"
    and props: "properties_of E options = Returned (Ok properties)"
    and decoded: "list_all2 (\<lambda>t b. decode_batch N B t fs (unat (wo_max_batch_rows options)) =
      Returned (Ok b)) ts bs"
    and encoded: "encode_file E fs properties bs = Some content" and small: "length content < 2 ^ 64"
  shows "\<exists>s1 st s2 st2 replies s3 st3 md.
    parquet_open_store E L store key inputs options s = (s1, Returned (Ok st)) \<and>
    parquet_write_all N B E L ts (st, s1) = ((st2, s2), Returned (Ok replies)) \<and>
    ws_batches (pw_stats st2) = word_of_nat (length bs) \<and>
    ws_rows (pw_stats st2) = word_of_nat (sum_list (map batch_rows bs)) \<and>
    parquet_close E L (st2, s2) = ((st3, s3), Returned (Ok md)) \<and> finished st3 \<and>
    object_path md = join_with CHR ''/'' (key_names key) \<and>
    object_size md = word_of_nat (length content) \<and>
    file_at s3 = (file_at s)(base @ key_names key \<mapsto> content) \<and>
    active_writers s3 = active_writers s \<and>
    snd (store_read_range L store key 0 (object_size md) s3) =
      (if names_directory key then Err (from_io OpReadRange IoOther) else Ok content)"
proof -
  obtain start enc body enc2 tail where e: "sink_log (encoder_new E fs properties) = (start, Returned (Some enc))"
    "encode_batches E enc bs = Some (body, enc2)" "sink_log (encoder_into_inner E enc2) = (tail, Returned True)"
    "content = start @ body @ tail"
    using encoded by (auto simp: encode_file_def split: prod.splits unwind.splits option.splits if_splits)
  obtain s1 st w h where op: "parquet_open_store E L store key inputs options s = (s1, Returned (Ok st))"
    "undisturbed base st s1 w h enc start" "pw_schema st = fs"
    "pw_max_batch_rows st = wo_max_batch_rows options" "pw_stats st = stats_init 0"
    "lw_destination w = base @ key_names key" "owned w s1 h" "kept w s s1"
    "parent_is_dir s1 (lw_destination w)" "lookup s1 (lw_destination w) \<noteq> Some DirEntry"
    "active_writers s1 = active_writers s + 1" "file_at s (lw_stage_path w) = None"
    using parquet_open_ok [OF base key can backend policies schema props e(1), of L] by blast
  obtain st2 s2 replies where wr: "parquet_write_all N B E L ts (st, s1) = ((st2, s2), Returned (Ok replies))"
    "undisturbed base st2 s2 w h enc2 (start @ body)" "grown h s1 s2"
    "ws_batches (pw_stats st2) = ws_batches (pw_stats st) + word_of_nat (length bs)"
    "ws_rows (pw_stats st2) = ws_rows (pw_stats st) + word_of_nat (sum_list (map batch_rows bs))"
    using write_all_ok [OF op(2,3) arg_cong [OF op(4)] decoded e(2), of L] by blast
  note own = owned_grown [OF op(7) wr(3)]
  have l: "lookup s2 = lookup s1" using wr(3) by (auto simp: grown_def lookup_def fun_eq_iff)
  have dest: "parent_is_dir s2 (lw_destination w)" "lookup s2 (lw_destination w) \<noteq> Some DirEntry"
    using op(9,10) by (simp_all add: parent_is_dir_def l)
  have plain: "list_all plain_name (base @ key_names key)" using base validate_key_Ok [OF key] by simp
  obtain st3 s3 md where cl: "parquet_close E L (st2, s2) = ((st3, s3), Returned (Ok md))" "finished st3"
    "object_path md = join_with CHR ''/'' (key_names key)"
    "object_size md = word_of_nat (length ((start @ body) @ tail))"
    "active_writers s3 = active_writers s2 - 1" "tree_ok s3" "fs_faults s3 = []"
    "file_at s3 (lw_destination w) = Some ((start @ body) @ tail)" "file_at s3 (lw_stage_path w) = None"
    "\<forall>p. p \<noteq> lw_destination w \<longrightarrow> p \<noteq> lw_stage_path w \<longrightarrow> file_at s3 p = file_at s2 p"
    using close_ok [OF wr(2) e(3) conjunct1 [OF own] dest op(6) plain, of L] by blast
  have files: "file_at s3 = (file_at s)(base @ key_names key \<mapsto> content)"
  proof
    fix p
    show "file_at s3 p = ((file_at s)(base @ key_names key \<mapsto> content)) p"
      using cl(8-10) own op(6,8,12) e(4) by (cases "p = lw_stage_path w") (auto simp: kept_def)
  qed
  have size: "object_size md = word_of_nat (length content)" using cl(4) e(4) by simp
  have at_dest: "file_at s3 (base @ key_names key) = Some content" using files by simp
  have "snd (store_read_range L store key 0 (object_size md) s3) =
      (if names_directory key then Err (from_io OpReadRange IoOther) else Ok content)"
    using store_get [OF base key cl(7,6) backend at_dest small, of L 0 "object_size md"]
      store_get_directory [OF base key cl(7,6) backend at_dest, of L 0 "object_size md"] small size
    by (auto simp: slice_def unat_of_nat)
  moreover have "active_writers s3 = active_writers s" using cl(5) own op(11) by simp
  ultimately show ?thesis
    using op(1,5) wr(1,4,5) cl(1-3) files size by (auto simp: stats_init_def)
qed

text \<open>C1: the Parquet writer refines its encoder: when nothing fails, opening a writer, writing terms that
  decode to batches and closing succeeds; the statistics count the batches and their rows; the
  object holds exactly the bytes the encoder produces for those batches, its reported size and
  path are right, no other object changes, no writer stays active, and a range read of the
  whole object returns the bytes. Only for a key that ends in a separator or a dot segment, which is
  accepted and published under its plain name, the system refuses the read.\<close>

theorem parquet_writer_refines_encoder:
  assumes "list_all plain_name base" and "validate_key key False = Ok ()"
    and "can_create base (key_names key) s" and "store_backend_of store = LocalBackend base"
    and "flush_policy_of (wo_flush options) = Ok flush" and "sync_policy_of (wo_sync options) = Ok sync"
    and "collect_results (map arrow_field inputs) = Ok fs"
    and "properties_of E options = Returned (Ok properties)"
    and "list_all2 (\<lambda>t b. decode_batch N B t fs (unat (wo_max_batch_rows options)) = Returned (Ok b)) ts bs"
    and "encode_file E fs properties bs = Some content" and "length content < 2 ^ 64"
  shows "\<exists>s1 st s2 st2 replies s3 st3 md.
    parquet_open_store E L store key inputs options s = (s1, Returned (Ok st)) \<and>
    parquet_write_all N B E L ts (st, s1) = ((st2, s2), Returned (Ok replies)) \<and>
    ws_batches (pw_stats st2) = word_of_nat (length bs) \<and>
    ws_rows (pw_stats st2) = word_of_nat (sum_list (map batch_rows bs)) \<and>
    parquet_close E L (st2, s2) = ((st3, s3), Returned (Ok md)) \<and> finished st3 \<and>
    object_path md = join_with CHR ''/'' (key_names key) \<and>
    object_size md = word_of_nat (length content) \<and>
    file_at s3 = (file_at s)(base @ key_names key \<mapsto> content) \<and>
    active_writers s3 = active_writers s \<and>
    snd (store_read_range L store key 0 (object_size md) s3) =
      (if names_directory key then Err (from_io OpReadRange IoOther) else Ok content)"
  by (rule writer_refines [OF assms])

theorem parquet_writer_refines_encoder_witness:
  "\<forall>L :: unit remote_lib. \<exists>s1 st st2 s2 replies st3 s3 md.
    parquet_open_store sample_encoder L sample_store ''a/f'' sample_inputs sample_options
      sample_store_world = (s1, Returned (Ok st)) \<and>
    parquet_write_all erl_codec sample_batch_lib sample_encoder L [sample_batch_term] (st, s1) =
      ((st2, s2), Returned (Ok replies)) \<and> ws_rows (pw_stats st2) = 2 \<and>
    parquet_close sample_encoder L (st2, s2) = ((st3, s3), Returned (Ok md)) \<and>
    file_at s3 [''data'', ''a'', ''f''] = Some [80, 2] \<and>
    snd (store_read_range L sample_store ''a/f'' 0 (object_size md) s3) = Ok [80, 2]"
proof
  fix L :: "unit remote_lib"
  have "sum_list (map batch_rows [sample_typed_batch]) = 2" by (simp add: sample_typed_batch_def)
  with parquet_writer_refines_encoder [OF sample_store_facts(3) sample_store_key(1) sample_can_create
      sample_store_facts(4) sample_settings(1,2) sample_arrow sample_settings(3) sample_batches
      sample_encodes_file, of L]
  show "\<exists>s1 st st2 s2 replies st3 s3 md.
    parquet_open_store sample_encoder L sample_store ''a/f'' sample_inputs sample_options
      sample_store_world = (s1, Returned (Ok st)) \<and>
    parquet_write_all erl_codec sample_batch_lib sample_encoder L [sample_batch_term] (st, s1) =
      ((st2, s2), Returned (Ok replies)) \<and> ws_rows (pw_stats st2) = 2 \<and>
    parquet_close sample_encoder L (st2, s2) = ((st3, s3), Returned (Ok md)) \<and>
    file_at s3 [''data'', ''a'', ''f''] = Some [80, 2] \<and>
    snd (store_read_range L sample_store ''a/f'' 0 (object_size md) s3) = Ok [80, 2]"
    by (fastforce simp: sample_store_key(2,3))
qed

text \<open>The end of a writer.\<close>

lemma finished_calls:
  "finished (pr_state r) \<Longrightarrow> \<not> pr_poisoned r \<Longrightarrow> writer_calls N B E L cs (r, s) = (r', s') \<Longrightarrow>
     s' = s \<and> finished (pr_state r') \<and> pw_stats (pr_state r') = pw_stats (pr_state r) \<and> \<not> pr_poisoned r'"
proof (induction cs arbitrary: r s)
  case (Cons c cs)
  obtain r1 s1 where c: "writer_call N B E L c (r, s) = (r1, s1)" by fastforce
  have "s1 = s \<and> finished (pr_state r1) \<and> pw_stats (pr_state r1) = pw_stats (pr_state r) \<and> \<not> pr_poisoned r1"
    using c Cons.prems(1,2) finished_refused(4) [OF Cons.prems(1)]
    by (cases c) (auto simp: finished_refused(1-3) writer_call_def resource_write_def resource_close_writer_def
        resource_abort_writer_def writer_down_abort_def writer_cancel_def parquet_lock_def
        cancel_state_def Let_def)
  then show ?case using Cons.IH [of r1 s1] Cons.prems(3) c by auto
qed simp

definition calls_refused :: "'t nif \<Rightarrow> batch_lib \<Rightarrow> 'e encoder_lib \<Rightarrow> 'r remote_lib \<Rightarrow> 'e parquet_writer \<Rightarrow> 'r store_world \<Rightarrow> bool" where
  "calls_refused N B E L r s \<longleftrightarrow>
     (\<forall>t. resource_write N B E L t (r, s) = ((r, s), Returned (Err (failure_cancelled OpParquetWriterWrite)))) \<and>
     resource_close_writer E L (r, s) = ((r, s), Returned (Err (failure_cancelled OpParquetWriterClose))) \<and>
     resource_abort_writer E L (r, s) = ((r, s), Ok False) \<and> parquet_drop E L (r, s) = s"

lemma finished_calls_refused: "finished (pr_state r) \<Longrightarrow> \<not> pr_poisoned r \<Longrightarrow> calls_refused N B E L r s"
  by (cases r) (auto simp: finished_refused calls_refused_def resource_write_def resource_close_writer_def
      resource_abort_writer_def parquet_lock_def parquet_drop_def)

text \<open>C26: the end of a writer is final, over either backend: once an abort has ended a writer, or a close
  has been carried out, successfully or not, no sequence of later calls changes the file
  system, the remote store or the statistics, every later write and close is refused as
  cancelled, every later abort reports that there is nothing to abort, and dropping the
  resource does nothing.\<close>

theorem ended_writer_refuses:
  assumes "parquet_abort E L (st, s) = ((st', s'), True) \<or>
      (parquet_close E L (st, s) = ((st', s'), Returned result) \<and> pw_writer st \<noteq> None \<and>
       \<not> cancelled_flag (pw_cancellation st))"
    and "writer_calls N B E L calls (\<lparr>pr_state = st', pr_poisoned = False\<rparr>, s') = (r, s2)"
  shows "s2 = s' \<and> pw_stats (pr_state r) = pw_stats st' \<and> \<not> ws_active (pw_stats st') \<and>
    calls_refused N B E L r s2"
proof -
  have "finished st'"
    using assms(1)
  proof
    assume "parquet_abort E L (st, s) = ((st', s'), True)"
    then show ?thesis
      by (auto simp: parquet_abort_def finished_def set_active_def cancel_state_def release_staged_def Let_def
          split: if_splits option.splits prod.splits)
  next
    assume "parquet_close E L (st, s) = ((st', s'), Returned result) \<and> pw_writer st \<noteq> None \<and>
       \<not> cancelled_flag (pw_cancellation st)"
    then show ?thesis
      by (auto simp: parquet_close_def finished_def set_active_def release_staged_def Let_def
          split: if_splits option.splits prod.splits unwind.splits bool.splits)
  qed
  then show ?thesis
    using finished_calls [OF _ _ assms(2)] finished_calls_refused [of r N B E L s2]
    by (simp add: finished_def)
qed

theorem ended_writer_refuses_witness:
  "\<forall>L :: unit remote_lib. \<exists>st s1 st' s'.
    parquet_abort sample_encoder L (st, s1) = ((st', s'), True) \<and>
    calls_refused erl_codec sample_batch_lib sample_encoder L
      (fst (writer_calls erl_codec sample_batch_lib sample_encoder L
         [CloseCall, WriteCall sample_batch_term] (\<lparr>pr_state = st', pr_poisoned = False\<rparr>, s'))) s'"
proof
  fix L :: "unit remote_lib"
  obtain s1 st where st: "ws_active (pw_stats st)"
    and "parquet_open_store sample_encoder L sample_store ''a/f'' sample_inputs sample_options
      sample_store_world = (s1, Returned (Ok st))" by (rule sample_opens) blast
  obtain st' s' where ab: "parquet_abort sample_encoder L (st, s1) = ((st', s'), True)"
  proof -
    have "snd (parquet_abort sample_encoder L (st, s1))"
      using st by (simp add: parquet_abort_def Let_def split: option.splits prod.splits)
    then show ?thesis using that by (metis (full_types) prod.collapse)
  qed
  obtain r s2 where r: "writer_calls erl_codec sample_batch_lib sample_encoder L
      [CloseCall, WriteCall sample_batch_term] (\<lparr>pr_state = st', pr_poisoned = False\<rparr>, s') = (r, s2)" by fastforce
  have "s2 = s'" "calls_refused erl_codec sample_batch_lib sample_encoder L r s2"
    using ended_writer_refuses [OF disjI1 [OF ab] r] by blast+
  then have "parquet_abort sample_encoder L (st, s1) = ((st', s'), True) \<and>
    calls_refused erl_codec sample_batch_lib sample_encoder L
      (fst (writer_calls erl_codec sample_batch_lib sample_encoder L
         [CloseCall, WriteCall sample_batch_term] (\<lparr>pr_state = st', pr_poisoned = False\<rparr>, s'))) s'"
    using ab r by (simp del: writer_calls.simps)
  then show "\<exists>st s1 st' s'.
    parquet_abort sample_encoder L (st, s1) = ((st', s'), True) \<and>
    calls_refused erl_codec sample_batch_lib sample_encoder L
      (fst (writer_calls erl_codec sample_batch_lib sample_encoder L
         [CloseCall, WriteCall sample_batch_term] (\<lparr>pr_state = st', pr_poisoned = False\<rparr>, s'))) s'"
    by blast
qed

theorem writer_destination_safe_witness:
  "\<forall>L :: unit remote_lib. \<exists>s1 st w.
    parquet_open_store sample_encoder L sample_store ''a/f'' sample_inputs sample_options
      sample_store_world = (s1, Returned (Ok st)) \<and>
    kept w sample_store_world (snd (writer_calls erl_codec sample_batch_lib sample_encoder L
      [WriteCall sample_batch_term, AbortCall] (\<lparr>pr_state = st, pr_poisoned = False\<rparr>, s1)))"
proof
  fix L :: "unit remote_lib"
  obtain s1 st where op: "parquet_open_store sample_encoder L sample_store ''a/f'' sample_inputs sample_options
      sample_store_world = (s1, Returned (Ok st))" by (rule sample_opens) blast
  obtain r s2 where r: "writer_calls erl_codec sample_batch_lib sample_encoder L
      [WriteCall sample_batch_term, AbortCall] (\<lparr>pr_state = st, pr_poisoned = False\<rparr>, s1) = (r, s2)" by fastforce
  obtain r' s3 x where x: "resource_close_writer sample_encoder L (r, s2) = ((r', s3), x)" by (metis surj_pair)
  have "CloseCall \<notin> set [WriteCall sample_batch_term, AbortCall]" by simp
  then obtain w where "kept w sample_store_world s2"
    using writer_destination_safe [OF op sample_store_facts(1,4) _ r x] by blast
  then show "\<exists>s1 st w.
    parquet_open_store sample_encoder L sample_store ''a/f'' sample_inputs sample_options
      sample_store_world = (s1, Returned (Ok st)) \<and>
    kept w sample_store_world (snd (writer_calls erl_codec sample_batch_lib sample_encoder L
      [WriteCall sample_batch_term, AbortCall] (\<lparr>pr_state = st, pr_poisoned = False\<rparr>, s1)))"
    using op r by (auto simp del: writer_calls.simps)
qed

end
