(* ===== verification/Native.thy ===== *)
theory Native
  imports Parquet_Writer Reader_Store Reader_System Time_Partition Zstd
begin

text \<open>
  The exported functions (\<^verbatim>\<open>lib.rs\<close>): each runs one operation of a component behind the panic
  boundary and replies with a tagged tuple. A function takes the part of the process state it
  works on and returns it with the reply. \<open>monitored\<close> says whether the runtime could monitor the
  owner; an owner that is dead cannot be monitored.
\<close>

section \<open>Replies\<close>

definition replied :: "operation \<Rightarrow> 's \<times> 'a native_result \<Rightarrow> 's \<times> 'a nif_reply" where
  "replied operation sr = (case sr of (s, r) \<Rightarrow> (s, encode_guarded operation (Returned r)))"

definition replied_unwind :: "operation \<Rightarrow> 's \<times> 'a native_result unwind \<Rightarrow> 's \<times> 'a nif_reply" where
  "replied_unwind operation sr = (case sr of (s, r) \<Rightarrow> (s, encode_guarded operation r))"

definition smoke :: "32 word nif_reply" where
  "smoke = encode_guarded OpSmoke (Returned (Ok 2))"

definition smoke_error :: "32 word nif_reply" where
  "smoke_error =
     encode_guarded OpSmokeError (Returned (Err (failure_expected OpSmokeError ''native smoke error'')))"

definition nif_zstd_compress :: "(nat \<Rightarrow> bool) \<Rightarrow> 'd zstd_lib \<Rightarrow> bytes \<Rightarrow> int \<Rightarrow> bytes nif_reply" where
  "nif_zstd_compress alloc Z data level =
     encode_binary_guarded alloc OpZstdCompress (Returned (compress Z data level))"

definition nif_zstd_decompress :: "(nat \<Rightarrow> bool) \<Rightarrow> 'd zstd_lib \<Rightarrow> bytes \<Rightarrow> usize \<Rightarrow> bytes nif_reply" where
  "nif_zstd_decompress alloc Z data max_output_size =
     encode_binary_guarded alloc OpZstdDecompress (Returned (decompress Z data max_output_size))"

section \<open>Stores\<close>

definition nif_store_open_local :: "string \<Rightarrow> 'r store_world \<Rightarrow> 'r store_world \<times> store_resource nif_reply" where
  "nif_store_open_local base s = replied OpStoreOpen (store_open_local base s)"

definition nif_store_open_s3 ::
  "'r remote_lib \<Rightarrow> s3_config \<Rightarrow> 'r store_world \<Rightarrow> 'r store_world \<times> store_resource nif_reply" where
  "nif_store_open_s3 L config s = replied OpStoreOpen (store_open_s3 L config s)"

definition nif_store_identity :: "store_resource \<Rightarrow> u64 nif_reply" where
  "nif_store_identity store = encode_guarded OpStoreIdentity (Returned (Ok (store_id store)))"

definition nif_store_head ::
  "'r remote_lib \<Rightarrow> store_resource \<Rightarrow> string \<Rightarrow> 'r store_world \<Rightarrow> 'r store_world \<times> store_metadata nif_reply" where
  "nif_store_head L store key s = replied OpStoreHead (store_head L store key s)"

definition nif_store_read_range ::
  "(nat \<Rightarrow> bool) \<Rightarrow> 'r remote_lib \<Rightarrow> store_resource \<Rightarrow> string \<Rightarrow> u64 \<Rightarrow> u64 \<Rightarrow> 'r store_world
   \<Rightarrow> 'r store_world \<times> bytes nif_reply" where
  "nif_store_read_range alloc L store key offset len s =
     (case store_read_range L store key offset len s of
        (s, r) \<Rightarrow> (s, encode_binary_guarded alloc OpStoreReadRange (Returned r)))"

definition nif_store_list ::
  "'r remote_lib \<Rightarrow> store_resource \<Rightarrow> string \<Rightarrow> 'r store_world
   \<Rightarrow> 'r store_world \<times> store_metadata list nif_reply" where
  "nif_store_list L store prefix s = replied OpStoreList (store_list L store prefix s)"

definition nif_store_delete ::
  "'r remote_lib \<Rightarrow> store_resource \<Rightarrow> string \<Rightarrow> 'r store_world \<Rightarrow> 'r store_world \<times> atom nif_reply" where
  "nif_store_delete L store key s =
     replied OpStoreDelete (act_bind (store_delete L store key) (\<lambda>_. act_ok ''deleted'') s)"

section \<open>Store writers\<close>

definition write_policies :: "atom \<Rightarrow> atom \<Rightarrow> operation \<Rightarrow> (flush_policy \<times> sync_policy) native_result" where
  "write_policies flush sync operation =
     and_then
       (if flush = ''none'' then Ok FlushNone
        else if flush = ''each_chunk'' then Ok FlushEachChunk
        else if flush = ''before_publish'' then Ok FlushBeforePublish
        else Err (failure_invalid operation ''invalid flush policy'')) (\<lambda>f.
     and_then
       (if sync = ''none'' then Ok SyncNone
        else if sync = ''data'' then Ok SyncData
        else if sync = ''all'' then Ok SyncAll
        else Err (failure_invalid operation ''invalid sync policy'')) (\<lambda>y. Ok (f, y)))"

text \<open>The token of the resource is the one of its writer.\<close>

record store_writer_resource =
  swr_writer :: store_writer
  swr_poisoned :: bool

definition lock_store_writer :: "store_writer_resource \<Rightarrow> operation \<Rightarrow> store_writer native_result" where
  "lock_store_writer r operation =
     (if swr_poisoned r
      then Err (failure_expected operation ''native store writer is unavailable'')
      else Ok (swr_writer r))"

definition with_store_writer ::
  "operation \<Rightarrow> ('r store_writer_world, native_failure, 'a) action
   \<Rightarrow> (store_writer_resource \<times> 'r store_world, native_failure, 'a) action" where
  "with_store_writer operation m rs =
     (case rs of (r, s) \<Rightarrow>
        (case lock_store_writer r operation of
           Inl e \<Rightarrow> ((r, s), Err e)
         | Inr w \<Rightarrow> (case m (w, s) of ((w, s), x) \<Rightarrow> ((r\<lparr>swr_writer := w\<rparr>, s), x))))"

definition store_writer_cancel :: "store_writer_resource \<Rightarrow> store_writer_resource" where
  "store_writer_cancel r =
     r\<lparr>swr_writer := with_token (token_cancel (writer_token (swr_writer r))) (swr_writer r)\<rparr>"

definition store_writer_down ::
  "'r remote_lib \<Rightarrow> store_writer_resource \<times> 'r store_world \<Rightarrow> store_writer_resource \<times> 'r store_world" where
  "store_writer_down L rs =
     fst (with_store_writer OpStoreWriterAbort (store_writer_abort L) (store_writer_cancel (fst rs), snd rs))"

definition abort_atom :: "bool \<Rightarrow> atom" where
  "abort_atom aborted = (if aborted then ''aborted'' else ''closed'')"

definition nif_store_writer_open ::
  "'r remote_lib \<Rightarrow> bool \<Rightarrow> store_resource \<Rightarrow> string \<Rightarrow> atom \<Rightarrow> atom \<Rightarrow> 'r store_world
   \<Rightarrow> 'r store_world \<times> store_writer_resource nif_reply" where
  "nif_store_writer_open L monitored store key flush sync s =
     replied OpStoreWriterOpen
       (case write_policies flush sync OpStoreWriterOpen of
          Inl e \<Rightarrow> (s, Err e)
        | Inr (flush, sync) \<Rightarrow>
            (case store_open_writer L store key flush sync token_default s of
               (s, Inl e) \<Rightarrow> (s, Err e)
             | (s, Inr w) \<Rightarrow>
                 (let r = \<lparr>swr_writer = w, swr_poisoned = False\<rparr>
                  in if monitored then (s, Ok r)
                     else
                       (case with_store_writer OpStoreWriterOpen (store_writer_abort L) (r, s) of
                          ((r, s), aborted) \<Rightarrow>
                            (snd (store_writer_drop L (swr_writer r, s)),
                             and_then aborted (\<lambda>_. Err (failure_expected OpStoreWriterOpen
                               ''could not monitor store writer owner'')))))))"

definition nif_store_writer_write ::
  "'r remote_lib \<Rightarrow> bytes \<Rightarrow> store_writer_resource \<times> 'r store_world
   \<Rightarrow> (store_writer_resource \<times> 'r store_world) \<times> usize nif_reply" where
  "nif_store_writer_write L data rs =
     replied OpStoreWriterWrite (with_store_writer OpStoreWriterWrite (store_writer_write L data) rs)"

definition nif_store_writer_publish ::
  "'r remote_lib \<Rightarrow> store_writer_resource \<times> 'r store_world
   \<Rightarrow> (store_writer_resource \<times> 'r store_world) \<times> store_metadata nif_reply" where
  "nif_store_writer_publish L rs =
     replied OpStoreWriterPublish (with_store_writer OpStoreWriterPublish (store_writer_publish L) rs)"

definition nif_store_writer_abort ::
  "'r remote_lib \<Rightarrow> store_writer_resource \<times> 'r store_world
   \<Rightarrow> (store_writer_resource \<times> 'r store_world) \<times> atom nif_reply" where
  "nif_store_writer_abort L rs =
     replied OpStoreWriterAbort
       (act_bind (with_store_writer OpStoreWriterAbort (store_writer_abort L))
          (\<lambda>aborted. act_ok (abort_atom aborted)) rs)"

section \<open>Time partitions\<close>

definition nif_time_partition_for ::
  "('d, 't) chrono \<Rightarrow> int \<Rightarrow> atom \<Rightarrow> atom \<Rightarrow> native_partition nif_reply" where
  "nif_time_partition_for C ts unit gran =
     encode_guarded OpTimePartition (Returned (partition_for C ts unit gran))"

definition nif_time_partition_parse ::
  "('d, 't) chrono \<Rightarrow> string \<Rightarrow> atom \<Rightarrow> native_partition nif_reply" where
  "nif_time_partition_parse C path gran =
     encode_guarded OpTimePartition (Returned (Time_Partition.parse C path gran))"

definition nif_time_partition_plan ::
  "('d, 't) chrono \<Rightarrow> int \<Rightarrow> int \<Rightarrow> atom \<Rightarrow> atom \<Rightarrow> nat \<Rightarrow> native_partition list nif_reply" where
  "nif_time_partition_plan C from_ts until_ts unit gran limit =
     encode_guarded OpTimePartition (Returned (plan C from_ts until_ts unit gran limit))"

section \<open>Resource counters\<close>

record resource_counters =
  rc_active_writers :: usize
  rc_active_readers :: usize
  rc_bytes_read :: u64
  rc_active_s3_requests :: usize
  rc_peak_s3_requests :: usize
  rc_active_multipart_uploads :: usize
  rc_s3_range_requests :: u64
  rc_s3_range_bytes :: u64
  rc_active_stores :: usize
  rc_stores_created :: u64
  rc_s3_clients_created :: u64

definition nif_resource_snapshot :: "'r store_world \<Rightarrow> usize \<Rightarrow> resource_counters nif_reply" where
  "nif_resource_snapshot s readers =
     encode_guarded OpResourceSnapshot (Returned (Ok
       (case local_resource_snapshot s of (writers, bytes) \<Rightarrow>
       (case s3_resource_snapshot (s3_world s) of
          (requests, peak, uploads, ranges, range_total, clients) \<Rightarrow>
       (case store_resource_snapshot s of (stores, created) \<Rightarrow>
          \<lparr>rc_active_writers = writers, rc_active_readers = readers, rc_bytes_read = bytes,
           rc_active_s3_requests = requests, rc_peak_s3_requests = peak,
           rc_active_multipart_uploads = uploads, rc_s3_range_requests = ranges,
           rc_s3_range_bytes = range_total, rc_active_stores = stores,
           rc_stores_created = created, rc_s3_clients_created = clients\<rparr>)))))"

section \<open>Readers\<close>

text \<open>When the owner cannot be monitored the reader is closed, and then dropped.\<close>

definition nif_reader_open_store ::
  "parquet_lib \<Rightarrow> 'r remote_lib \<Rightarrow> bool \<Rightarrow> store_resource \<Rightarrow> string \<Rightarrow> reader_open_settings \<Rightarrow> usize
   \<Rightarrow> 'r store_world \<Rightarrow> ('r store_world \<times> usize) \<times> (reader_resource \<times> native_field list) nif_reply" where
  "nif_reader_open_store P L monitored store key settings readers s =
     replied_unwind OpReaderOpen
       (case reader_open_store P L store key settings readers s of
          (s, Panicked) \<Rightarrow> ((s, readers), Panicked)
        | (s, Returned (n, Inl e)) \<Rightarrow> ((s, n), Returned (Err e))
        | (s, Returned (n, Inr (st, fs))) \<Rightarrow>
            (let r = \<lparr>res_state = st, res_poisoned = False\<rparr>
             in if monitored then ((s, n), Returned (Ok (r, fs)))
                else
                  (case resource_close r n of ((r, n), was_open) \<Rightarrow>
                     ((s, resource_drop r n),
                      Returned (and_then was_open (\<lambda>_. Err (failure_expected OpReaderOpen
                        ''could not monitor reader owner'')))))))"

definition nif_reader_next ::
  "'t nif \<Rightarrow> arrow_kernels \<Rightarrow> reader_resource \<Rightarrow> reader_resource \<times> 't nif_reply" where
  "nif_reader_next N K r =
     (case resource_next_batch K r of (r, result) \<Rightarrow>
        (r, case guarded OpReaderNext (Returned result) of
              Inr (Some batch) \<Rightarrow> encode_guarded OpReaderNext (Returned (encode_batch N batch))
            | Inr None \<Rightarrow> ReplyOk (encode_atom N ''eof'')
            | Inl failure \<Rightarrow> ReplyError (failure_payload failure)))"

definition nif_reader_close ::
  "reader_resource \<Rightarrow> usize \<Rightarrow> (reader_resource \<times> usize) \<times> atom nif_reply" where
  "nif_reader_close r readers =
     replied OpReaderClose
       (case resource_close r readers of (rn, was_open) \<Rightarrow>
          (rn, and_then was_open (\<lambda>_. Ok ''closed'')))"

definition nif_reader_stats :: "reader_resource \<Rightarrow> reader_stats nif_reply" where
  "nif_reader_stats r = encode_guarded OpReaderStats (Returned (resource_stats r))"

section \<open>Parquet writers\<close>

record native_metadata =
  nm_path :: string
  nm_size :: u64
  nm_modified_unix_ns :: "u64 option"

definition native_of_object :: "object_metadata \<Rightarrow> native_metadata" where
  "native_of_object m =
     \<lparr>nm_path = object_path m, nm_size = object_size m,
      nm_modified_unix_ns = object_modified_unix_ns m\<rparr>"

definition native_of_remote :: "remote_metadata \<Rightarrow> native_metadata" where
  "native_of_remote m =
     \<lparr>nm_path = rm_key m, nm_size = rm_size m, nm_modified_unix_ns = rm_modified_unix_ns m\<rparr>"

definition nif_parquet_writer_open_store ::
  "'e encoder_lib \<Rightarrow> 'r remote_lib \<Rightarrow> bool \<Rightarrow> store_resource \<Rightarrow> string \<Rightarrow> native_field list
   \<Rightarrow> writer_options \<Rightarrow> 'r store_world \<Rightarrow> 'r store_world \<times> 'e parquet_writer nif_reply" where
  "nif_parquet_writer_open_store E L monitored store key inputs options s =
     replied_unwind OpParquetWriterOpen
       (case parquet_open_store E L store key inputs options s of
          (s, Panicked) \<Rightarrow> (s, Panicked)
        | (s, Returned (Inl e)) \<Rightarrow> (s, Returned (Err e))
        | (s, Returned (Inr st)) \<Rightarrow>
            (let r = \<lparr>pr_state = st, pr_poisoned = False\<rparr>
             in if monitored then (s, Returned (Ok r))
                else
                  (case resource_abort_writer E L (r, s) of (rs, aborted) \<Rightarrow>
                     (parquet_drop E L rs,
                      Returned (and_then aborted (\<lambda>_. Err (failure_expected OpParquetWriterOpen
                        ''could not monitor Parquet writer owner'')))))))"

definition nif_parquet_writer_write ::
  "'t nif \<Rightarrow> batch_lib \<Rightarrow> 'e encoder_lib \<Rightarrow> 'r remote_lib \<Rightarrow> 't \<Rightarrow> 'e parquet_writer \<times> 'r store_world
   \<Rightarrow> ('e parquet_writer \<times> 'r store_world) \<times> writer_stats nif_reply" where
  "nif_parquet_writer_write N B E L batch rs =
     replied_unwind OpParquetWriterWrite (resource_write N B E L batch rs)"

definition nif_parquet_writer_close ::
  "'e encoder_lib \<Rightarrow> 'r remote_lib \<Rightarrow> 'e parquet_writer \<times> 'r store_world
   \<Rightarrow> ('e parquet_writer \<times> 'r store_world) \<times> native_metadata nif_reply" where
  "nif_parquet_writer_close E L rs =
     replied_unwind OpParquetWriterClose
       (case resource_close_writer E L rs of (rs, r) \<Rightarrow>
          (rs, unwind_result r (\<lambda>m. Returned (Ok (native_of_object m)))))"

definition nif_parquet_writer_abort ::
  "'e encoder_lib \<Rightarrow> 'r remote_lib \<Rightarrow> 'e parquet_writer \<times> 'r store_world
   \<Rightarrow> ('e parquet_writer \<times> 'r store_world) \<times> atom nif_reply" where
  "nif_parquet_writer_abort E L rs =
     replied OpParquetWriterAbort
       (case resource_abort_writer E L rs of (rs, aborted) \<Rightarrow>
          (rs, and_then aborted (\<lambda>b. Ok (abort_atom b))))"

definition nif_parquet_writer_stats :: "'e parquet_writer \<Rightarrow> writer_stats nif_reply" where
  "nif_parquet_writer_stats r = encode_guarded OpParquetWriterStats (Returned (resource_writer_stats r))"

end
