(* ===== verification/Release_Proofs.thy ===== *)
theory Release_Proofs
  imports Writer_Properties S3_System
begin

text \<open>
  What is left of a writer that ends without being published: the path of its staging file is
  fresh and carries a staging name, and it is gone again unless the system refuses to remove it;
  a multipart upload is aborted, and never finished.
\<close>

section \<open>Without injected failures\<close>

text \<open>No call adds to the schedule of injected failures.\<close>

named_theorems smooth_intros

definition smooth :: "('z filesystem_scheme, 'e, 'a) action \<Rightarrow> bool" where
  "smooth m \<longleftrightarrow> (\<forall>s. fs_faults s = [] \<longrightarrow> fs_faults (fst (m s)) = [])"

lemma smoothD: "smooth m \<Longrightarrow> m s = (t, r) \<Longrightarrow> fs_faults s = [] \<Longrightarrow> fs_faults t = []"
  unfolding smooth_def by (metis fst_conv)

lemma smooth_simple [smooth_intros]: "smooth (act_ok x)" "smooth (act_err e)" "smooth (act_lift r)"
  by (simp_all add: smooth_def)

lemma smooth_query [smooth_intros]: "smooth (query f)"
  by (simp add: smooth_def query_no_fault)

lemma smooth_map_err [smooth_intros]: "smooth m \<Longrightarrow> smooth (act_map_err f m)"
  by (auto simp: smooth_def act_map_err_def split: prod.splits)

lemma smooth_bind [smooth_intros]:
  assumes "smooth m" and "\<And>x. smooth (f x)"
  shows "smooth (act_bind m f)"
  unfolding smooth_def
proof (intro allI impI)
  fix s :: "'a filesystem_scheme"
  assume s: "fs_faults s = []"
  obtain u r where u: "m s = (u, r)" by fastforce
  have "fs_faults u = []" using smoothD [OF assms(1) u s] .
  then show "fs_faults (fst (act_bind m f s)) = []"
    using assms(2) u by (cases r) (auto simp: act_bind_def smooth_def)
qed

lemma smooth_if [smooth_intros]: "smooth m \<Longrightarrow> smooth n \<Longrightarrow> smooth (if b then m else n)"
  by simp

lemma smooth_resolve: "smooth (resolve_destination location operation)"
  unfolding resolve_destination_def enforce_allowed_root_def canonical_allowed_root_def fs_canonicalize_def Let_def
  by (auto intro!: smooth_intros split: option.splits)

lemma smooth_symlink: "smooth (fs_symlink_metadata p)"
  by (simp add: fs_symlink_metadata_def smooth_query)

lemma smooth_create_dir: "smooth (fs_create_dir p)"
  by (simp add: smooth_def fs_create_dir_def syscall_no_fault)

lemma smooth_parts: "fs_faults s = [] \<Longrightarrow> ensure_parts cur ps s = (t, r) \<Longrightarrow> fs_faults t = []"
proof (induction ps arbitrary: cur s)
  case (Cons part ps)
  show ?case
  proof (cases part)
    case (Normal n)
    obtain u q where q: "fs_symlink_metadata (cur @ [n]) s = (u, q)" by fastforce
    have u: "fs_faults u = []" by (rule smoothD [OF smooth_symlink q Cons.prems(1)])
    obtain v k where k: "fs_create_dir (cur @ [n]) u = (v, k)" by fastforce
    have v: "fs_faults v = []" by (rule smoothD [OF smooth_create_dir k u])
    show ?thesis
      using Cons.prems(2) Cons.IH [OF u] Cons.IH [OF v] u v Normal q k
      by (auto split: sum.splits if_splits)
  qed (use Cons in auto)
qed simp

lemma smooth_stage: "smooth (allocate_stage n parent name)"
  unfolding smooth_def
proof (induction n)
  case (Suc n)
  then show ?case
    by (auto simp: Let_def fs_create_new_def syscall_no_fault split: prod.splits sum.splits)
qed simp

lemma smooth_local_stage: "smooth (local_stage location options token)"
  unfolding local_stage_def writer_open_def
  by (auto intro!: smooth_intros smooth_resolve smooth_stage split: prod.splits)

lemma smooth_write_all: "smooth (fs_write_all h bs)"
  by (simp add: smooth_def fs_write_all_def take_fault_def append_bytes_def)

lemma smooth_write_file: "smooth (write_file h flush bs)"
  unfolding write_file_def fs_barrier_def by (intro smooth_intros smooth_write_all)

lemma smooth_run_local:
  "run_sink L prog (LocalStoreWriter w base, s) = ((out, t), x) \<Longrightarrow> fs_faults s = [] \<Longrightarrow> lw_file w = Some h \<Longrightarrow>
     fs_faults t = []"
proof (induction prog arbitrary: s)
  case (SinkWrite bs k)
  obtain o1 s1 r where r: "store_io_write L bs (LocalStoreWriter w base, s) = ((o1, s1), r)" by (metis surj_pair)
  have o1: "o1 = LocalStoreWriter w base" using io_write_local [OF r SinkWrite.prems(3)] by simp
  have "fs_faults s1 = []"
    using r SinkWrite.prems(2) smoothD [OF smooth_write_file]
    by (fastforce simp: store_io_write_def store_writer_write_def on_local_writer_def act_map_err_def
        writer_write_def split: prod.splits sum.splits)
  then show ?case using SinkWrite.IH [OF rangeI] SinkWrite.prems r o1 by simp
next
  case (SinkFlush k)
  obtain o1 s1 r where r: "store_io_flush (LocalStoreWriter w base, s) = ((o1, s1), r)" by (metis surj_pair)
  have o1: "o1 = LocalStoreWriter w base" using io_flush_local [OF r SinkFlush.prems(3)] by simp
  have "fs_faults s1 = []"
    using r SinkFlush.prems(2)
    by (auto simp: store_io_flush_def on_local_writer_def writer_io_flush_def split: prod.splits sum.splits option.splits)
  then show ?case using SinkFlush.IH [OF rangeI] SinkFlush.prems r o1 by simp
qed simp

section \<open>The staging file\<close>

text \<open>A staging path for an object of that name, at which there was no file.\<close>

definition fresh_stage :: "string \<Rightarrow> 'z local_world_scheme \<Rightarrow> string list \<Rightarrow> bool" where
  "fresh_stage name s q \<longleftrightarrow>
     file_at s q = None \<and> (\<exists>parent k. q = parent @ [stage_name (process_id s) name k])"

text \<open>
  Nothing is left: the count of active writers and all files are as before, or the system refused
  a call and the staging file is still there.
\<close>

definition released_local :: "string \<Rightarrow> 'z local_world_scheme \<Rightarrow> 'z local_world_scheme \<Rightarrow> bool" where
  "released_local name s t \<longleftrightarrow>
     active_writers t = active_writers s \<and>
     (file_at t = file_at s \<or>
      fs_faults s \<noteq> [] \<and> (\<exists>q. fresh_stage name s q \<and> (\<forall>p. p \<noteq> q \<longrightarrow> file_at t p = file_at s p)))"

lemma released_refl [simp]: "released_local name s s"
  by (simp add: released_local_def)

lemma released_kept:
  assumes fresh: "fresh_stage name s (lw_stage_path w)" and kept: "kept w s t"
    and count: "active_writers t = active_writers s"
    and gone: "fs_faults s = [] \<Longrightarrow> file_at t (lw_stage_path w) = None"
  shows "released_local name s t"
proof (cases "fs_faults s = []")
  case True
  have "file_at t p = file_at s p" for p
    using gone [OF True] fresh kept by (cases "p = lw_stage_path w") (auto simp: fresh_stage_def kept_def)
  then show ?thesis using count by (auto simp: released_local_def)
next
  case False
  then show ?thesis using assms by (auto simp: released_local_def kept_def)
qed

text \<open>A staging file is removed when nothing is refused.\<close>

lemma remove_stage:
  assumes "owned w s h" and "fs_remove_file (lw_stage_path w) s = (t, r)" and "fs_faults s = []"
  shows "file_at t (lw_stage_path w) = None"
proof -
  have l: "lookup s (lw_stage_path w) = Some (FileEntry h)" "lw_stage_path w \<noteq> []"
    using assms(1) by (auto simp: owned_def staged_def)
  then have "t = s\<lparr>entries := AList.delete (lw_stage_path w) (entries s)\<rparr>"
    using assms(2,3) by (simp add: fs_remove_file_def syscall_no_fault)
  then show ?thesis using lookup_delete [OF l(2), of s] by (simp add: file_at_def)
qed

lemma drop_gone:
  assumes own: "owned w s h" and run: "store_writer_drop L (LocalStoreWriter w base, s) = (out, t)"
    and ok: "fs_faults s = []"
  shows "file_at t (lw_stage_path w) = None"
proof -
  obtain u r where u: "fs_remove_file (lw_stage_path w) s = (u, r)" by fastforce
  have "t = u\<lparr>active_writers := active_writers u - 1\<rparr>"
    using run u owned_file [OF own]
    by (auto simp: store_writer_drop_def writer_drop_def cleanup_stage_def writer_finish_eq)
  then have "file_at t (lw_stage_path w) = file_at u (lw_stage_path w)" by (intro file_at_same) simp_all
  then show ?thesis using remove_stage [OF own u ok] by simp
qed

lemma abort_gone:
  assumes own: "owned w s h" and run: "writer_abort (w, s) = ((w', t), r)" and ok: "fs_faults s = []"
  shows "file_at t (lw_stage_path w) = None"
proof -
  obtain u q where u: "fs_remove_file (lw_stage_path w) s = (u, q)" by fastforce
  have "t = u\<lparr>active_writers := active_writers u - 1\<rparr>"
    using run u owned_file [OF own]
    by (auto simp: writer_abort_def writer_finish_eq Let_def split: sum.splits if_splits)
  then have "file_at t (lw_stage_path w) = file_at u (lw_stage_path w)" by (intro file_at_same) simp_all
  then show ?thesis using remove_stage [OF own u ok] by simp
qed

lemma release_gone:
  assumes own: "owned w s h" and run: "run_sink L prog (LocalStoreWriter w base, s) = (ws, x)"
    and rel: "release_staged L st ws = (st', t)" and ok: "fs_faults s = []"
  shows "file_at t (lw_stage_path w) = None"
proof -
  obtain out s1 where ws: "ws = (out, s1)" by fastforce
  have fw: "lw_file w = Some h" using owned_file [OF own] by simp
  have out: "out = LocalStoreWriter w base" and g: "grown h s s1"
    using run_local [OF run [unfolded ws] fw] by simp_all
  have own1: "owned w s1 h" using owned_grown [OF own g] by simp
  have ok1: "fs_faults s1 = []" by (rule smooth_run_local [OF run [unfolded ws] ok fw])
  obtain o2 s2 where d: "store_writer_drop L (LocalStoreWriter w base, s1) = (o2, s2)" by fastforce
  have "t = s2" using rel d by (simp add: release_staged_def ws out)
  then show ?thesis using drop_gone [OF own1 d ok1] by simp
qed

lemma abort_writing_gone:
  assumes wr: "writing base st s w h" and run: "parquet_abort E L (st, s) = ((st', t), b)"
    and ok: "fs_faults s = []"
  shows "file_at t (lw_stage_path w) = None"
proof -
  let ?w = "w\<lparr>lw_cancellation := token_cancel (lw_cancellation w)\<rparr>"
  have wr': "writing base (cancel_state st) s ?w h" by (rule cancel_writing [OF wr])
  obtain enc where pw: "pw_writer (cancel_state st) = Some (enc, LocalStoreWriter ?w base)"
    using wr' by (auto simp: writing_def)
  obtain ws u where sink: "run_sink L (encoder_drop E enc) (LocalStoreWriter ?w base, s) = (ws, u)"
    by (metis surj_pair)
  have "release_staged L (set_active False ((cancel_state st)\<lparr>pw_writer := None\<rparr>)) ws = (st', t)"
    using run wr pw sink by (simp add: parquet_abort_def Let_def writing_def)
  moreover have "owned ?w s h" using wr' by (simp add: writing_def)
  ultimately show ?thesis using release_gone [OF _ sink _ ok] by simp
qed

section \<open>Local writers that end\<close>

text \<open>A writer opened in \<open>s\<close> whose staging file, and nothing else, is in \<open>t\<close>.\<close>

definition open_stage ::
  "string \<Rightarrow> 'z local_world_scheme \<Rightarrow> local_writer \<Rightarrow> nat \<Rightarrow> 'z local_world_scheme \<Rightarrow> bool" where
  "open_stage name s w h t \<longleftrightarrow>
     fresh_stage name s (lw_stage_path w) \<and> owned w t h \<and> kept w s t \<and>
     active_writers t = active_writers s + 1 \<and> (fs_faults s = [] \<longrightarrow> fs_faults t = [])"

lemma destination_name:
  assumes "resolve_destination (local_location base key) operation s = (t, Ok dest)"
    and "list_all plain_name base" and key: "validate_key key False = Ok ()"
  shows "last dest = last (key_names key)"
proof -
  have "path_components (location_key (local_location base key)) = RootDir # map Normal (base @ key_names key)"
    by (rule local_location_components [OF assms(2) key])
  moreover have "key_names key \<noteq> []" using validate_key_Ok [OF key] by simp
  ultimately have "path_file_name (path_components (location_key (local_location base key))) =
      Some (last (key_names key))"
    by (simp add: path_file_name_def last_map)
  then show ?thesis using assms(1)
    by (auto simp: resolve_destination_def Let_def act_map_err_def elim!: act_bind_cases split: prod.splits)
qed

lemma stage_path:
  assumes st: "local_stage location options token s = (t, Ok w)"
    and name: "\<And>u dest. resolve_destination location OpWriterOpen s = (u, Ok dest) \<Longrightarrow> last dest = name"
  shows "lookup s (lw_stage_path w) = None \<and>
    (\<exists>parent k. lw_stage_path w = parent @ [stage_name (process_id s) name k])"
proof -
  from st obtain u dest where u: "resolve_destination location OpWriterOpen s = (u, Ok dest)"
    and wo: "writer_open dest options token u = (t, Ok w)"
    unfolding local_stage_def by (rule act_bind_cases) auto
  obtain fl where fl: "u = s\<lparr>fs_faults := fl\<rparr>" using quietD [OF quiet_resolve(2) u] by blast
  have "dest \<noteq> []" using wo by (auto simp: writer_open_def)
  then obtain h where al: "allocate_stage 64 (butlast dest) (last dest) u = (t, Ok (lw_stage_path w, h))"
    using wo by (auto simp: writer_open_def elim!: act_bind_cases)
  then show ?thesis using allocate_stage_spec [OF al] fl name [OF u] by auto
qed

lemma open_writer_stage:
  assumes op: "store_open_writer L store key flush sync token s = (t, Ok out)" and tree: "tree_ok s"
    and backend: "store_backend_of store = LocalBackend base" and plain: "list_all plain_name base"
  shows "\<exists>w h. out = LocalStoreWriter w base \<and> open_stage (last (key_names key)) s w h t"
proof -
  obtain u w where key: "validate_key key False = Ok ()" and u: "ensure_local_parent base key s = (u, Ok ())"
    and w: "local_stage (local_location base key) \<lparr>option_flush = flush, option_sync = sync\<rparr> token u = (t, Ok w)"
    and out: "out = LocalStoreWriter w base"
    using op backend by (auto simp: store_open_writer_def elim!: act_bind_cases)
  obtain fl ds where g: "u = (add_dirs ds s)\<lparr>fs_faults := fl\<rparr>" "\<forall>p \<in> set ds. lookup s p = None"
    using ensure_parts_grown u unfolding ensure_local_parent_def by blast
  have path: "lookup u (lw_stage_path w) = None \<and>
      (\<exists>parent k. lw_stage_path w = parent @ [stage_name (process_id u) (last (key_names key)) k])"
    by (rule stage_path [OF w]) (rule destination_name [OF _ plain key])
  then have "fresh_stage (last (key_names key)) s (lw_stage_path w)"
    using g(1) path by (auto simp: fresh_stage_def file_at_def lookup_add_dirs split: if_splits)
  moreover have "fs_faults t = []" if "fs_faults s = []"
    using smoothD [OF smooth_local_stage w] smooth_parts [OF that] u by (simp add: ensure_local_parent_def)
  ultimately show ?thesis using open_writer_owned [OF op tree backend] out by (auto simp: open_stage_def)
qed

lemma open_stage_run:
  assumes "open_stage name s w h t" and "run_sink L prog (LocalStoreWriter w base, t) = ((out, u), x)"
  shows "out = LocalStoreWriter w base \<and> open_stage name s w h u"
proof -
  have own: "owned w t h" and fw: "lw_file w = Some h"
    using assms(1) owned_file by (auto simp: open_stage_def)
  have run: "out = LocalStoreWriter w base" "grown h t u" using run_local [OF assms(2) fw] by simp_all
  then show ?thesis
    using owned_grown [OF own run(2)] assms(1) smooth_run_local [OF assms(2) _ fw] kept_trans [of w s t u]
    by (auto simp: open_stage_def)
qed

lemma open_stage_drop:
  assumes "open_stage name s w h t" and "store_writer_drop L (LocalStoreWriter w base, t) = (out, u)"
  shows "released_local name s u"
proof -
  have own: "owned w t h" using assms(1) by (simp add: open_stage_def)
  show ?thesis
  proof (rule released_kept)
    show "fresh_stage name s (lw_stage_path w)" using assms(1) by (simp add: open_stage_def)
    show "kept w s u" "active_writers u = active_writers s"
      using drop_local [OF own assms(2)] assms(1) kept_trans [of w s t u] by (auto simp: open_stage_def)
    show "file_at u (lw_stage_path w) = None" if "fs_faults s = []"
      using drop_gone [OF own assms(2)] assms(1) that by (simp add: open_stage_def)
  qed
qed

lemma open_stage_abort:
  assumes "open_stage name s w h t" and "writer_abort (w, t) = ((w', u), r)"
  shows "released_local name s u \<and> \<not> lw_active w'"
proof -
  have own: "owned w t h" using assms(1) by (simp add: open_stage_def)
  from assms(2) obtain d where d: "dropped t (lw_stage_path w) d" "\<not> lw_active w'"
    "u = d\<lparr>active_writers := active_writers t - 1\<rparr>"
    by (cases rule: writer_abort_cases) (use owned_file [OF own] in \<open>auto simp: closed_writer_def\<close>)
  have "file_at u p = file_at t p" if "p \<noteq> lw_stage_path w" for p
    using dropped_tree [OF d(1)] d(3) that by (intro file_at_same) auto
  then have "kept w s u" using assms(1) kept_trans [of w s t u] by (simp add: open_stage_def kept_def)
  moreover have "active_writers u = active_writers s" using assms(1) d(3) by (simp add: open_stage_def)
  moreover have "file_at u (lw_stage_path w) = None" if "fs_faults s = []"
    using abort_gone [OF own assms(2)] assms(1) that by (simp add: open_stage_def)
  ultimately show ?thesis using d(2) assms(1) by (intro conjI released_kept) (auto simp: open_stage_def)
qed

lemma open_stage_writing:
  assumes "open_stage name s w h t" and "writing base st t w h"
    and "parquet_abort E L (st, t) = ((st', u), b)"
  shows "released_local name s u \<and> finished st'"
proof -
  note ended = abort_writing [OF assms(2,3)]
  have "file_at u (lw_stage_path w) = None" if "fs_faults s = []"
    using abort_writing_gone [OF assms(2,3)] assms(1) that by (simp add: open_stage_def)
  moreover have "kept w s u" using ended assms(1) kept_trans [of w s t u] by (auto simp: open_stage_def)
  moreover have "active_writers u = active_writers s" using ended assms(1) by (simp add: open_stage_def)
  ultimately show ?thesis using ended assms(1) by (intro conjI released_kept) (auto simp: open_stage_def)
qed

lemma open_writer_failed:
  assumes op: "store_open_writer L store key flush sync token s = (t, Err e)" and tree: "tree_ok s"
    and backend: "store_backend_of store = LocalBackend base"
  shows "released_local name s t"
proof (cases "validate_key key False")
  case (Inl k)
  then show ?thesis using op by (simp add: store_open_writer_def)
next
  case (Inr u)
  obtain v r where v: "ensure_local_parent base key s = (v, r)" by fastforce
  obtain fl ds where g: "v = (add_dirs ds s)\<lparr>fs_faults := fl\<rparr>" "\<forall>p \<in> set ds. lookup s p = None"
    using ensure_parts_grown v unfolding ensure_local_parent_def by blast
  have "file_at (s\<lparr>fs_faults := fl\<rparr>) = file_at s" by (simp add: file_at_def fun_eq_iff)
  then have fv: "file_at v = file_at s" using file_at_add_dirs [of ds "s\<lparr>fs_faults := fl\<rparr>"] g by simp
  have av: "active_writers v = active_writers s" by (simp add: g(1))
  show ?thesis
  proof (cases r)
    case (Inl k)
    then have "t = v" using op Inr v backend by (simp add: store_open_writer_def act_bind_def)
    then show ?thesis using fv av by (simp add: released_local_def)
  next
    case ok: (Inr x)
    obtain q where "local_stage (local_location base key) \<lparr>option_flush = flush, option_sync = sync\<rparr> token v =
        (t, Err q)"
      using op Inr v backend ok by (auto simp: store_open_writer_def elim!: act_bind_cases)
    then obtain fl' k where t: "t = v\<lparr>fs_faults := fl', stage_sequence := k\<rparr>"
      by (rule stage_failed_shape)
    have "file_at t p = file_at v p" for p unfolding t by (rule file_at_same) simp_all
    then have "file_at t = file_at v" by (rule ext)
    moreover have "active_writers t = active_writers v" by (simp add: t)
    ultimately show ?thesis using fv av by (simp add: released_local_def)
  qed
qed

lemma open_output_stage:
  assumes stage: "open_stage name s w h t"
    and run: "open_output E L inputs options limit (LocalStoreWriter w base, t) = (u, r)"
  shows "case r of
      Returned (Inr st) \<Rightarrow> writing base st u w h \<and> open_stage name s w h u
    | _ \<Rightarrow> released_local name s u"
proof -
  have own: "owned w t h" using stage by (simp add: open_stage_def)
  have drop: "released_local name s (snd (store_writer_drop L (LocalStoreWriter w base, v)))"
    if "open_stage name s w h v" for v
  proof -
    obtain o1 v1 where d: "store_writer_drop L (LocalStoreWriter w base, v) = (o1, v1)" by fastforce
    from open_stage_drop [OF that d] show ?thesis by (simp add: d)
  qed
  show ?thesis
  proof (cases "\<exists>fs props. collect_results (map arrow_field inputs) = Ok fs \<and>
      properties_of E options = Returned (Ok props)")
    case False
    then show ?thesis using run drop [OF stage]
      by (auto simp: open_output_def split: sum.splits unwind.splits)
  next
    case True
    then obtain fs props where ok: "collect_results (map arrow_field inputs) = Ok fs"
      "properties_of E options = Returned (Ok props)" by blast
    obtain out v x where sink: "run_sink L (encoder_new E fs props) (LocalStoreWriter w base, t) = ((out, v), x)"
      by (metis surj_pair)
    have v: "out = LocalStoreWriter w base" "open_stage name s w h v"
      using open_stage_run [OF stage sink] by simp_all
    have wr: "writing base st u w h" if "r = Returned (Ok st)" for st
      using open_output_writing [OF run [unfolded that] own] by simp
    show ?thesis using run ok sink v drop [OF v(2)] wr
      by (auto simp: open_output_def split: unwind.splits option.splits)
  qed
qed

lemma parquet_open_stage:
  assumes run: "parquet_open_store E L store key inputs options s = (t, r)" and tree: "tree_ok s"
    and backend: "store_backend_of store = LocalBackend base" and plain: "list_all plain_name base"
  shows "case r of
      Returned (Inr st) \<Rightarrow> \<exists>w h. writing base st t w h \<and> open_stage (last (key_names key)) s w h t
    | _ \<Rightarrow> released_local (last (key_names key)) s t"
proof (cases "\<exists>flush sync. flush_policy_of (wo_flush options) = Ok flush \<and>
    sync_policy_of (wo_sync options) = Ok sync")
  case False
  then show ?thesis using run by (auto simp: parquet_open_store_def split: sum.splits)
next
  case True
  then obtain flush sync where p: "flush_policy_of (wo_flush options) = Ok flush"
    "sync_policy_of (wo_sync options) = Ok sync" by blast
  obtain u q where u: "store_open_writer L store key flush sync token_default s = (u, q)" by fastforce
  show ?thesis
  proof (cases q)
    case (Inl e)
    then have "t = u" "r = Returned (Err e)" using run p u by (simp_all add: parquet_open_store_def)
    then show ?thesis using open_writer_failed [OF u [unfolded Inl] tree backend] by simp
  next
    case (Inr out)
    obtain w h where w: "out = LocalStoreWriter w base" "open_stage (last (key_names key)) s w h u"
      using open_writer_stage [OF u [unfolded Inr] tree backend plain] by blast
    have o: "open_output E L inputs options (store_multipart_buffer_limit store) (LocalStoreWriter w base, u) = (t, r)"
      using run p u Inr w(1) by (simp add: parquet_open_store_def)
    from open_output_stage [OF w(2) o] show ?thesis by (auto split: unwind.splits sum.splits)
  qed
qed

section \<open>Uploads that end\<close>

text \<open>The upload the service begins for a writer on that key.\<close>

definition begun_upload :: "'r remote_lib \<Rightarrow> s3_config \<Rightarrow> string \<Rightarrow> 'r store_world \<Rightarrow> nat option" where
  "begun_upload L config key s =
     (case store_object L config key of
        Inl _ \<Rightarrow> None
      | Inr obj \<Rightarrow>
          (case open_multipart L obj token_default (s3_world s) of
             (_, Inl _) \<Rightarrow> None
           | (_, Inr w) \<Rightarrow> rw_upload w))"

text \<open>
  Nothing is left: the files and the counters are as before, and either nothing was done or the
  last thing the service has seen of the upload is its abort.
\<close>

definition remote_kept :: "'r store_world \<Rightarrow> 'r store_world \<Rightarrow> bool" where
  "remote_kept s t \<longleftrightarrow>
     (\<exists>r. t = s\<lparr>s3_world := r\<rparr> \<and> active_requests r = active_requests (s3_world s) \<and>
        active_multipart r = active_multipart (s3_world s))"

definition released_remote :: "'r remote_lib \<Rightarrow> s3_config \<Rightarrow> string \<Rightarrow> 'r store_world \<Rightarrow> 'r store_world \<Rightarrow> bool" where
  "released_remote L config key s t \<longleftrightarrow>
     remote_kept s t \<and>
     (t = s \<or> (\<forall>u. begun_upload L config key s = Some u \<longrightarrow>
       (\<exists>r. remote_state (s3_world t) = fst (remote_abort L u r))))"

lemma remote_kept_refl [simp]: "remote_kept s s"
  unfolding remote_kept_def by (intro exI [of _ "s3_world s"]) simp

lemma released_remote_refl [simp]: "released_remote L config key s s"
  by (simp add: released_remote_def)

text \<open>A writer opened in \<open>s\<close> whose upload is the only change in \<open>t\<close>.\<close>

definition open_upload :: "'r remote_lib \<Rightarrow> nat \<Rightarrow> 'r store_world \<Rightarrow> store_writer \<Rightarrow> 'r store_world \<Rightarrow> bool" where
  "open_upload L u s out t \<longleftrightarrow>
     (\<exists>w key r. out = S3StoreWriter w key \<and> rw_active w \<and> rw_upload w = Some u \<and> s3_runtime L = Ok () \<and>
        t = s\<lparr>s3_world := r\<rparr> \<and> active_requests r = active_requests (s3_world s) \<and>
        active_multipart r = active_multipart (s3_world s) + 1)"

definition aborted_upload :: "'r remote_lib \<Rightarrow> nat \<Rightarrow> 'r store_world \<Rightarrow> 'r store_world \<Rightarrow> bool" where
  "aborted_upload L u s t \<longleftrightarrow>
     remote_kept s t \<and> (\<exists>r. remote_state (s3_world t) = fst (remote_abort L u r))"

lemma aborted_released:
  "aborted_upload L u s t \<Longrightarrow> begun_upload L config key s = Some u \<Longrightarrow> released_remote L config key s t"
  by (auto simp: aborted_upload_def released_remote_def)

lemma open_upload_token: "open_upload L u s out t \<Longrightarrow> open_upload L u s (with_token token out) t"
  by (auto simp: open_upload_def with_token_def)

lemma open_upload_begun:
  assumes op: "store_open_writer L store key flush sync token_default s = (t, Ok out)"
    and backend: "store_backend_of store = S3Backend config"
  shows "\<exists>u. begun_upload L config key s = Some u \<and> open_upload L u s out t"
proof -
  obtain obj w r where obj: "store_object L config key = Ok obj"
    and w: "open_multipart L obj token_default (s3_world s) = (r, Ok w)"
    and t: "t = s\<lparr>s3_world := r\<rparr>" "out = S3StoreWriter w key"
    using op backend by (auto simp: store_open_writer_def on_s3_def elim!: act_bind_cases split: prod.splits)
  obtain r1 u where call: "remote_call L OpS3WriterOpen True
      (remote_put_multipart L (ro_path obj) (multipart_part_size (ro_config obj))) (s3_world s) = (r1, Ok u)"
    and r: "r = r1\<lparr>active_multipart := active_multipart r1 + 1\<rparr>" and "rw_active w" "rw_upload w = Some u"
    using w by (auto simp: open_multipart_def elim!: act_bind_cases)
  moreover have "s3_runtime L = Ok ()"
    using call by (auto simp: remote_call_def elim!: act_bind_cases)
  ultimately show ?thesis
    using neutralD [OF neutral_call call] obj w t by (auto simp: begun_upload_def open_upload_def)
qed

lemma open_upload_failed:
  assumes op: "store_open_writer L store key flush sync token_default s = (t, Err e)"
    and backend: "store_backend_of store = S3Backend config"
  shows "released_remote L config key s t"
proof (cases "validate_key key False")
  case (Inl k)
  then show ?thesis using op by (simp add: store_open_writer_def)
next
  case valid: (Inr v)
  show ?thesis
  proof (cases "store_object L config key")
    case (Inl k)
    then show ?thesis using op valid backend by (simp add: store_open_writer_def)
  next
    case (Inr obj)
    obtain r e' where r: "open_multipart L obj token_default (s3_world s) = (r, Err e')" "t = s\<lparr>s3_world := r\<rparr>"
      using op valid backend Inr
      by (auto simp: store_open_writer_def on_s3_def elim!: act_bind_cases split: prod.splits)
    then have "remote_call L OpS3WriterOpen True
        (remote_put_multipart L (ro_path obj) (multipart_part_size (ro_config obj))) (s3_world s) = (r, Err e')"
      by (auto simp: open_multipart_def elim!: act_bind_cases)
    note counts = neutralD [OF neutral_call this]
    have "remote_kept s t" unfolding remote_kept_def by (rule exI [of _ r]) (use r(2) counts in simp)
    then show ?thesis using r(1) Inr by (simp add: released_remote_def begun_upload_def)
  qed
qed

lemma open_upload_io:
  assumes "open_upload L u s out t"
  shows "store_io_write L bs (out, t) = ((o1, t1), x) \<Longrightarrow> open_upload L u s o1 t1"
    and "store_io_flush (out, t) = ((o1, t1), y) \<Longrightarrow> open_upload L u s o1 t1"
proof -
  obtain w key r where out: "out = S3StoreWriter w key" and w: "rw_active w" "rw_upload w = Some u"
    and run: "s3_runtime L = Ok ()" and t: "t = s\<lparr>s3_world := r\<rparr>"
    and count: "active_requests r = active_requests (s3_world s)"
      "active_multipart r = active_multipart (s3_world s) + 1"
    using assms by (auto simp: open_upload_def)
  show "open_upload L u s o1 t1" if io: "store_io_write L bs (out, t) = ((o1, t1), x)"
  proof -
    obtain w1 r1 y where y: "multipart_write L bs (w, r) = ((w1, r1), y)" by (metis surj_pair)
    have "rw_active w1" "rw_upload w1 = Some u" "active_requests r1 = active_requests r"
      "active_multipart r1 = active_multipart r"
      using y w by (auto simp: multipart_write_def split: if_splits option.splits prod.splits sum.splits)
    moreover have "o1 = S3StoreWriter w1 key" "t1 = s\<lparr>s3_world := r1\<rparr>"
      using io y by (simp_all add: store_io_write_def store_writer_write_def on_s3_writer_def act_map_err_def out t)
    ultimately show ?thesis using run count by (auto simp: open_upload_def)
  qed
  show "open_upload L u s o1 t1" if "store_io_flush (out, t) = ((o1, t1), y)"
    using that assms by (simp add: store_io_flush_def on_s3_writer_def multipart_flush_def out t)
qed

lemma open_upload_run:
  "open_upload L u s out t \<Longrightarrow> run_sink L prog (out, t) = ((o1, t1), x) \<Longrightarrow> open_upload L u s o1 t1"
proof (induction prog arbitrary: out t)
  case (SinkWrite bs k)
  obtain o2 t2 r where r: "store_io_write L bs (out, t) = ((o2, t2), r)" by (metis surj_pair)
  show ?case
    using SinkWrite.IH [OF rangeI open_upload_io(1) [OF SinkWrite.prems(1) r]] SinkWrite.prems(2) r by simp
next
  case (SinkFlush k)
  obtain o2 t2 r where r: "store_io_flush (out, t) = ((o2, t2), r)" by (metis surj_pair)
  show ?case
    using SinkFlush.IH [OF rangeI open_upload_io(2) [OF SinkFlush.prems(1) r]] SinkFlush.prems(2) r by simp
qed simp

lemma remote_abort_call:
  assumes "s3_runtime L = Ok ()"
  shows "\<exists>r1 x q. remote_call L operation False (remote_abort L u) r = (r1, x) \<and>
    remote_state r1 = fst (remote_abort L u q) \<and> active_requests r1 = active_requests r \<and>
    active_multipart r1 = active_multipart r"
proof -
  obtain r1 x where c: "remote_call L operation False (remote_abort L u) r = (r1, x)" by fastforce
  have "remote_state r1 = fst (remote_abort L u (remote_state r))"
    using c assms by (auto simp: remote_call_def race_call_def act_map_err_def Let_def split: prod.splits)
  then show ?thesis using c neutralD [OF neutral_call c] by blast
qed

lemma open_upload_abort:
  assumes up: "open_upload L u s out t" and run: "store_writer_abort L (out, t) = ((o1, t1), b)"
  shows "aborted_upload L u s t1 \<and> store_writer_drop L (o1, v) = (o1, v)"
proof -
  obtain w key r where out: "out = S3StoreWriter w key" and w: "rw_active w" "rw_upload w = Some u"
    and rt: "s3_runtime L = Ok ()" and t: "t = s\<lparr>s3_world := r\<rparr>"
    and count: "active_requests r = active_requests (s3_world s)"
      "active_multipart r = active_multipart (s3_world s) + 1"
    using up by (auto simp: open_upload_def)
  obtain r1 x q where c: "remote_call L OpS3WriterAbort False (remote_abort L u) r = (r1, x)"
    "remote_state r1 = fst (remote_abort L u q)" "active_requests r1 = active_requests r"
    "active_multipart r1 = active_multipart r"
    using remote_abort_call [OF rt] by blast
  have t1: "t1 = s\<lparr>s3_world := r1\<lparr>active_multipart := active_multipart r1 - 1\<rparr>\<rparr>"
    and o1: "\<exists>w1. o1 = S3StoreWriter w1 key \<and> \<not> rw_active w1"
    using run w c(1)
    by (auto simp: store_writer_abort_def on_s3_writer_def multipart_abort_def finish_active_eq Let_def out t)
  have "aborted_upload L u s t1" using t1 c count by (auto simp: aborted_upload_def remote_kept_def)
  then show ?thesis using o1 by (auto simp: store_writer_drop_def multipart_drop_def)
qed

lemma open_upload_drop:
  assumes up: "open_upload L u s out t" and run: "store_writer_drop L (out, t) = (o1, t1)"
  shows "aborted_upload L u s t1"
proof -
  obtain o2 t2 b where ab: "store_writer_abort L (out, t) = ((o2, t2), b)" by (metis surj_pair)
  have "t1 = t2"
    using up run ab
    by (auto simp: open_upload_def store_writer_drop_def store_writer_abort_def on_s3_writer_def
        multipart_drop_def split: prod.splits)
  then show ?thesis using open_upload_abort [OF up ab] by simp
qed

lemma open_output_upload:
  assumes up: "open_upload L u s out t" and run: "open_output E L inputs options limit (out, t) = (v, r)"
  shows "case r of
      Returned (Inr st) \<Rightarrow> ws_active (pw_stats st) \<and>
        (\<exists>enc o1. pw_writer st = Some (enc, o1) \<and> open_upload L u s o1 v)
    | _ \<Rightarrow> aborted_upload L u s v"
proof -
  have drop: "aborted_upload L u s (snd (store_writer_drop L (o1, t1)))" if "open_upload L u s o1 t1" for o1 t1
  proof -
    obtain o2 t2 where d: "store_writer_drop L (o1, t1) = (o2, t2)" by fastforce
    from open_upload_drop [OF that d] show ?thesis by (simp add: d)
  qed
  show ?thesis
  proof (cases "\<exists>fs props. collect_results (map arrow_field inputs) = Ok fs \<and>
      properties_of E options = Returned (Ok props)")
    case False
    then show ?thesis using run drop [OF up]
      by (auto simp: open_output_def split: sum.splits unwind.splits)
  next
    case True
    then obtain fs props where ok: "collect_results (map arrow_field inputs) = Ok fs"
      "properties_of E options = Returned (Ok props)" by blast
    obtain o1 t1 x where sink: "run_sink L (encoder_new E fs props) (out, t) = ((o1, t1), x)"
      by (metis surj_pair)
    note up1 = open_upload_run [OF up sink]
    show ?thesis using run ok sink up1 drop [OF up1]
      by (auto simp: open_output_def stats_init_def split: unwind.splits option.splits)
  qed
qed

lemma parquet_open_upload:
  assumes run: "parquet_open_store E L store key inputs options s = (t, r)"
    and backend: "store_backend_of store = S3Backend config"
  shows "case r of
      Returned (Inr st) \<Rightarrow> ws_active (pw_stats st) \<and>
        (\<exists>u enc out. begun_upload L config key s = Some u \<and> pw_writer st = Some (enc, out) \<and>
          open_upload L u s out t)
    | _ \<Rightarrow> released_remote L config key s t"
proof (cases "\<exists>flush sync. flush_policy_of (wo_flush options) = Ok flush \<and>
    sync_policy_of (wo_sync options) = Ok sync")
  case False
  then show ?thesis using run by (auto simp: parquet_open_store_def split: sum.splits)
next
  case True
  then obtain flush sync where p: "flush_policy_of (wo_flush options) = Ok flush"
    "sync_policy_of (wo_sync options) = Ok sync" by blast
  obtain v q where v: "store_open_writer L store key flush sync token_default s = (v, q)" by fastforce
  show ?thesis
  proof (cases q)
    case (Inl e)
    then have "t = v" "r = Returned (Err e)" using run p v by (simp_all add: parquet_open_store_def)
    then show ?thesis using open_upload_failed [OF v [unfolded Inl] backend] by simp
  next
    case (Inr out)
    obtain u where u: "begun_upload L config key s = Some u" "open_upload L u s out v"
      using open_upload_begun [OF v [unfolded Inr] backend] by blast
    have o: "open_output E L inputs options (store_multipart_buffer_limit store) (out, v) = (t, r)"
      using run p v Inr by (simp add: parquet_open_store_def)
    from open_output_upload [OF u(2) o] aborted_released [OF _ u(1)] u(1) show ?thesis
      by (auto split: unwind.splits sum.splits)
  qed
qed

lemma parquet_abort_upload:
  assumes act: "ws_active (pw_stats st)" and pw: "pw_writer st = Some (enc, out)"
    and up: "open_upload L u s out t" and run: "parquet_abort E L (st, t) = ((st', t'), b)"
  shows "aborted_upload L u s t' \<and> finished st'"
proof -
  define token where "token = token_cancel (pw_cancellation st)"
  obtain o1 t1 x where sink: "run_sink L (encoder_drop E enc) (with_token token out, t) = ((o1, t1), x)"
    by (metis surj_pair)
  note up1 = open_upload_run [OF open_upload_token [OF up] sink]
  obtain o2 t2 where d: "store_writer_drop L (o1, t1) = (o2, t2)" by fastforce
  have "t' = t2" "finished st'"
    using run act pw sink d
    by (auto simp: parquet_abort_def cancel_state_def token_def release_staged_def set_active_def finished_def Let_def)
  then show ?thesis using open_upload_drop [OF up1 d] by simp
qed

section \<open>Uploads that are not finished\<close>

text \<open>
  What opens, fills and aborts a writer never completes an upload: whatever completing one would
  do makes no difference.
\<close>

lemma call_unfinished [simp]: "remote_call (L\<lparr>remote_finish := f\<rparr>) = remote_call L"
  by (simp add: fun_eq_iff remote_call_def race_call_def s3_runtime_def Let_def cong: if_cong)

lemmas inside_cases = sum.case_cong option.case_cong prod.case_cong unwind.case_cong
  store_backend.case_cong store_writer.case_cong if_cong

lemma open_unfinished [simp]:
  "store_object (L\<lparr>remote_finish := f\<rparr>) = store_object L"
  "open_multipart (L\<lparr>remote_finish := f\<rparr>) = open_multipart L"
  by (simp_all add: fun_eq_iff store_object_def open_multipart_def)

lemma multipart_unfinished [simp]:
  "multipart_abort (L\<lparr>remote_finish := f\<rparr>) = multipart_abort L"
  "multipart_write (L\<lparr>remote_finish := f\<rparr>) = multipart_write L"
  "multipart_drop (L\<lparr>remote_finish := f\<rparr>) = multipart_drop L"
  by (simp_all add: fun_eq_iff multipart_abort_def multipart_write_def multipart_drop_def Let_def
      cong: inside_cases)

lemma writer_unfinished [simp]:
  "store_open_writer (L\<lparr>remote_finish := f\<rparr>) = store_open_writer L"
  "store_writer_write (L\<lparr>remote_finish := f\<rparr>) = store_writer_write L"
  "store_writer_abort (L\<lparr>remote_finish := f\<rparr>) = store_writer_abort L"
  "store_writer_drop (L\<lparr>remote_finish := f\<rparr>) = store_writer_drop L"
  by (simp_all add: fun_eq_iff store_open_writer_def store_writer_abort_def store_writer_drop_def
      store_writer_write_def cong: inside_cases)

lemma write_unfinished [simp]: "store_io_write (L\<lparr>remote_finish := f\<rparr>) = store_io_write L"
  by (simp add: fun_eq_iff store_io_write_def)

lemma run_unfinished [simp]: "run_sink (L\<lparr>remote_finish := f\<rparr>) prog = run_sink L prog"
  by (induction prog) (simp_all only: run_sink.simps write_unfinished rangeI)

lemma output_unfinished [simp]:
  "release_staged (L\<lparr>remote_finish := f\<rparr>) = release_staged L"
  "open_output E (L\<lparr>remote_finish := f\<rparr>) = open_output E L"
  by (simp_all add: fun_eq_iff release_staged_def open_output_def
      cong: inside_cases)

lemma parquet_unfinished [simp]:
  "parquet_open_store E (L\<lparr>remote_finish := f\<rparr>) = parquet_open_store E L"
  "parquet_abort E (L\<lparr>remote_finish := f\<rparr>) = parquet_abort E L"
  by (simp_all add: fun_eq_iff parquet_open_store_def parquet_abort_def Let_def
      cong: inside_cases)

end
