(* ===== verification/Native_Properties.thy ===== *)
theory Native_Properties
  imports Native Writer_Refinement Release_Proofs
begin

text \<open>
  What the exported functions promise beyond their components: an owner that died before it could
  be monitored leaves nothing behind, over either backend.
\<close>

section \<open>What is left\<close>

definition released :: "'r remote_lib \<Rightarrow> store_resource \<Rightarrow> string \<Rightarrow> 'r store_world \<Rightarrow> 'r store_world \<Rightarrow> bool" where
  "released L store key s t \<longleftrightarrow>
     (case store_backend_of store of
        LocalBackend _ \<Rightarrow> released_local (last (key_names key)) s t
      | S3Backend config \<Rightarrow> released_remote L config key s t)"

definition untouched :: "'r store_world \<Rightarrow> 'r store_world \<Rightarrow> bool" where
  "untouched s t \<longleftrightarrow>
     file_at t = file_at s \<and> active_writers t = active_writers s \<and>
     active_requests (s3_world t) = active_requests (s3_world s) \<and>
     active_multipart (s3_world t) = active_multipart (s3_world s)"

text \<open>The root of a local store is a canonical path, so its names are plain.\<close>

definition plain_root :: "store_resource \<Rightarrow> bool" where
  "plain_root store \<longleftrightarrow>
     (case store_backend_of store of LocalBackend base \<Rightarrow> list_all plain_name base | S3Backend _ \<Rightarrow> True)"

lemma released_id [simp]: "released L store key s s"
  by (simp add: released_def split: store_backend.splits)

section \<open>Writers\<close>

lemma open_writer_released:
  assumes "store_open_writer L store key flush sync token_default s = (t, Err e)" and "tree_ok s"
  shows "released L store key s t"
  using open_writer_failed [OF assms] open_upload_failed [OF assms(1)]
  by (auto simp: released_def split: store_backend.splits)

lemma open_writer_aborted:
  assumes op: "store_open_writer L store key flush sync token_default s = (t, Ok out)" and tree: "tree_ok s"
    and plain: "plain_root store" and ab: "store_writer_abort L (out, t) = ((o1, t1), b)"
  shows "released L store key s t1 \<and> store_writer_drop L (o1, t1) = (o1, t1)"
proof (cases "store_backend_of store")
  case (LocalBackend base)
  then obtain w h where w: "out = LocalStoreWriter w base" "open_stage (last (key_names key)) s w h t"
    using open_writer_stage [OF op tree] plain by (auto simp: plain_root_def)
  obtain w1 u q where q: "writer_abort (w, t) = ((w1, u), q)" by (metis surj_pair)
  have "released_local (last (key_names key)) s u" "\<not> lw_active w1"
    using open_stage_abort [OF w(2) q] by simp_all
  then show ?thesis
    using ab q w(1) LocalBackend
    by (auto simp: released_def store_writer_abort_def on_local_writer_def store_writer_drop_def writer_drop_def)
next
  case (S3Backend config)
  then obtain u where u: "begun_upload L config key s = Some u" "open_upload L u s out t"
    using open_upload_begun [OF op] by blast
  from open_upload_abort [OF u(2) ab] aborted_released [OF _ u(1)] S3Backend show ?thesis
    by (simp add: released_def)
qed

lemma unmonitored_store_writer:
  assumes run: "nif_store_writer_open L False store key flush sync s = (t, reply)"
    and tree: "tree_ok s" and plain: "plain_root store"
  shows "released L store key s t \<and> (\<exists>e. reply = ReplyError e)"
proof (cases "write_policies flush sync OpStoreWriterOpen")
  case (Inl e)
  then show ?thesis using run
    by (auto simp: nif_store_writer_open_def replied_def encode_guarded_def guarded_def)
next
  case (Inr fy)
  obtain f y where fy: "fy = (f, y)" by fastforce
  obtain u q where u: "store_open_writer L store key f y token_default s = (u, q)" by fastforce
  show ?thesis
  proof (cases q)
    case (Inl e)
    then have "t = u \<and> (\<exists>e. reply = ReplyError e)" using run Inr fy u
      by (auto simp: nif_store_writer_open_def replied_def encode_guarded_def guarded_def)
    then show ?thesis using open_writer_released [OF u [unfolded Inl] tree] by simp
  next
    case ok: (Inr out)
    obtain o1 t1 b where ab: "store_writer_abort L (out, u) = ((o1, t1), b)" by (metis surj_pair)
    note ended = open_writer_aborted [OF u [unfolded ok] tree plain ab]
    have "t = t1 \<and> (\<exists>e. reply = ReplyError e)"
      using run Inr fy u ok ab ended
      by (cases b) (auto simp: nif_store_writer_open_def replied_def encode_guarded_def guarded_def
          with_store_writer_def lock_store_writer_def Let_def)
    then show ?thesis using ended by simp
  qed
qed

lemma parquet_open_released:
  assumes op: "parquet_open_store E L store key inputs options s = (t, r)" and tree: "tree_ok s"
    and plain: "plain_root store"
  shows "case r of
      Returned (Inr st) \<Rightarrow> \<forall>st' t' b. parquet_abort E L (st, t) = ((st', t'), b) \<longrightarrow>
        released L store key s t' \<and> finished st'
    | _ \<Rightarrow> released L store key s t"
proof (cases "store_backend_of store")
  case (LocalBackend base)
  then have "list_all plain_name base" using plain by (simp add: plain_root_def)
  from parquet_open_stage [OF op tree LocalBackend this] LocalBackend show ?thesis
    by (auto simp: released_def split: unwind.splits sum.splits dest: open_stage_writing)
next
  case (S3Backend config)
  from parquet_open_upload [OF op this] S3Backend show ?thesis
    by (auto simp: released_def split: unwind.splits sum.splits dest!: parquet_abort_upload
        intro: aborted_released)
qed

lemma unmonitored_parquet:
  assumes run: "nif_parquet_writer_open_store E L False store key inputs options s = (t, reply)"
    and tree: "tree_ok s" and plain: "plain_root store"
  shows "released L store key s t \<and> (\<exists>e. reply = ReplyError e)"
proof -
  obtain u r where u: "parquet_open_store E L store key inputs options s = (u, r)" by fastforce
  note opened = parquet_open_released [OF u tree plain]
  show ?thesis
  proof (cases "\<exists>st. r = Returned (Ok st)")
    case False
    then have "released L store key s u" using opened by (auto split: unwind.splits sum.splits)
    moreover have "t = u \<and> (\<exists>e. reply = ReplyError e)"
      using run u False
      by (auto simp: nif_parquet_writer_open_store_def replied_unwind_def encode_guarded_def guarded_def
          split: unwind.splits sum.splits)
    ultimately show ?thesis by simp
  next
    case True
    then obtain st where st: "r = Returned (Ok st)" by blast
    obtain st' s' b where ab: "parquet_abort E L (st, u) = ((st', s'), b)" by (metis surj_pair)
    have ended: "released L store key s s'" "finished st'" using opened ab st by auto
    have "parquet_drop E L (\<lparr>pr_state = st', pr_poisoned = False\<rparr>, s') = s'"
      using ended by (simp add: parquet_drop_def finished_refused(3))
    then have "t = s' \<and> (\<exists>e. reply = ReplyError e)"
      using run u st ab
      by (auto simp: nif_parquet_writer_open_store_def replied_unwind_def encode_guarded_def guarded_def
          resource_abort_writer_def parquet_lock_def Let_def)
    then show ?thesis using ended by simp
  qed
qed

lemma nif_unfinished:
  "nif_store_writer_open (L\<lparr>remote_finish := f\<rparr>) = nif_store_writer_open L"
  "nif_parquet_writer_open_store E (L\<lparr>remote_finish := f\<rparr>) = nif_parquet_writer_open_store E L"
  by (simp_all add: fun_eq_iff nif_store_writer_open_def nif_parquet_writer_open_store_def
      resource_abort_writer_def parquet_drop_def cong: inside_cases)

section \<open>Readers\<close>

lemma head_untouched:
  assumes "store_head L store key s = (t, r)"
  shows "untouched s t"
proof (cases "validate_key key False")
  case (Inl e)
  then show ?thesis using assms by (simp add: store_head_def untouched_def)
next
  case valid: (Inr v)
  show ?thesis
  proof (cases "store_backend_of store")
    case (LocalBackend base)
    obtain u q where u: "local_head (local_location base key) token_default s = (u, q)" by fastforce
    obtain fl where "u = s\<lparr>fs_faults := fl\<rparr>" using quietD [OF quiet_head u] by blast
    moreover have "t = u" using assms valid LocalBackend u by (cases q) (auto simp: store_head_def)
    ultimately show ?thesis by (simp add: untouched_def)
  next
    case (S3Backend config)
    show ?thesis
    proof (cases "store_object L config key")
      case (Inl e)
      then show ?thesis using assms valid S3Backend by (simp add: store_head_def untouched_def)
    next
      case (Inr obj)
      obtain u q where u: "object_head L obj token_default OpStoreHead (s3_world s) = (u, q)" by fastforce
      have t: "t = s\<lparr>s3_world := u\<rparr>" using assms valid S3Backend Inr u
        by (cases q) (auto simp: store_head_def on_s3_def act_bind_def)
      have "file_at t p = file_at s p" for p by (rule file_at_same) (simp_all add: t lookup_def)
      then show ?thesis using neutralD [OF neutral_objects(1) u] t by (simp add: untouched_def fun_eq_iff)
    qed
  qed
qed

lemma unmonitored_reader:
  assumes run: "nif_reader_open_store P L False store key settings n s = ((t, m), reply)"
  shows "untouched s t \<and> m = n \<and> (\<exists>e. reply = ReplyError e)"
proof -
  obtain u x where u: "reader_open_store P L store key settings n s = (u, x)" by fastforce
  obtain v q where "store_head L store key s = (v, q)" by fastforce
  from head_untouched [OF this] this have "untouched s u"
    using u by (auto simp: reader_open_store_def split: sum.splits)
  moreover have "t = u \<and> m = n \<and> (\<exists>e. reply = ReplyError e)"
  proof (cases "\<exists>k st fs. x = Returned (k, Ok (st, fs))")
    case False
    then have "t = u \<and> m = n" using run u
      by (auto simp: nif_reader_open_store_def replied_unwind_def reader_open_store_def open_backend_def
          unwind_then_def Let_def split: unwind.splits prod.splits sum.splits option.splits)
    moreover have "\<exists>e. reply = ReplyError e"
      using run u False by (auto simp: nif_reader_open_store_def replied_unwind_def encode_guarded_def
          guarded_def split: unwind.splits sum.splits prod.splits)
    ultimately show ?thesis by simp
  next
    case True
    then obtain k st fs where x: "x = Returned (k, Ok (st, fs))" by blast
    have "k = n + 1 \<and> rs_active st"
      using u x by (auto simp: reader_open_store_def open_backend_def initial_reader_def unwind_then_def Let_def
          split: unwind.splits prod.splits sum.splits option.splits)
    then show ?thesis using run u x
      by (auto simp: nif_reader_open_store_def replied_unwind_def encode_guarded_def guarded_def
          resource_close_def reader_lock_def reader_close_def resource_drop_def Let_def)
  qed
  ultimately show ?thesis by simp
qed

text \<open>C27: an owner that died before it could be monitored leaves nothing behind. Opening a store
  writer or a Parquet writer for such an owner replies with an error. Over a local store the count
  of active writers and every file are as before: the staging file is removed and nothing is
  published; only when the system refuses a call may a file be left, and then at one path that
  had no file, with the name of a staging file for that object. Over an S3 store the files and
  the counts of active requests and uploads are as before, the upload that was begun, if any, is
  aborted as the last call on the service, and completing an upload is never called: the outcome
  is the same whatever that call would do. Opening a reader for such an owner replies with an
  error and leaves the files and all counts, that of active readers among them, as they were.
  (Directories created for the parent of the object remain.)\<close>

theorem unmonitored_owner_releases:
  assumes "tree_ok s" and "plain_root store"
    and "nif_store_writer_open L False store key flush sync s = (t1, reply1)"
    and "nif_parquet_writer_open_store E L False store key inputs options s = (t2, reply2)"
    and "nif_reader_open_store P L False store key settings n s = ((t3, m), reply3)"
  shows "released L store key s t1 \<and> (\<exists>e. reply1 = ReplyError e) \<and>
    released L store key s t2 \<and> (\<exists>e. reply2 = ReplyError e) \<and>
    (\<forall>f. nif_store_writer_open (L\<lparr>remote_finish := f\<rparr>) False store key flush sync s = (t1, reply1) \<and>
      nif_parquet_writer_open_store E (L\<lparr>remote_finish := f\<rparr>) False store key inputs options s = (t2, reply2)) \<and>
    untouched s t3 \<and> m = n \<and> (\<exists>e. reply3 = ReplyError e)"
  using unmonitored_store_writer [OF assms(3,1,2)] unmonitored_parquet [OF assms(4,1,2)]
    unmonitored_reader [OF assms(5)] assms(3,4) by (simp add: nif_unfinished)

text \<open>Over the sample store, where nothing is refused, all files are as before.\<close>

theorem unmonitored_owner_releases_witness:
  "\<forall>(L :: unit remote_lib) P settings.
     file_at (fst (nif_store_writer_open L False sample_store ''a/f'' ''none'' ''all'' sample_store_world)) =
       file_at sample_store_world \<and>
     file_at (fst (nif_parquet_writer_open_store sample_encoder L False sample_store ''a/f'' sample_inputs
          sample_options sample_store_world)) = file_at sample_store_world \<and>
     snd (fst (nif_reader_open_store P L False sample_store ''a/f'' settings 3 sample_store_world)) = 3"
proof (intro allI)
  fix L :: "unit remote_lib" and P settings
  let ?s = sample_store_world
  obtain t1 r1 where 1: "nif_store_writer_open L False sample_store ''a/f'' ''none'' ''all'' ?s = (t1, r1)"
    by fastforce
  obtain t2 r2 where 2: "nif_parquet_writer_open_store sample_encoder L False sample_store ''a/f'' sample_inputs
      sample_options ?s = (t2, r2)" by fastforce
  obtain t3 m r3 where 3: "nif_reader_open_store P L False sample_store ''a/f'' settings 3 ?s = ((t3, m), r3)"
    by (metis surj_pair)
  have "plain_root sample_store" using sample_store_facts by (simp add: plain_root_def)
  from unmonitored_owner_releases [OF sample_store_facts(1) this 1 2 3] sample_store_facts
  show "file_at (fst (nif_store_writer_open L False sample_store ''a/f'' ''none'' ''all'' ?s)) = file_at ?s \<and>
     file_at (fst (nif_parquet_writer_open_store sample_encoder L False sample_store ''a/f'' sample_inputs
          sample_options ?s)) = file_at ?s \<and>
     snd (fst (nif_reader_open_store P L False sample_store ''a/f'' settings 3 ?s)) = 3"
    using 1 2 3 by (simp add: released_def released_local_def)
qed

end
