(* ===== verification/Spec2Isabelle.thy ===== *)
theory Spec2Isabelle
  imports Partition_Properties Object_Types Zstd Arrow_Schema Reader_Properties Reader_Store S3_System Codec_Properties Writer_Refinement Native_Properties
begin

text \<open>
  The native core of Parquex: a model of the Rust library under
  \<^verbatim>\<open>src/native/parquex_nif/src/\<close>, with the properties that make it correct. All source files
  named below are in that directory.

  \<^bold>\<open>The program.\<close> Parquex reads and writes Parquet files from Elixir. Its native library is called
  through exported functions (\<^verbatim>\<open>lib.rs\<close>). A store (\<^verbatim>\<open>store.rs\<close>) is a local directory (\<^verbatim>\<open>local.rs\<close>) or
  an S3 namespace (\<^verbatim>\<open>s3.rs\<close>). A reader (\<^verbatim>\<open>reader.rs\<close>) opens an object of a store, decodes row groups
  through bounded range requests, filters and projects them, and hands out batches from a bounded
  queue. A writer (\<^verbatim>\<open>writer.rs\<close>) decodes Erlang terms to record batches, encodes them and stages the
  bytes; closing it publishes the staged object. The rest are the failure values (\<^verbatim>\<open>error.rs\<close>), the
  values and the cancellation token the backends share (\<^verbatim>\<open>object.rs\<close>), the bounded Zstandard codec
  (\<^verbatim>\<open>zstd.rs\<close>) and the time partitions (\<^verbatim>\<open>time_partition.rs\<close>). The components share the
  cancellation tokens and the global counters; a resource of the runtime is a lock around a state,
  dropped when the runtime collects it and told when its owner dies.

  \<^bold>\<open>Modelling.\<close> A Rust \<^verbatim>\<open>Result\<close> is a sum with the failure on the left, a struct a record, an enum a
  datatype, \<^verbatim>\<open>u64\<close> and \<^verbatim>\<open>usize\<close> are words of 64 bits (the target is a 64-bit Unix), and a panic is the
  value \<open>Panicked\<close> of the type \<open>unwind\<close>. An operation on shared state takes the state and returns it
  with its result. Whatever can happen in different orders is an inductive step relation.

  \<^bold>\<open>Theories, from the bottom up.\<close>
  \<^item> \<open>Prelude\<close> (results, panics, words, saturating arithmetic), \<open>Text_Codec\<close> (the string
    library: \<^verbatim>\<open>to_string\<close>, \<^verbatim>\<open>parse\<close>, \<^verbatim>\<open>split\<close>), \<open>Iterators\<close>.
  \<^item> \<open>Errors\<close>: \<^verbatim>\<open>error.rs\<close> and the replies and panic boundary of \<^verbatim>\<open>lib.rs\<close>.
  \<^item> \<open>Object_Types\<close>: \<^verbatim>\<open>object.rs\<close>; waiting on a token is the step relation \<open>cancel_step\<close>.
  \<^item> \<open>Time_Partition\<close>: \<^verbatim>\<open>time_partition.rs\<close> over the record \<open>chrono\<close>; \<open>Chrono_Laws\<close> states the laws of
    that calendar as the locale \<open>chrono_laws\<close>, \<open>Gregorian\<close> interprets it on the proleptic Gregorian
    calendar, \<open>Partition_Proofs\<close> works inside it and \<open>Partition_Properties\<close> holds the properties.
  \<^item> \<open>Zstd\<close>: \<^verbatim>\<open>zstd.rs\<close> over the record \<open>zstd_lib\<close>.
  \<^item> \<open>Arrow_Types\<close>, \<open>Arrow_Arrays\<close>: the Arrow types, and arrays as lists of slots;
    \<open>Arrow_Schema\<close>: the schema translations of \<^verbatim>\<open>reader.rs\<close> and \<^verbatim>\<open>writer.rs\<close>.
  \<^item> \<open>Predicates\<close>, \<open>Row_Groups\<close>, \<open>Projection\<close>: the compiled predicate, pruning by statistics,
    and the selection of columns in \<^verbatim>\<open>reader.rs\<close>.
  \<^item> \<open>Range_Reader\<close>: metrics, chunk reader and cursor of \<^verbatim>\<open>reader.rs\<close>, with the locale
    \<open>range_source\<close>; \<open>Reader_State\<close>: opening, the prefetch queue, closing;
    \<open>Reader_Proofs\<close>: the locale \<open>batch_source\<close> and its interpretation on the queue;
    \<open>Reader_System\<close>: all readers of a process as \<open>reader_step\<close>; \<open>Reader_Properties\<close>;
    \<open>Reader_Store\<close>: the reader over a store, where \<open>range_source\<close> is interpreted.
  \<^item> \<open>Filesystem\<close>, \<open>Filesystem_Laws\<close>: \<^verbatim>\<open>std::path\<close> and \<^verbatim>\<open>std::fs\<close> with symbolic links and injected
    failures; \<open>Local_Store\<close>: \<^verbatim>\<open>local.rs\<close>; \<open>Local_Proofs\<close>; \<open>Local_System\<close>: all staged writers of a
    process as \<open>local_step\<close>; \<open>Local_Properties\<close>.
  \<^item> \<open>S3\<close>: \<^verbatim>\<open>s3.rs\<close> over the record \<open>remote_lib\<close>; \<open>S3_System\<close>: all uploads as \<open>remote_step\<close>.
  \<^item> \<open>Store\<close>, \<open>Store_Proofs\<close>, \<open>Store_Properties\<close>: \<^verbatim>\<open>store.rs\<close> over both backends.
  \<^item> \<open>Batch_Codec\<close>: terms to batches (\<^verbatim>\<open>writer.rs\<close>) and back (\<^verbatim>\<open>reader.rs\<close>); \<open>Codec_Laws\<close> with the
    locale \<open>term_codec\<close>, \<open>Codec_Proofs\<close>, \<open>Codec_Properties\<close>; \<open>Erlang_Terms\<close> interprets it.
  \<^item> \<open>Parquet_Writer\<close>: the rest of \<^verbatim>\<open>writer.rs\<close>; \<open>Writer_Proofs\<close>, \<open>Writer_Properties\<close> and
    \<open>Writer_Refinement\<close>.
  \<^item> \<open>Native\<close>, \<open>Native_Properties\<close>: the exported functions of \<^verbatim>\<open>lib.rs\<close>, over \<open>Release_Proofs\<close>: what a
    writer over either backend leaves when it ends unpublished.

  \<^bold>\<open>What the lemmas show.\<close>
  \<^item> Writing: without failures a published object is what the encoder produces for the decoded
    batches and is read back through the store; under every failure and order of calls only the
    staging file changes before a close, a publication is whole or absent, and an ended writer
    refuses everything. The writers of a process never share a file.
  \<^item> Reading: the batches handed out are the requested columns of the matching rows of the whole
    file, in order, whatever the prefetch depth, the pruning and the pushdown; the queue, the
    requests and the counters stay within their bounds, and closing is final.
  \<^item> The boundary: an accepted batch is typed, an encoded batch is accepted again and unchanged, a
    schema survives both translations and no value of an accepted schema is refused for its type,
    and an owner that cannot be monitored leaves nothing: no file, no upload, no count.
  \<^item> Stores: a key names a path beneath the root, reading and deleting never leave it, and what was
    put is what is got. A key that ends in a separator or a dot segment can be written but not read: a
    path that the system resolves keeps that demand for a directory (\<open>system_path\<close>). The S3 counters are exact in every reachable state.
  \<^item> Partitions: an instant lies in its partition, paths and partitions correspond one to one, and
    a plan tiles its range, is complete, and respects its limit.
  \<^item> The token: a cancelled operation never completes; a wake-up of \<^verbatim>\<open>cancelled()\<close> can be lost.

  \<^bold>\<open>Bounds and fuel.\<close> \<open>plan_loop\<close> recurses on the room left under the limit of the call, which the code
  counts too. \<open>allocate_stage\<close> tries the 64 names of the code. Resolving a path follows at most
  \<open>max_links\<close> = 40 links, the bound of the kernel, and fails beyond it. Reading through a cursor to the end (\<open>drain_cursor\<close>)
  takes fuel; one read more than there are bytes left is proved enough. The encoder is a finite
  program of sink calls, and the decoder a finite list of results. No other definition has fuel.

  \<^bold>\<open>Parameters.\<close> Code outside the repository is an argument: \<open>chrono\<close> (the calendar), \<open>zstd_lib\<close>,
  \<open>arrow_kernels\<close> (filtering and sizing of batches), \<open>parquet_lib\<close> (opening a file and decoding
  row groups), \<open>encoder_lib\<close> (the Parquet encoder), \<open>batch_lib\<close> and \<open>nif\<close> (building batches, Erlang
  terms), \<open>remote_lib\<close> (the S3 client). What a property needs of them is a named hypothesis
  (\<open>chrono_laws\<close>, \<open>zstd_frames_decode\<close>, \<open>kernels_ok\<close>, \<open>decoder_reads\<close>, \<open>rows_described\<close>, \<open>term_codec\<close>,
  \<open>batch_lib_ok\<close>), and its witness gives a parameter that satisfies it.

  \<^bold>\<open>Not modelled.\<close> The registration of the module and the atom table (declarations of the
  binding library); the \<^verbatim>\<open>Debug\<close> implementations, which only hide credentials in logs; the replacement of
  files on Windows; trait implementations that only forward; the unit tests. The Elixir layer under
  \<^verbatim>\<open>src/lib/\<close> validates options and wraps the exported functions and is another language. Within a call
  the threads of the S3 client are one step, and its calls do not panic; batch sizes in memory are
  what the kernels report, and the bytes a reader buffers are a natural number. An array builder
  panics where \<open>builder_holds\<close> says that it cannot hold the values; a float is a rational number, the
  negative zero, an infinity or NaN. An injected failure of the file system stands for every
  refusal the tree does not show, such as permissions, a full disk, or a name that is too long or
  contains a NUL.
\<close>

end
